(* ===== verification/Prelude.thy ===== *)
theory Prelude
  imports Main "HOL-Library.Word"
begin

text \<open>
  The shared layer of the development: names for the C integer types, the collections of facts
  that the component theories extend and generic lemmas on lists and words.
\<close>

unbundle bit_operations_syntax

section \<open>C integer types\<close>

type_synonym u8 = "8 word"
type_synonym u16 = "16 word"
type_synonym u32 = "32 word"
type_synonym u64 = "64 word"

text \<open>Conversion to \<open>int8_t\<close>.\<close>

definition int8 :: "int \<Rightarrow> int" where
  "int8 x = signed_take_bit 7 x"

lemma int8_id: "- 128 \<le> x \<Longrightarrow> x < 128 \<Longrightarrow> int8 x = x"
  by (simp add: int8_def signed_take_bit_int_eq_self)

text \<open>The \<open>errno\<close> values that the modelled functions report.\<close>

datatype errno = EINVAL | EAGAIN | ENOMEM | EIO | EBADMSG | EDEADLK

section \<open>Collections of facts\<close>

named_theorems dmesh_const \<open>values of the preprocessor constants\<close>
named_theorems dmesh_frame \<open>what an operation leaves unchanged\<close>

section \<open>Lists\<close>

lemma sum_list_update_nat:
  fixes xs :: "nat list"
  assumes "i < length xs"
  shows "sum_list (xs[i := v]) + xs ! i = sum_list xs + v"
  using assms
proof (induction xs arbitrary: i)
  case Nil
  then show ?case by simp
next
  case (Cons x xs)
  then show ?case by (cases i) auto
qed

lemma map_upd_same:
  "i < length xs \<Longrightarrow> f y = f (xs ! i) \<Longrightarrow> map f (xs[i := y]) = map f xs"
  by (metis list_update_id map_update)

lemma distinct_map_nth_eq:
  "distinct (map f xs) \<Longrightarrow> i < length xs \<Longrightarrow> j < length xs \<Longrightarrow> f (xs ! i) = f (xs ! j) \<Longrightarrow> i = j"
  by (metis length_map nth_eq_iff_index_eq nth_map)

text \<open>Removal from a dense table: the last entry moves into the hole.\<close>

definition swap_remove :: "nat \<Rightarrow> 'a list \<Rightarrow> 'a list" where
  "swap_remove i xs = butlast (xs[i := last xs])"

lemma swap_remove_take:
  assumes "i < n" and "n \<le> length xs"
  shows "swap_remove i (take n xs) = take (n - 1) (xs[i := xs ! (n - 1)])"
proof (rule nth_equalityI)
  have l: "last (take n xs) = xs ! (n - 1)" 
    using assms by (subst last_conv_nth) (auto simp: min_def)
  show "length (swap_remove i (take n xs)) = length (take (n - 1) (xs[i := xs ! (n - 1)]))"
    using assms by (simp add: swap_remove_def)
  fix j assume "j < length (swap_remove i (take n xs))"
  then have "j < n - 1" using assms by (simp add: swap_remove_def)
  then show "swap_remove i (take n xs) ! j = take (n - 1) (xs[i := xs ! (n - 1)]) ! j"
    using assms by (simp add: swap_remove_def l nth_butlast nth_list_update)
qed

lemma set_swap_remove:
  assumes "distinct xs" and "i < length xs"
  shows "set (swap_remove i xs) = set xs - {xs ! i} \<and> distinct (swap_remove i xs)"
proof -
  from assms(2) obtain ys z where xs: "xs = ys @ [z]" by (cases xs rule: rev_cases) auto
  show ?thesis
  proof (cases "i = length ys")
    case True
    with assms xs show ?thesis by (auto simp: swap_remove_def)
  next
    case False
    with assms(2) xs have i: "i < length ys" by simp
    then have "swap_remove i xs = ys[i := z]"
      by (simp add: swap_remove_def xs list_update_append nth_append)
    moreover from assms(1) xs have "distinct ys" "z \<notin> set ys" by auto
    ultimately show ?thesis
      using i set_update_distinct [of ys i z] by (auto simp: xs nth_append distinct_list_update)
  qed
qed

lemma map_of_ext_set:
  assumes "distinct (map fst xs)" "distinct (map fst ys)"
    and "\<And>k v. (k, v) \<in> set ys \<longleftrightarrow> (k, v) \<in> set xs \<and> k \<noteq> k0"
  shows "map_of ys = (map_of xs)(k0 := None)"
proof (rule ext)
  fix k
  show "map_of ys k = ((map_of xs)(k0 := None)) k"
  proof (cases "map_of ys k")
    case None
    then show ?thesis using assms map_of_eq_None_iff [of ys k] map_of_SomeD [of xs k]
      by (cases "map_of xs k") force+
  next
    case (Some v)
    then show ?thesis using assms(1,3) map_of_SomeD [of ys k v] by auto
  qed
qed

lemma map_of_swap_remove:
  assumes "distinct (map fst xs)" and "i < length xs"
  shows "map_of (swap_remove i xs) = (map_of xs)(fst (xs ! i) := None)
    \<and> distinct (map fst (swap_remove i xs))"
proof -
  have m: "map fst (swap_remove i xs) = swap_remove i (map fst xs)"
    using assms(2) by (cases "xs = []") (auto simp: swap_remove_def map_butlast map_update last_map)
  have d: "distinct (map fst (swap_remove i xs))"
    unfolding m using set_swap_remove [of "map fst xs" i] assms by simp
  have "set (swap_remove i xs) = set xs - {xs ! i}"
    using set_swap_remove [of xs i] assms distinct_map [of fst xs] by simp
  moreover have "k = fst (xs ! i) \<longleftrightarrow> (k, v) = xs ! i" if "(k, v) \<in> set xs" for k v
  proof -
    from that obtain j where "j < length xs" "xs ! j = (k, v)" by (auto simp: in_set_conv_nth)
    with distinct_map_nth_eq [OF assms(1), of j i] assms(2) show ?thesis by (metis fst_conv)
  qed
  ultimately have "map_of (swap_remove i xs) = (map_of xs)(fst (xs ! i) := None)"
    using assms(1) d by (intro map_of_ext_set) auto
  with d show ?thesis by simp
qed

lemma map_of_list_update:
  assumes "i < length xs" and "distinct (map fst xs)" and "fst (xs ! i) = k"
  shows "map_of (xs[i := (k, v)]) = (map_of xs)(k \<mapsto> v)"
  using assms
proof (induction xs arbitrary: i)
  case (Cons x xs)
  show ?case
  proof (cases i)
    case (Suc j)
    with Cons.prems have "fst x \<noteq> k" by (metis distinct.simps(2) length_Cons list.map(2)
      nth_Cons_Suc nth_map nth_mem length_map Suc_less_eq)
    with Cons Suc show ?thesis by (cases x) (auto simp: fun_upd_twist)
  qed (use Cons.prems in \<open>cases x; auto\<close>)
qed simp

lemma map_of_snoc: "k \<notin> fst ` set xs \<Longrightarrow> map_of (xs @ [(k, v)]) = (map_of xs)(k \<mapsto> v)"
  by (induction xs) (auto simp: fun_upd_twist)

section \<open>Words\<close>

lemma unat_of_nat_mod: "unat (of_nat n :: 'a::len word) = n mod 2 ^ LENGTH('a)"
  by (simp add: unat_of_nat)

lemma unat_ucast_mod: "unat (ucast (x :: 'a::len word) :: 'b::len word) = unat x mod 2 ^ LENGTH('b)"
  by (simp add: unsigned_ucast_eq take_bit_eq_mod)

lemma unat_lt_exp: "unat (x :: 'a::len word) < 2 ^ LENGTH('a)"
  by (rule unsigned_less)

lemma unat_ucast_32_64 [simp]: "unat (ucast (x :: u32) :: u64) = unat x"
  using unat_lt_exp [of x] by (simp add: unat_ucast_mod)

lemma unat_ucast_64_32: "unat x < 2 ^ 32 \<Longrightarrow> unat (ucast (x :: u64) :: u32) = unat x"
  by (simp add: unat_ucast_mod)

lemma ucast_32_64_32 [simp]: "ucast (ucast (x :: u32) :: u64) = x"
  by (rule word_unat_eq_iff [THEN iffD2]) (use unat_lt_exp [of x] in \<open>simp add: unat_ucast_64_32\<close>)

lemma unat_sub_word:
  fixes a b :: "'a::len word"
  assumes "unat b \<le> unat a"
  shows "unat (a - b) = unat a - unat b"
  using assms by (simp add: unat_sub word_le_nat_alt)

lemma unat_add_word:
  fixes a b :: "'a::len word"
  assumes "unat a + unat b < 2 ^ LENGTH('a)"
  shows "unat (a + b) = unat a + unat b"
  using assms by (simp add: unat_word_ariths)

end
