(* ===== verification/Topology_Map.thy ===== *)
theory Topology_Map
  imports Prelude "HOL-Library.Signed_Division"
begin

text \<open>
  The ownership rule of \<open>include/dpumesh/dmesh_topology.h\<close>: which forward ring a port uses, which
  DPA execution unit drains that ring and which ARM worker owns it. C's \<open>int\<close> is modelled by
  \<open>int\<close> with the truncating \<open>sdiv\<close> and \<open>smod\<close>, since \<open>pod_id\<close> is signed; pod ids are
  8-bit on the wire and the counts are at most 32, so no product leaves the range of \<open>int\<close>.
\<close>

section \<open>Definitions\<close>

definition dmesh_forward_ring :: "u16 \<Rightarrow> int \<Rightarrow> int" where
  "dmesh_forward_ring port forward_rings =
     (if forward_rings > 1 then uint port mod forward_rings else 0)"

definition dmesh_worker_for_port :: "u16 \<Rightarrow> int \<Rightarrow> int" where
  "dmesh_worker_for_port port arm_workers =
     (if arm_workers > 1 then uint port mod arm_workers else 0)"

definition dmesh_worker_for_ring :: "int \<Rightarrow> int \<Rightarrow> int" where
  "dmesh_worker_for_ring ring arm_workers =
     (if arm_workers > 1 then ring smod arm_workers else 0)"

definition dmesh_topology_valid :: "int \<Rightarrow> int \<Rightarrow> int \<Rightarrow> bool" where
  "dmesh_topology_valid forward_rings dpa_eus arm_workers \<longleftrightarrow>
     forward_rings \<ge> 1 \<and> dpa_eus \<ge> forward_rings \<and>
     arm_workers \<ge> 1 \<and> arm_workers \<le> forward_rings \<and>
     forward_rings smod arm_workers = 0 \<and>
     dpa_eus smod arm_workers = 0"

definition dmesh_dpa_eu_for_ring :: "int \<Rightarrow> int \<Rightarrow> int \<Rightarrow> int \<Rightarrow> int \<Rightarrow> int" where
  "dmesh_dpa_eu_for_ring pod_id forward_rings ring dpa_eus arm_workers =
     (if \<not> dmesh_topology_valid forward_rings dpa_eus arm_workers \<or> ring < 0 \<or> ring \<ge> forward_rings
      then -1
      else
        let owner = dmesh_worker_for_ring ring arm_workers;
            owner_ring = ring sdiv arm_workers;
            rings_per_owner = forward_rings sdiv arm_workers;
            eus_per_owner = dpa_eus sdiv arm_workers;
            eu_group = (pod_id * rings_per_owner + owner_ring) smod eus_per_owner;
            eu_group' = (if eu_group < 0 then eu_group + eus_per_owner else eu_group)
        in owner + arm_workers * eu_group')"

section \<open>Reading C's division\<close>

lemma smod_nonneg: "0 \<le> (a :: int) \<Longrightarrow> 0 < b \<Longrightarrow> a smod b = a mod b"
  by (simp add: signed_modulo_int_def signed_divide_int_def minus_div_mult_eq_mod [symmetric]
      zero_le_mult_iff sgn_if abs_if)

lemma sdiv_nonneg: "0 \<le> (a :: int) \<Longrightarrow> 0 < b \<Longrightarrow> a sdiv b = a div b"
  by (auto simp: signed_divide_int_def sgn_if)

lemma smod_wrapped:
  assumes "0 < (b :: int)"
  shows "(if a smod b < 0 then a smod b + b else a smod b) = a mod b"
proof (cases "0 \<le> a")
  case True
  moreover have "\<not> a mod b < 0" using pos_mod_sign [OF assms, of a] by linarith
  ultimately show ?thesis using assms by (simp add: smod_nonneg)
next
  case False
  then have s: "a smod b = - ((- a) mod b)"
    using assms by (simp add: signed_modulo_int_def signed_divide_int_def sgn_if
        minus_div_mult_eq_mod [symmetric] algebra_simps)
  have "0 \<le> (- a) mod b" using assms by simp
  then consider "(- a) mod b = 0" | "0 < (- a) mod b" by linarith
  then show ?thesis
    unfolding s using assms zmod_zminus1_eq_if [of "- a" b] by cases auto
qed

lemma worker_for_ring_mod: "0 \<le> ring \<Longrightarrow> 1 \<le> a \<Longrightarrow> dmesh_worker_for_ring ring a = ring mod a"
  by (auto simp: dmesh_worker_for_ring_def smod_nonneg)

lemma topology_validD:
  assumes "dmesh_topology_valid k n a"
  shows "1 \<le> a" "a \<le> k" "k \<le> n" "a dvd k" "a dvd n" "0 < k div a" "k div a \<le> n div a" "0 < n div a"
proof -
  show a: "1 \<le> a" and ak: "a \<le> k" and kn: "k \<le> n"
    using assms by (auto simp: dmesh_topology_valid_def)
  then show "a dvd k" "a dvd n"
    using assms by (auto simp: dmesh_topology_valid_def smod_nonneg)
  show "0 < k div a" using a ak by (simp add: pos_imp_zdiv_pos_iff)
  show le: "k div a \<le> n div a" using a kn by (simp add: zdiv_mono1)
  with \<open>0 < k div a\<close> show "0 < n div a" by simp
qed

lemma eu_for_ring_eq:
  assumes "dmesh_topology_valid k n a" and "0 \<le> r" and "r < k"
  shows "dmesh_dpa_eu_for_ring pod k r n a = r mod a + a * ((pod * (k div a) + r div a) mod (n div a))"
proof -
  note v = topology_validD [OF assms(1)]
  from assms v have "\<not> (\<not> dmesh_topology_valid k n a \<or> r < 0 \<or> r \<ge> k)" by simp
  moreover have "r sdiv a = r div a" "k sdiv a = k div a" "n sdiv a = n div a"
    using v assms by (auto intro: sdiv_nonneg)
  ultimately show ?thesis
    using smod_wrapped [OF v(8)] worker_for_ring_mod [OF assms(2) v(1)]
    by (simp add: dmesh_dpa_eu_for_ring_def Let_def del: if_split split del: if_split)
qed

section \<open>The ownership rule\<close>

text \<open>
  C7. On a valid topology the port's forward ring exists, the execution unit chosen for it exists,
  and the unit, the ring and the port all name the same ARM worker: \<open>EU mod A\<close>, the worker of
  the ring and the worker of the port agree.
\<close>

theorem port_ring_eu_worker_agree:
  fixes port :: u16 and pod :: int
  assumes "dmesh_topology_valid k n a"
  defines "r \<equiv> dmesh_forward_ring port k"
  defines "eu \<equiv> dmesh_dpa_eu_for_ring pod k r n a"
  shows "0 \<le> r \<and> r < k \<and> 0 \<le> eu \<and> eu < n
    \<and> eu mod a = dmesh_worker_for_ring r a
    \<and> dmesh_worker_for_ring r a = dmesh_worker_for_port port a"
proof -
  note v = topology_validD [OF assms(1)]
  have r: "r = uint port mod k"
  proof (cases "k = 1")
    case False
    with v(1,2) show ?thesis by (simp add: r_def dmesh_forward_ring_def)
  qed (simp add: r_def dmesh_forward_ring_def)
  have rb: "0 \<le> r" "r < k" using v by (auto simp: r)
  let ?g = "(pod * (k div a) + r div a) mod (n div a)"
  have eu: "eu = r mod a + a * ?g" unfolding eu_def by (rule eu_for_ring_eq [OF assms(1) rb])
  have "0 \<le> ?g" "?g < n div a" using v(8) by auto
  then have "a * ?g \<le> a * (n div a - 1)" using v(1) by (simp add: mult_left_mono)
  also have "\<dots> = n - a" using v(5) by (simp add: algebra_simps)
  finally have "eu < n" unfolding eu using v(1) pos_mod_bound [of a r] by linarith
  moreover have "0 \<le> eu" using v(1) \<open>0 \<le> ?g\<close> by (simp add: eu)
  moreover have "eu mod a = r mod a" by (simp add: eu)
  moreover have "r mod a = uint port mod a" using v(4) by (simp add: r mod_mod_cancel)
  moreover have "dmesh_worker_for_port port a = uint port mod a"
    using v(1) by (cases "a = 1") (auto simp: dmesh_worker_for_port_def)
  ultimately show ?thesis
    using rb worker_for_ring_mod [OF rb(1) v(1)] by simp
qed

theorem port_ring_eu_worker_agree_witness:
  "dmesh_topology_valid 4 8 2 \<and> dmesh_forward_ring 32771 4 = 3
    \<and> dmesh_dpa_eu_for_ring (-3) 4 3 8 2 mod 2 = dmesh_worker_for_port 32771 2"
proof -
  have v: "dmesh_topology_valid 4 8 2"
    by (simp add: dmesh_topology_valid_def signed_modulo_int_def signed_divide_int_def)
  have f: "dmesh_forward_ring 32771 4 = 3" by (simp add: dmesh_forward_ring_def)
  show ?thesis using v f port_ring_eu_worker_agree [OF v, of 32771 "-3"] by simp
qed

text \<open>
  C20. The rings of one pod are spread over different execution units: on a valid topology no two
  of them share one.
\<close>

theorem pod_rings_on_distinct_eus:
  assumes "dmesh_topology_valid k n a" and "0 \<le> r" "r < k" and "0 \<le> r'" "r' < k"
    and "dmesh_dpa_eu_for_ring pod k r n a = dmesh_dpa_eu_for_ring pod k r' n a"
  shows "r = r'"
proof -
  note v = topology_validD [OF assms(1)]
  let ?g = "\<lambda>r. (pod * (k div a) + r div a) mod (n div a)"
  have e: "r mod a + a * ?g r = r' mod a + a * ?g r'"
    using assms by (simp add: eu_for_ring_eq)
  then have m: "r mod a = r' mod a"
    by (metis mod_mod_trivial mod_mult_self2)
  with e v(1) have g: "?g r = ?g r'" by simp
  have dlt: "x div a < n div a" if "x < k" for x
  proof -
    have "a * (x div a) \<le> x" using v(1) mult_div_mod_eq [of a x] pos_mod_sign [of a x] by linarith
    also have "x < a * (k div a)" using that v(4) by simp
    finally have "x div a < k div a" using v(1) by simp
    with v(7) show ?thesis by simp
  qed
  have "(?g r - pod * (k div a)) mod (n div a) = (?g r' - pod * (k div a)) mod (n div a)"
    by (simp only: g)
  then have "r div a mod (n div a) = r' div a mod (n div a)" by (simp add: mod_diff_left_eq)
  then have "r div a = r' div a"
    using dlt [OF assms(3)] dlt [OF assms(5)] assms(2,4) v(1)
    by (simp add: pos_imp_zdiv_nonneg_iff)
  with m show ?thesis by (metis div_mult_mod_eq)
qed

theorem pod_rings_on_distinct_eus_witness:
  "dmesh_topology_valid 4 8 2 \<and> dmesh_dpa_eu_for_ring 5 4 1 8 2 \<noteq> dmesh_dpa_eu_for_ring 5 4 3 8 2"
proof -
  have v: "dmesh_topology_valid 4 8 2"
    by (simp add: dmesh_topology_valid_def signed_modulo_int_def signed_divide_int_def)
  show ?thesis using v pod_rings_on_distinct_eus [OF v, of 1 3 5] by auto
qed

end
