(* ===== verification/Interfaces.thy ===== *)
theory Interfaces
  imports Prelude
begin

text \<open>
  The interfaces that several components of the program share, each stated once as a locale with
  the lemmas its clients use: a transition system with an inductive invariant, a bounded
  first-in-first-out queue, and a pool that hands out indices. The component theories interpret
  them on the definitions that model the code. The linked free list of the
  TX blocks is characterised here too.
\<close>

section \<open>Transition systems\<close>

locale invariant_system =
  fixes start :: "'s \<Rightarrow> bool"
    and trans :: "'s \<Rightarrow> 's \<Rightarrow> bool"
    and inv :: "'s \<Rightarrow> bool"
  assumes inv_start: "start s \<Longrightarrow> inv s"
    and inv_trans: "inv s \<Longrightarrow> trans s t \<Longrightarrow> inv t"
begin

lemma inv_rtranclp: "trans\<^sup>*\<^sup>* s t \<Longrightarrow> inv s \<Longrightarrow> inv t"
  by (induction rule: rtranclp_induct) (auto intro: inv_trans)

lemma inv_reachable: "start s \<Longrightarrow> trans\<^sup>*\<^sup>* s t \<Longrightarrow> inv t"
  using inv_start inv_rtranclp by blast

end

section \<open>Bounded FIFO queues\<close>

text \<open>
  What a ring promises its two ends: a push is refused exactly when the ring holds its capacity,
  an accepted push appends, a pop removes the oldest element.
\<close>

datatype 'a queue_op = Push 'a | Pop

locale bounded_fifo =
  fixes push :: "'a \<Rightarrow> 'q \<Rightarrow> 'q option"
    and pop :: "'q \<Rightarrow> ('a \<times> 'q) option"
    and contents :: "'q \<Rightarrow> 'a list"
    and capacity :: "'q \<Rightarrow> nat"
    and invar :: "'q \<Rightarrow> bool"
  assumes push_full: "invar q \<Longrightarrow> push x q = None \<longleftrightarrow> length (contents q) = capacity q"
    and push_contents: "invar q \<Longrightarrow> push x q = Some q' \<Longrightarrow> contents q' = contents q @ [x]"
    and push_invar: "invar q \<Longrightarrow> push x q = Some q' \<Longrightarrow> invar q' \<and> capacity q' = capacity q"
    and pop_empty: "invar q \<Longrightarrow> pop q = None \<longleftrightarrow> contents q = []"
    and pop_contents: "invar q \<Longrightarrow> pop q = Some (x, q') \<Longrightarrow> contents q = x # contents q'"
    and pop_invar: "invar q \<Longrightarrow> pop q = Some (x, q') \<Longrightarrow> invar q' \<and> capacity q' = capacity q"
begin

text \<open>A run of pushes and pops: what was accepted, what was delivered, and the final queue.\<close>

fun run :: "'a queue_op list \<Rightarrow> 'q \<Rightarrow> 'a list \<times> 'a list \<times> 'q" where
  "run [] q = ([], [], q)"
| "run (Push x # ops) q =
     (case push x q of
        None \<Rightarrow> run ops q
      | Some q' \<Rightarrow> (case run ops q' of (a, d, r) \<Rightarrow> (x # a, d, r)))"
| "run (Pop # ops) q =
     (case pop q of
        None \<Rightarrow> run ops q
      | Some (x, q') \<Rightarrow> (case run ops q' of (a, d, r) \<Rightarrow> (a, x # d, r)))"

lemma run_fifo:
  "invar q \<Longrightarrow> run ops q = (a, d, q') \<Longrightarrow> contents q @ a = d @ contents q' \<and> invar q'"
proof (induction ops arbitrary: q a d)
  case Nil
  then show ?case by simp
next
  case (Cons opn ops)
  show ?case
  proof (cases opn)
    case (Push x)
    show ?thesis
    proof (cases "push x q")
      case None
      with Cons Push show ?thesis by auto
    next
      case (Some q1)
      with Cons.prems Push obtain a1 where
        a1: "run ops q1 = (a1, d, q')" and a: "a = x # a1"
        by (auto split: prod.splits)
      from Cons.prems(1) Some have "invar q1" and "contents q1 = contents q @ [x]"
        by (auto dest: push_invar push_contents)
      with Cons.IH [OF _ a1] a show ?thesis by auto
    qed
  next
    case Pop
    show ?thesis
    proof (cases "pop q")
      case None
      with Cons Pop show ?thesis by auto
    next
      case (Some xq)
      obtain x q1 where xq: "xq = (x, q1)" by (cases xq)
      with Cons.prems Pop Some obtain d1 where
        d1: "run ops q1 = (a, d1, q')" and d: "d = x # d1"
        by (auto split: prod.splits)
      from Cons.prems(1) Some xq have "invar q1" and "contents q = x # contents q1"
        by (auto dest: pop_invar pop_contents)
      with Cons.IH [OF _ d1] d show ?thesis by auto
    qed
  qed
qed

lemma push_pop_singleton:
  assumes "invar q" and "contents q = []" and "push x q = Some q'"
  shows "\<exists>q''. pop q' = Some (x, q'') \<and> contents q'' = []"
proof -
  from assms have c: "contents q' = [x]" and i: "invar q'"
    by (auto dest: push_contents push_invar)
  then obtain y q'' where p: "pop q' = Some (y, q'')"
    using pop_empty [OF i] by (cases "pop q'") auto
  from pop_contents [OF i p] c p show ?thesis by auto
qed

end

section \<open>Index pools\<close>

text \<open>
  A pool hands out indices and takes them back: an index that is out is not handed out again.
\<close>

locale index_pool =
  fixes grab :: "'p \<Rightarrow> (nat \<times> 'p) option"
    and give :: "nat \<Rightarrow> 'p \<Rightarrow> 'p"
    and free :: "'p \<Rightarrow> nat list"
    and universe :: "'p \<Rightarrow> nat"
    and invar :: "'p \<Rightarrow> bool"
  assumes free_distinct: "invar p \<Longrightarrow> distinct (free p) \<and> set (free p) \<subseteq> {..<universe p}"
    and grab_empty: "invar p \<Longrightarrow> grab p = None \<longleftrightarrow> free p = []"
    and grab_free: "invar p \<Longrightarrow> grab p = Some (i, p') \<Longrightarrow> free p = i # free p'"
    and grab_invar: "invar p \<Longrightarrow> grab p = Some (i, p') \<Longrightarrow> invar p' \<and> universe p' = universe p"
    and give_free: "invar p \<Longrightarrow> i < universe p \<Longrightarrow> i \<notin> set (free p) \<Longrightarrow> free (give i p) = i # free p"
    and give_invar: "invar p \<Longrightarrow> i < universe p \<Longrightarrow> i \<notin> set (free p) \<Longrightarrow>
       invar (give i p) \<and> universe (give i p) = universe p"
begin

lemma grab_fresh:
  assumes "invar p" and "grab p = Some (i, p')"
  shows "i < universe p \<and> i \<in> set (free p) \<and> set (free p') = set (free p) - {i}"
proof -
  from assms have f: "free p = i # free p'" by (rule grab_free)
  with free_distinct [OF assms(1)] show ?thesis by auto
qed

lemma grab_give:
  assumes "invar p" and "grab p = Some (i, p')"
  shows "free (give i p') = free p"
proof -
  from assms have f: "free p = i # free p'" by (rule grab_free)
  from grab_invar [OF assms] have i: "invar p'" and u: "universe p' = universe p" by auto
  from free_distinct [OF assms(1)] f u have "i < universe p'" and "i \<notin> set (free p')" by auto
  with give_free [OF i] f show ?thesis by simp
qed

text \<open>
  Conservation: with \<open>held\<close> the indices that are out, a grab moves one index from the pool to
  the holder and a give moves it back, so the two together always are the whole range.
\<close>

definition conserved :: "'p \<Rightarrow> nat set \<Rightarrow> bool" where
  "conserved p held \<longleftrightarrow> invar p \<and> set (free p) \<inter> held = {} \<and> set (free p) \<union> held = {..<universe p}"

lemma conserved_grab:
  assumes "conserved p held" and "grab p = Some (i, p')"
  shows "i \<notin> held \<and> conserved p' (insert i held)"
proof -
  from assms(1) have I: "invar p" by (simp add: conserved_def)
  from grab_fresh [OF I assms(2)] grab_invar [OF I assms(2)] assms(1) show ?thesis
    by (auto simp: conserved_def)
qed

lemma conserved_give:
  assumes "conserved p held" and "i \<in> held"
  shows "conserved (give i p) (held - {i})"
proof -
  from assms have I: "invar p" and i: "i < universe p" "i \<notin> set (free p)"
    by (auto simp: conserved_def)
  from give_free [OF I i] give_invar [OF I i] assms show ?thesis
    by (auto simp: conserved_def)
qed

end

section \<open>Linked free lists\<close>

text \<open>
  \<open>linked nx isnil h xs\<close>: following the links \<open>nx\<close> from the head \<open>h\<close> visits exactly
  \<open>xs\<close> and stops at a nil mark.
\<close>

fun linked :: "(nat \<Rightarrow> nat) \<Rightarrow> (nat \<Rightarrow> bool) \<Rightarrow> nat \<Rightarrow> nat list \<Rightarrow> bool" where
  "linked nx isnil h [] = isnil h"
| "linked nx isnil h (x # xs) = (h = x \<and> \<not> isnil x \<and> linked nx isnil (nx x) xs)"

lemma linked_cong: "(\<And>x. x \<in> set xs \<Longrightarrow> nx x = nx' x) \<Longrightarrow> linked nx isnil h xs = linked nx' isnil h xs"
  by (induction xs arbitrary: h) auto

lemma linked_unique: "linked nx isnil h xs \<Longrightarrow> linked nx isnil h ys \<Longrightarrow> xs = ys"
proof (induction xs arbitrary: h ys)
  case Nil
  then show ?case by (cases ys) auto
next
  case (Cons x xs)
  then show ?case by (cases ys) auto
qed

lemma linked_Nil_iff: "linked nx isnil h xs \<Longrightarrow> isnil h \<longleftrightarrow> xs = []"
  by (cases xs) auto

lemma linked_push:
  assumes "linked nx isnil h xs" and "\<not> isnil i" and "i \<notin> set xs"
    and "nx' i = h" and "\<And>x. x \<noteq> i \<Longrightarrow> nx' x = nx x"
  shows "linked nx' isnil i (i # xs)"
proof -
  have "linked nx' isnil h xs = linked nx isnil h xs"
    by (rule linked_cong) (metis assms(3,5))
  with assms show ?thesis by simp
qed

text \<open>The list read off the links, with a bound on its length.\<close>

fun chain :: "(nat \<Rightarrow> nat) \<Rightarrow> (nat \<Rightarrow> bool) \<Rightarrow> nat \<Rightarrow> nat \<Rightarrow> nat list" where
  "chain nx isnil 0 h = []"
| "chain nx isnil (Suc k) h = (if isnil h then [] else h # chain nx isnil k (nx h))"

lemma linked_chain: "linked nx isnil h xs \<Longrightarrow> length xs \<le> k \<Longrightarrow> chain nx isnil k h = xs"
proof (induction xs arbitrary: h k)
  case Nil
  then show ?case by (cases k) auto
next
  case (Cons x xs)
  then show ?case by (cases k) auto
qed

lemma linked_bounded:
  assumes "linked nx isnil h xs" and "distinct xs" and "set xs \<subseteq> {..<n}"
  shows "chain nx isnil n h = xs"
proof (rule linked_chain [OF assms(1)])
  have "card (set xs) \<le> card {..<n}" using assms(3) by (intro card_mono) auto
  with assms(2) show "length xs \<le> n" by (simp add: distinct_card)
qed

lemma linked_pop:
  assumes "linked nx isnil h xs" and "\<not> isnil h"
  obtains ys where "xs = h # ys" and "linked nx isnil (nx h) ys"
  using assms by (cases xs) auto

end
