(* ===== verification/Fwd_Ring.thy ===== *)
theory Fwd_Ring
  imports Interfaces
begin

text \<open>
  The forward descriptor ring of \<^verbatim>\<open>doca/ring.h\<close>: many host threads claim tickets with an atomic
  add and withdraw them when the ring is full, fill the descriptor of their ticket and publish it
  by writing \<open>ticket + 1\<close>; the DPA consumes the descriptor of its next ticket once its sequence
  matches. Each atomic access is one step and the steps of all threads interleave in any order.
  Tickets are natural numbers: the 64-bit counters do not wrap within the life of a ring. The one
  unsigned comparison whose meaning depends on the width, \<open>ticket - head < size\<close>, is written
  with its wrap-around: it is false when \<open>head\<close> exceeds \<open>ticket\<close>.
\<close>

section \<open>State and atomic steps\<close>

text \<open>Where a producer stands in \<open>dpumesh_enqueue\<close>.\<close>

datatype producer_pc =
    Idle
  | Claiming nat   \<comment> \<open>holds a ticket, about to load the consumer's head\<close>
  | Refused nat    \<comment> \<open>the ring was full at that load, about to withdraw the ticket\<close>
  | Owned nat      \<comment> \<open>the claim succeeded\<close>
  | Filled nat     \<comment> \<open>the descriptor is written, not yet published\<close>

text \<open>
  \<open>posted\<close> and \<open>consumed\<close> are the history: what was written under a ticket and what the DPA
  took, in order.
\<close>

record 'd dma_ring =
  ring_size :: nat
  enq_pos :: nat
  ctrl_head :: nat
  desc_body :: "nat \<Rightarrow> 'd"
  publish_seq :: "nat \<Rightarrow> nat"
  producers :: "nat \<Rightarrow> producer_pc"
  dpa_head :: nat
  posted :: "nat \<Rightarrow> 'd"
  consumed :: "'d list"

definition setup_dma_ring :: "nat \<Rightarrow> 'd \<Rightarrow> 'd dma_ring" where
  "setup_dma_ring n zero =
     \<lparr>ring_size = n, enq_pos = 0, ctrl_head = 0, desc_body = (\<lambda>_. zero), publish_seq = (\<lambda>_. 0),
      producers = (\<lambda>_. Idle), dpa_head = 0, posted = (\<lambda>_. zero), consumed = []\<rparr>"

text \<open>\<open>dma_ring_try_claim\<close>: the atomic add, the load of the head, the compare-and-exchange.\<close>

definition claim_fetch_add :: "nat \<Rightarrow> 'd dma_ring \<Rightarrow> 'd dma_ring option" where
  "claim_fetch_add p s =
     (if producers s p = Idle
      then Some (s\<lparr>enq_pos := enq_pos s + 1,
                   producers := (producers s)(p := Claiming (enq_pos s))\<rparr>)
      else None)"

definition ticket_in_window :: "nat \<Rightarrow> nat \<Rightarrow> nat \<Rightarrow> bool" where
  "ticket_in_window ticket head n \<longleftrightarrow> head \<le> ticket \<and> ticket - head < n"

definition claim_load_head :: "nat \<Rightarrow> 'd dma_ring \<Rightarrow> 'd dma_ring option" where
  "claim_load_head p s =
     (case producers s p of
        Claiming t \<Rightarrow>
          Some (s\<lparr>producers := (producers s)
            (p := if ticket_in_window t (ctrl_head s) (ring_size s) then Owned t else Refused t)\<rparr>)
      | _ \<Rightarrow> None)"

text \<open>The exchange is weak: it may fail although the value matches.\<close>

definition claim_withdraw :: "nat \<Rightarrow> bool \<Rightarrow> 'd dma_ring \<Rightarrow> 'd dma_ring option" where
  "claim_withdraw p spurious s =
     (case producers s p of
        Refused t \<Rightarrow>
          Some (if enq_pos s = t + 1 \<and> \<not> spurious
                then s\<lparr>enq_pos := t, producers := (producers s)(p := Idle)\<rparr>
                else s\<lparr>producers := (producers s)(p := Claiming t)\<rparr>)
      | _ \<Rightarrow> None)"

text \<open>The stores of \<open>dpumesh_enqueue\<close> into the claimed descriptor, then its publication.\<close>

definition fill_desc :: "nat \<Rightarrow> 'd \<Rightarrow> 'd dma_ring \<Rightarrow> 'd dma_ring option" where
  "fill_desc p d s =
     (case producers s p of
        Owned t \<Rightarrow>
          Some (s\<lparr>desc_body := (desc_body s)(t mod ring_size s := d),
                  posted := (posted s)(t := d),
                  producers := (producers s)(p := Filled t)\<rparr>)
      | _ \<Rightarrow> None)"

definition dma_ring_publish_desc :: "nat \<Rightarrow> 'd dma_ring \<Rightarrow> 'd dma_ring option" where
  "dma_ring_publish_desc p s =
     (case producers s p of
        Filled t \<Rightarrow>
          Some (s\<lparr>publish_seq := (publish_seq s)(t mod ring_size s := t + 1),
                  producers := (producers s)(p := Idle)\<rparr>)
      | _ \<Rightarrow> None)"

text \<open>The DPA takes the next descriptor, and reports its head to the host from time to time.\<close>

definition consume_desc :: "'d dma_ring \<Rightarrow> 'd dma_ring option" where
  "consume_desc s =
     (let i = dpa_head s mod ring_size s
      in if publish_seq s i \<noteq> dpa_head s + 1 then None
         else Some (s\<lparr>dpa_head := dpa_head s + 1, consumed := consumed s @ [desc_body s i]\<rparr>))"

definition report_head :: "'d dma_ring \<Rightarrow> 'd dma_ring option" where
  "report_head s = Some (s\<lparr>ctrl_head := dpa_head s\<rparr>)"

datatype 'd ring_action =
    Fetch_Add nat | Load_Head nat | Withdraw nat bool | Fill nat 'd | Publish nat
  | Consume | Report_Head

fun ring_step :: "'d ring_action \<Rightarrow> 'd dma_ring \<Rightarrow> 'd dma_ring option" where
  "ring_step (Fetch_Add p) s = claim_fetch_add p s"
| "ring_step (Load_Head p) s = claim_load_head p s"
| "ring_step (Withdraw p sp) s = claim_withdraw p sp s"
| "ring_step (Fill p d) s = fill_desc p d s"
| "ring_step (Publish p) s = dma_ring_publish_desc p s"
| "ring_step Consume s = consume_desc s"
| "ring_step Report_Head s = report_head s"

fun ring_run :: "'d ring_action list \<Rightarrow> 'd dma_ring \<Rightarrow> 'd dma_ring option" where
  "ring_run [] s = Some s"
| "ring_run (a # as) s = (case ring_step a s of None \<Rightarrow> None | Some t \<Rightarrow> ring_run as t)"

section \<open>The invariant\<close>

fun ticket_of :: "producer_pc \<Rightarrow> nat option" where
  "ticket_of Idle = None"
| "ticket_of (Claiming t) = Some t"
| "ticket_of (Refused t) = Some t"
| "ticket_of (Owned t) = Some t"
| "ticket_of (Filled t) = Some t"

fun owns :: "producer_pc \<Rightarrow> nat \<Rightarrow> bool" where
  "owns (Owned t) u = (t = u)"
| "owns (Filled t) u = (t = u)"
| "owns _ u = False"

lemma owns_ticket: "owns c t \<Longrightarrow> ticket_of c = Some t"
  by (cases c) auto

definition holds :: "'d dma_ring \<Rightarrow> nat \<Rightarrow> nat \<Rightarrow> bool" where
  "holds s p t \<longleftrightarrow> ticket_of (producers s p) = Some t"

definition published :: "'d dma_ring \<Rightarrow> nat \<Rightarrow> bool" where
  "published s t \<longleftrightarrow> publish_seq s (t mod ring_size s) = t + 1"

definition cursors_ok :: "'d dma_ring \<Rightarrow> bool" where
  "cursors_ok s \<longleftrightarrow> 0 < ring_size s \<and> ctrl_head s \<le> dpa_head s \<and> dpa_head s \<le> enq_pos s"

definition tickets_ok :: "'d dma_ring \<Rightarrow> bool" where
  "tickets_ok s \<longleftrightarrow>
     (\<forall>p t. holds s p t \<longrightarrow> dpa_head s \<le> t \<and> t < enq_pos s \<and> \<not> published s t) \<and>
     (\<forall>p q t. holds s p t \<longrightarrow> holds s q t \<longrightarrow> p = q) \<and>
     (\<forall>t. dpa_head s \<le> t \<longrightarrow> t < enq_pos s \<longrightarrow> published s t \<or> (\<exists>p. holds s p t))"

definition window_ok :: "'d dma_ring \<Rightarrow> bool" where
  "window_ok s \<longleftrightarrow>
     (\<forall>p t. owns (producers s p) t \<longrightarrow> t < ctrl_head s + ring_size s) \<and>
     (\<forall>t. published s t \<longrightarrow> t < enq_pos s \<and> t < ctrl_head s + ring_size s)"

definition bodies_ok :: "'d dma_ring \<Rightarrow> bool" where
  "bodies_ok s \<longleftrightarrow>
     (\<forall>p t. producers s p = Filled t \<longrightarrow> desc_body s (t mod ring_size s) = posted s t) \<and>
     (\<forall>t. dpa_head s \<le> t \<longrightarrow> published s t \<longrightarrow> desc_body s (t mod ring_size s) = posted s t) \<and>
     consumed s = map (posted s) [0..<dpa_head s]"

definition ring_inv :: "'d dma_ring \<Rightarrow> bool" where
  "ring_inv s \<longleftrightarrow> cursors_ok s \<and> tickets_ok s \<and> window_ok s \<and> bodies_ok s"

lemmas ring_inv_defs = ring_inv_def cursors_ok_def tickets_ok_def window_ok_def bodies_ok_def

lemma same_slot_same_ticket:
  fixes a b n h :: nat
  assumes "a mod n = b mod n" and "h \<le> a" "a < h + n" and "h \<le> b" "b < h + n"
  shows "a = b"
proof (rule ccontr)
  assume "a \<noteq> b"
  have *: False if "x mod n = y mod n" "x < y" "y < x + n" for x y :: nat
  proof -
    from that(1) have "n dvd y - x" by (metis mod_eq_dvd_iff_nat less_imp_le that(2))
    with that(2,3) show False by (auto dest: dvd_imp_le)
  qed
  from \<open>a \<noteq> b\<close> consider "a < b" | "b < a" by linarith
  then show False
    using * [of a b] * [of b a] assms by cases auto
qed

lemma tickets_okI:
  assumes "\<And>p t. holds s p t \<Longrightarrow> dpa_head s \<le> t \<and> t < enq_pos s \<and> \<not> published s t"
    and "\<And>p q t. holds s p t \<Longrightarrow> holds s q t \<Longrightarrow> p = q"
    and "\<And>t. dpa_head s \<le> t \<Longrightarrow> t < enq_pos s \<Longrightarrow> \<not> published s t \<Longrightarrow> \<exists>p. holds s p t"
  shows "tickets_ok s"
  unfolding tickets_ok_def using assms by blast

lemma held_ticket:
  assumes "ring_inv s" and "holds s p t"
  shows "dpa_head s \<le> t" "t < enq_pos s" "\<not> published s t"
  using assms by (auto simp: ring_inv_def tickets_ok_def)

lemma holder_unique: "ring_inv s \<Longrightarrow> holds s p t \<Longrightarrow> holds s q t \<Longrightarrow> p = q"
  unfolding ring_inv_def tickets_ok_def by blast

lemma unpublished_held:
  "ring_inv s \<Longrightarrow> dpa_head s \<le> t \<Longrightarrow> t < enq_pos s \<Longrightarrow> \<not> published s t \<Longrightarrow> \<exists>p. holds s p t"
  unfolding ring_inv_def tickets_ok_def by blast

lemma setup_inv: "0 < n \<Longrightarrow> ring_inv (setup_dma_ring n z)"
  by (auto simp: ring_inv_defs setup_dma_ring_def holds_def published_def)

lemma publish_window:
  "ring_inv s \<Longrightarrow> published s t \<Longrightarrow> dpa_head s \<le> t \<Longrightarrow>
     ctrl_head s \<le> t \<and> t < ctrl_head s + ring_size s"
  by (auto simp: ring_inv_defs)

lemma own_window:
  assumes "ring_inv s" and "owns (producers s p) t"
  shows "dpa_head s \<le> t" "ctrl_head s \<le> t" "t < ctrl_head s + ring_size s" "t < enq_pos s"
    "\<not> published s t"
  using assms owns_ticket [OF assms(2)] by (auto simp: ring_inv_defs holds_def intro: le_trans)

section \<open>Every step keeps the invariant\<close>

lemma fetch_add_inv:
  assumes "ring_inv s" and "claim_fetch_add p s = Some s'"
  shows "ring_inv s'"
proof -
  from assms(2) have p: "producers s p = Idle" and
    s': "s' = s\<lparr>enq_pos := enq_pos s + 1, producers := (producers s)(p := Claiming (enq_pos s))\<rparr>"
    by (auto simp: claim_fetch_add_def split: if_splits)
  have pub: "published s' = published s" by (simp add: fun_eq_iff published_def s')
  have hold: "holds s' q t \<longleftrightarrow> (if q = p then t = enq_pos s else holds s q t)" for q t
    by (auto simp: holds_def s')
  have own: "owns (producers s' q) t \<longleftrightarrow> q \<noteq> p \<and> owns (producers s q) t" for q t
    by (auto simp: s' p)
  have "\<not> holds s p t" for t by (simp add: holds_def p)
  note idle = this
  have new: "\<not> published s (enq_pos s)" "dpa_head s \<le> enq_pos s"
    using assms(1) by (auto simp: ring_inv_defs)
  have e: "enq_pos s' = Suc (enq_pos s)" and d: "dpa_head s' = dpa_head s" by (simp_all add: s')
  have "tickets_ok s'"
  proof (rule tickets_okI, unfold pub hold e d)
    fix t
    assume "dpa_head s \<le> t" "t < Suc (enq_pos s)" "\<not> published s t"
    with unpublished_held [OF assms(1), of t] have "t = enq_pos s \<or> (\<exists>q. holds s q t)"
      by (auto simp: less_Suc_eq)
    then show "\<exists>q. if q = p then t = enq_pos s else holds s q t"
    proof (elim disjE exE)
      fix q
      assume "holds s q t"
      with idle have "q \<noteq> p" by auto
      with \<open>holds s q t\<close> show ?thesis by (intro exI [of _ q]) simp
    qed (intro exI [of _ p], simp)
  next
    fix q t
    assume "if q = p then t = enq_pos s else holds s q t"
    with new held_ticket [OF assms(1), of q t]
    show "dpa_head s \<le> t \<and> t < Suc (enq_pos s) \<and> \<not> published s t"
      by (auto split: if_splits)
  next
    fix q r t
    assume "if q = p then t = enq_pos s else holds s q t"
      and "if r = p then t = enq_pos s else holds s r t"
    with holder_unique [OF assms(1), of q t r] held_ticket [OF assms(1), of q t]
      held_ticket [OF assms(1), of r t] show "q = r" by (auto split: if_splits)
  qed
  with assms(1) show ?thesis
    unfolding ring_inv_def cursors_ok_def window_ok_def bodies_ok_def pub own
    by (auto simp: s' less_Suc_eq split: if_splits)
qed

lemma pc_only_inv:
  assumes "ring_inv s" and s': "s' = s\<lparr>producers := (producers s)(p := c)\<rparr>"
    and "ticket_of c = ticket_of (producers s p)" and "\<forall>t. c \<noteq> Filled t"
    and "\<And>t. owns c t \<Longrightarrow> t < ctrl_head s + ring_size s"
  shows "ring_inv s'"
proof -
  have pub: "published s' = published s" by (simp add: fun_eq_iff published_def s')
  have hold: "holds s' = holds s" by (auto simp: fun_eq_iff holds_def s' assms(3))
  show ?thesis
    using assms(1,4,5) unfolding ring_inv_defs pub hold by (auto simp: s' split: if_splits)
qed

lemma load_head_inv:
  assumes "ring_inv s" and "claim_load_head p s = Some s'"
  shows "ring_inv s'"
proof -
  from assms(2) obtain t where t: "producers s p = Claiming t"
    by (auto simp: claim_load_head_def split: producer_pc.splits)
  let ?c = "if ticket_in_window t (ctrl_head s) (ring_size s) then Owned t else Refused t"
  show ?thesis
  proof (rule pc_only_inv [OF assms(1), of _ p ?c])
    show "s' = s\<lparr>producers := (producers s)(p := ?c)\<rparr>"
      using assms(2) by (simp add: claim_load_head_def t)
  qed (auto simp: t ticket_in_window_def split: if_splits)
qed

lemma withdraw_inv:
  assumes "ring_inv s" and "claim_withdraw p sp s = Some s'"
  shows "ring_inv s'"
proof -
  from assms(2) obtain t where t: "producers s p = Refused t"
    by (auto simp: claim_withdraw_def split: producer_pc.splits)
  show ?thesis
  proof (cases "enq_pos s = t + 1 \<and> \<not> sp")
    case False
    then have "s' = s\<lparr>producers := (producers s)(p := Claiming t)\<rparr>"
      using assms(2) by (auto simp: claim_withdraw_def t)
    then show ?thesis by (rule pc_only_inv [OF assms(1)]) (auto simp: t)
  next
    case True
    then have s': "s' = s\<lparr>enq_pos := t, producers := (producers s)(p := Idle)\<rparr>"
      using assms(2) by (auto simp: claim_withdraw_def t)
    have pub: "published s' = published s" by (simp add: fun_eq_iff published_def s')
    have hold: "holds s' q u \<longleftrightarrow> q \<noteq> p \<and> holds s q u" for q u by (auto simp: holds_def s')
    have own: "owns (producers s' q) u \<longleftrightarrow> q \<noteq> p \<and> owns (producers s q) u" for q u
      by (auto simp: s' t)
    have tp: "holds s p u \<longleftrightarrow> u = t" for u by (auto simp: holds_def t)
    have ht: "dpa_head s \<le> t" "\<not> published s t" "enq_pos s = Suc t"
      using held_ticket [OF assms(1), of p t] tp True by auto
    have oth: "q \<noteq> p \<Longrightarrow> holds s q u \<Longrightarrow> u \<noteq> t" for q u
      using holder_unique [OF assms(1), of p t q] tp by auto
    have e: "enq_pos s' = t" and d: "dpa_head s' = dpa_head s" by (simp_all add: s')
    have "tickets_ok s'"
    proof (rule tickets_okI, unfold pub hold e d)
      fix q u
      assume h: "q \<noteq> p \<and> holds s q u"
      with held_ticket [OF assms(1), of q u] oth [of q u] ht(3)
      show "dpa_head s \<le> u \<and> u < t \<and> \<not> published s u" by auto
    next
      fix u
      assume "dpa_head s \<le> u" "u < t" "\<not> published s u"
      with unpublished_held [OF assms(1), of u] ht(3) obtain q where "holds s q u" by auto
      with tp \<open>u < t\<close> show "\<exists>q. q \<noteq> p \<and> holds s q u" by (cases "q = p") auto
    next
      fix q r u
      assume "q \<noteq> p \<and> holds s q u" and "r \<noteq> p \<and> holds s r u"
      with holder_unique [OF assms(1), of q u r] show "q = r" by simp
    qed
    moreover have "window_ok s'"
      using assms(1) ht unfolding ring_inv_def window_ok_def pub own by (auto simp: s' less_Suc_eq)
    ultimately show ?thesis
      using assms(1) ht unfolding ring_inv_def cursors_ok_def bodies_ok_def pub
      by (auto simp: s' split: if_splits)
  qed
qed

lemma fill_inv:
  assumes "ring_inv s" and "fill_desc p d s = Some s'"
  shows "ring_inv s'"
proof -
  from assms(2) obtain t where t: "producers s p = Owned t"
    by (auto simp: fill_desc_def split: producer_pc.splits)
  let ?i = "t mod ring_size s"
  from assms(2) have s': "s' = s\<lparr>desc_body := (desc_body s)(?i := d), posted := (posted s)(t := d),
      producers := (producers s)(p := Filled t)\<rparr>"
    by (simp add: fill_desc_def t)
  have own: "owns (producers s p) t" by (simp add: t)
  note w = own_window [OF assms(1) own]
  have pub: "published s' = published s" by (simp add: fun_eq_iff published_def s')
  have hold: "holds s' = holds s" by (auto simp: fun_eq_iff holds_def s' t)
  have own': "owns (producers s' q) = owns (producers s q)" for q by (auto simp: s' t fun_eq_iff)
  have filled: "u mod ring_size s \<noteq> ?i" "u \<noteq> t"
    if "q \<noteq> p" "producers s q = Filled u" for q u
  proof -
    have o: "owns (producers s q) u" by (simp add: that)
    show ne: "u \<noteq> t"
      using holder_unique [OF assms(1), of p t q] owns_ticket [OF o] owns_ticket [OF own] that(1)
      by (auto simp: holds_def)
    with same_slot_same_ticket own_window [OF assms(1) o] w show "u mod ring_size s \<noteq> ?i" by blast
  qed
  have published: "u mod ring_size s \<noteq> ?i" "u \<noteq> t" if "published s u" "dpa_head s \<le> u" for u
  proof -
    show ne: "u \<noteq> t" using that w by auto
    with same_slot_same_ticket publish_window [OF assms(1) that] w show "u mod ring_size s \<noteq> ?i"
      by blast
  qed
  have "bodies_ok s'"
    using assms(1) filled published w unfolding ring_inv_def bodies_ok_def pub
    by (auto simp: s' split: if_splits)
  with assms(1) show ?thesis
    unfolding ring_inv_def cursors_ok_def tickets_ok_def window_ok_def pub hold own' by (simp add: s')
qed

lemma publish_inv:
  assumes "ring_inv s" and "dma_ring_publish_desc p s = Some s'"
  shows "ring_inv s'"
proof -
  from assms(2) obtain t where t: "producers s p = Filled t"
    by (auto simp: dma_ring_publish_desc_def split: producer_pc.splits)
  let ?i = "t mod ring_size s"
  from assms(2) have s': "s' = s\<lparr>publish_seq := (publish_seq s)(?i := t + 1),
      producers := (producers s)(p := Idle)\<rparr>"
    by (simp add: dma_ring_publish_desc_def t)
  have o: "owns (producers s p) t" by (simp add: t)
  note w = own_window [OF assms(1) o]
  have tp: "holds s p u \<longleftrightarrow> u = t" for u by (auto simp: holds_def t)
  have hold: "holds s' q u \<longleftrightarrow> q \<noteq> p \<and> holds s q u" for q u by (auto simp: holds_def s')
  have own: "owns (producers s' q) u \<longleftrightarrow> q \<noteq> p \<and> owns (producers s q) u" for q u
    by (auto simp: s')
  have pub: "published s' u \<longleftrightarrow> u = t \<or> published s u \<and> u mod ring_size s \<noteq> ?i" for u
    by (auto simp: published_def s')
  have keep: "u mod ring_size s \<noteq> ?i" if "published s u" "dpa_head s \<le> u" for u
    using same_slot_same_ticket [of u "ring_size s" t] publish_window [OF assms(1) that] w that by auto
  have e: "enq_pos s' = enq_pos s" and d: "dpa_head s' = dpa_head s" by (simp_all add: s')
  have "tickets_ok s'"
  proof (rule tickets_okI, unfold pub hold e d)
    fix q u
    assume h: "q \<noteq> p \<and> holds s q u"
    with holder_unique [OF assms(1), of p t q] tp have "u \<noteq> t" by auto
    with h held_ticket [OF assms(1), of q u]
    show "dpa_head s \<le> u \<and> u < enq_pos s \<and> \<not> (u = t \<or> published s u \<and> u mod ring_size s \<noteq> ?i)"
      by auto
  next
    fix u
    assume u: "dpa_head s \<le> u" "u < enq_pos s"
      and n: "\<not> (u = t \<or> published s u \<and> u mod ring_size s \<noteq> ?i)"
    with keep have "\<not> published s u" by auto
    with unpublished_held [OF assms(1)] u obtain q where "holds s q u" by blast
    with tp n show "\<exists>q. q \<noteq> p \<and> holds s q u" by (cases "q = p") auto
  next
    fix q r u
    assume "q \<noteq> p \<and> holds s q u" and "r \<noteq> p \<and> holds s r u"
    with holder_unique [OF assms(1), of q u r] show "q = r" by simp
  qed
  moreover have "window_ok s'"
    using assms(1) w unfolding ring_inv_def window_ok_def pub own by (auto simp: s')
  moreover have "bodies_ok s'"
    using assms(1) t unfolding ring_inv_def bodies_ok_def pub by (auto simp: s' split: if_splits)
  ultimately show ?thesis
    using assms(1) unfolding ring_inv_def cursors_ok_def by (simp add: s')
qed

lemma consume_inv:
  assumes "ring_inv s" and "consume_desc s = Some s'"
  shows "ring_inv s'"
proof -
  let ?h = "dpa_head s"
  from assms(2) have p: "published s ?h" and
    s': "s' = s\<lparr>dpa_head := ?h + 1, consumed := consumed s @ [desc_body s (?h mod ring_size s)]\<rparr>"
    by (auto simp: consume_desc_def published_def Let_def split: if_splits)
  have pub: "published s' = published s" by (simp add: fun_eq_iff published_def s')
  have hold: "holds s' = holds s" by (simp add: fun_eq_iff holds_def s')
  have b: "desc_body s (?h mod ring_size s) = posted s ?h" and lt: "?h < enq_pos s"
    using assms(1) p by (auto simp: ring_inv_defs)
  have e: "enq_pos s' = enq_pos s" and d: "dpa_head s' = Suc ?h" by (simp_all add: s')
  have "tickets_ok s'"
  proof (rule tickets_okI, unfold pub hold e d)
    fix q u
    assume "holds s q u"
    from held_ticket [OF assms(1) this] p have "u \<noteq> ?h" by auto
    with held_ticket [OF assms(1) \<open>holds s q u\<close>]
    show "Suc ?h \<le> u \<and> u < enq_pos s \<and> \<not> published s u" by auto
  qed (use unpublished_held [OF assms(1)] holder_unique [OF assms(1)] in auto)
  moreover have "window_ok s'" "cursors_ok s'"
    using assms(1) lt unfolding ring_inv_def window_ok_def cursors_ok_def pub by (auto simp: s')
  moreover have "bodies_ok s'"
    using assms(1) b unfolding ring_inv_def bodies_ok_def pub by (auto simp: s')
  ultimately show ?thesis by (simp add: ring_inv_def)
qed

lemma report_inv:
  assumes "ring_inv s" and "report_head s = Some s'"
  shows "ring_inv s'"
proof -
  from assms(2) have s': "s' = s\<lparr>ctrl_head := dpa_head s\<rparr>" by (simp add: report_head_def)
  have pub: "published s' = published s" by (simp add: fun_eq_iff published_def s')
  have hold: "holds s' = holds s" by (simp add: fun_eq_iff holds_def s')
  have "window_ok s'" "cursors_ok s'"
    using assms(1) unfolding ring_inv_def window_ok_def cursors_ok_def pub
    by (fastforce simp: s')+
  with assms(1) show ?thesis
    unfolding ring_inv_def tickets_ok_def bodies_ok_def pub hold by (simp add: s')
qed

lemma ring_step_inv: "ring_inv s \<Longrightarrow> ring_step a s = Some s' \<Longrightarrow> ring_inv s'"
  by (cases a) (auto intro: fetch_add_inv load_head_inv withdraw_inv fill_inv publish_inv
      consume_inv report_inv)

section \<open>Reachable states\<close>

interpretation fwd: invariant_system
  "\<lambda>s. \<exists>n z. 0 < n \<and> s = setup_dma_ring n z" "\<lambda>s t. \<exists>a. ring_step a s = Some t" ring_inv
  by unfold_locales (auto intro: setup_inv ring_step_inv)

lemma ring_run_rtranclp:
  "ring_run as s = Some t \<Longrightarrow> (\<lambda>s t. \<exists>a. ring_step a s = Some t)\<^sup>*\<^sup>* s t"
proof (induction as arbitrary: s)
  case (Cons a as)
  then obtain u where u: "ring_step a s = Some u" and r: "ring_run as u = Some t"
    by (auto split: option.splits)
  show ?case
  proof (rule converse_rtranclp_into_rtranclp)
    show "\<exists>a. ring_step a s = Some u" using u by blast
  qed (rule Cons.IH [OF r])
qed simp

lemma ring_run_inv: "0 < n \<Longrightarrow> ring_run as (setup_dma_ring n z) = Some s \<Longrightarrow> ring_inv s"
  by (rule fwd.inv_reachable [OF _ ring_run_rtranclp]) auto

text \<open>
  C3. Whatever the interleaving of the producers and the DPA, the DPA has consumed exactly the
  descriptors posted under tickets 0, 1, ... up to its head, each once and in ticket order: no
  descriptor is lost, duplicated, reordered or overwritten before it is read.
\<close>

theorem fwd_ring_consumes_in_order:
  assumes "0 < n" and "ring_run as (setup_dma_ring n z) = Some s"
  shows "consumed s = map (posted s) [0..<dpa_head s] \<and> dpa_head s \<le> enq_pos s"
  using ring_run_inv [OF assms] by (auto simp: ring_inv_defs)

definition demo_run :: "nat ring_action list" where
  "demo_run = [Fetch_Add 0, Fetch_Add 1, Fetch_Add 2, Load_Head 2, Load_Head 0, Load_Head 1,
     Withdraw 2 False, Fill 1 11, Publish 1, Fill 0 10, Publish 0, Consume, Consume, Report_Head]"

theorem fwd_ring_consumes_in_order_witness:
  "\<exists>s. ring_run demo_run (setup_dma_ring 2 0) = Some s \<and> consumed s = [10, 11]
     \<and> consumed s = map (posted s) [0..<dpa_head s]"
proof -
  obtain s where s: "ring_run demo_run (setup_dma_ring 2 0) = Some s" "consumed s = [10, 11]"
    by (simp add: demo_run_def setup_dma_ring_def claim_fetch_add_def claim_load_head_def
        claim_withdraw_def ticket_in_window_def fill_desc_def dma_ring_publish_desc_def
        consume_desc_def report_head_def Let_def)
  with fwd_ring_consumes_in_order [OF _ s(1)] show ?thesis by auto
qed

text \<open>
  C13. The claim protocol gives exclusive slots: two producers that own tickets never share a
  descriptor slot, and the slot an owner writes holds no published descriptor that the DPA has
  still to consume.
\<close>

theorem fwd_ring_owner_exclusive:
  assumes "0 < n" and "ring_run as (setup_dma_ring n z) = Some s"
    and "owns (producers s p) t"
  shows "(\<forall>q u. owns (producers s q) u \<and> u mod ring_size s = t mod ring_size s \<longrightarrow> q = p \<and> u = t)
    \<and> (\<forall>u. dpa_head s \<le> u \<and> u mod ring_size s = t mod ring_size s
          \<longrightarrow> publish_seq s (u mod ring_size s) \<noteq> u + 1)"
proof (intro conjI allI impI)
  note I = ring_run_inv [OF assms(1,2)]
  note w = own_window [OF I assms(3)]
  fix q u
  assume h: "owns (producers s q) u \<and> u mod ring_size s = t mod ring_size s"
  with same_slot_same_ticket [of u "ring_size s" t] own_window [OF I, of q u] w show ut: "u = t" by auto
  with h holder_unique [OF I, of q t p] owns_ticket assms(3) show "q = p"
    by (auto simp: holds_def)
next
  note I = ring_run_inv [OF assms(1,2)]
  note w = own_window [OF I assms(3)]
  fix u
  assume h: "dpa_head s \<le> u \<and> u mod ring_size s = t mod ring_size s"
  show "publish_seq s (u mod ring_size s) \<noteq> u + 1"
  proof
    assume "publish_seq s (u mod ring_size s) = u + 1"
    then have p: "published s u" by (simp add: published_def)
    with same_slot_same_ticket [of u "ring_size s" t] publish_window [OF I p] w h have "u = t" by auto
    with p w show False by simp
  qed
qed

theorem fwd_ring_owner_exclusive_witness:
  "\<exists>s. ring_run [Fetch_Add 0, Fetch_Add 1, Load_Head 1, Load_Head 0] (setup_dma_ring 2 (0 :: nat)) = Some s
     \<and> owns (producers s 1) 1 \<and> owns (producers s 0) 0
     \<and> (\<forall>q u. owns (producers s q) u \<and> u mod ring_size s = 1 mod ring_size s \<longrightarrow> q = 1 \<and> u = 1)"
proof -
  obtain s where s: "ring_run [Fetch_Add 0, Fetch_Add 1, Load_Head 1, Load_Head 0]
      (setup_dma_ring 2 (0 :: nat)) = Some s" "owns (producers s 1) 1" "owns (producers s 0) 0"
    by (simp add: setup_dma_ring_def claim_fetch_add_def claim_load_head_def ticket_in_window_def)
  have "(0 :: nat) < 2" by simp
  from conjunct1 [OF fwd_ring_owner_exclusive [OF this s(1,2)]] s show ?thesis
    by (intro exI [of _ s] conjI)
qed

text \<open>
  C14. Publication has no gaps: once no producer is between claim and publication, every ticket
  below the enqueue position is published, so the DPA can take every descriptor that was claimed.
  A withdrawn ticket leaves no hole that would stop it.
\<close>

theorem fwd_ring_no_gap:
  assumes "0 < n" and "ring_run as (setup_dma_ring n z) = Some s"
    and "\<forall>p. producers s p = Idle" and "dpa_head s < enq_pos s"
  shows "\<exists>s'. consume_desc s = Some s' \<and> consumed s' = consumed s @ [posted s (dpa_head s)]"
proof -
  note I = ring_run_inv [OF assms(1,2)]
  have "\<not> holds s p (dpa_head s)" for p using assms(3) by (simp add: holds_def)
  with unpublished_held [OF I, of "dpa_head s"] assms(4) have p: "published s (dpa_head s)" by auto
  with I have "desc_body s (dpa_head s mod ring_size s) = posted s (dpa_head s)"
    by (auto simp: ring_inv_defs)
  with p show ?thesis by (simp add: consume_desc_def published_def Let_def)
qed

theorem fwd_ring_no_gap_witness:
  "\<exists>s. ring_run (take 11 demo_run) (setup_dma_ring 2 0) = Some s
     \<and> (\<exists>s'. consume_desc s = Some s' \<and> consumed s' = consumed s @ [10])"
proof -
  obtain s where s: "ring_run (take 11 demo_run) (setup_dma_ring 2 0) = Some s"
    "\<forall>p. producers s p = Idle" "dpa_head s = 0" "enq_pos s = 2" "posted s 0 = 10"
    by (simp add: demo_run_def setup_dma_ring_def claim_fetch_add_def claim_load_head_def
        claim_withdraw_def ticket_in_window_def fill_desc_def dma_ring_publish_desc_def Let_def)
  with fwd_ring_no_gap [OF _ s(1,2)] show ?thesis by auto
qed

end
