(* ===== verification/Dpa_Common.thy ===== *)
theory Dpa_Common
  imports Prelude
begin

text \<open>
  \<^verbatim>\<open>doca/dpa_common.h\<close>: the arithmetic that the host and the DPA share. A forward DMA copy starts
  at a 128-byte boundary at or below the payload's offset and covers whole 128-byte lines, so a
  payload that starts off a boundary pays for its prefix. The lemmas bound the copy by the 8 KiB
  hardware limit and show that it covers the payload.
\<close>

unbundle bit_operations_syntax

section \<open>Aligned copies\<close>

definition DPUMESH_SLOT_SIZE :: u32 where
  "DPUMESH_SLOT_SIZE = 8192"

definition DPA_DMA_COPY_ALIGN :: u32 where
  "DPA_DMA_COPY_ALIGN = 128"

definition DPA_DMA_COPY_MAX :: u32 where
  "DPA_DMA_COPY_MAX = DPUMESH_SLOT_SIZE"

declare DPUMESH_SLOT_SIZE_def [dmesh_const] DPA_DMA_COPY_ALIGN_def [dmesh_const]
  DPA_DMA_COPY_MAX_def [dmesh_const]

definition dpa_dma_copy_prefix :: "u64 \<Rightarrow> u32" where
  "dpa_dma_copy_prefix offset = ucast (offset AND ucast (DPA_DMA_COPY_ALIGN - 1))"

definition dpa_dma_payload_cap :: "u64 \<Rightarrow> u32 \<Rightarrow> u32" where
  "dpa_dma_payload_cap offset logical_cap =
     (let cap = DPA_DMA_COPY_MAX - dpa_dma_copy_prefix offset
      in if logical_cap < cap then logical_cap else cap)"

definition dpa_dma_aligned_copy_len :: "u64 \<Rightarrow> u32 \<Rightarrow> u32" where
  "dpa_dma_aligned_copy_len offset payload_len =
     (let covered = dpa_dma_copy_prefix offset + payload_len
      in (covered + DPA_DMA_COPY_ALIGN - 1) AND NOT (DPA_DMA_COPY_ALIGN - 1))"

section \<open>Producer reports and the reschedule quantum\<close>

definition DPA_PRODUCER_REPORT_BATCH :: u32 where
  "DPA_PRODUCER_REPORT_BATCH = 512"

definition DPA_RESCHEDULE_DMA_QUANTUM :: u32 where
  "DPA_RESCHEDULE_DMA_QUANTUM = 65536"

declare DPA_PRODUCER_REPORT_BATCH_def [dmesh_const] DPA_RESCHEDULE_DMA_QUANTUM_def [dmesh_const]

text \<open>Each returns its answer with the counter it updates through a pointer.\<close>

definition dpa_producer_report_due :: "u32 \<Rightarrow> bool \<times> u32" where
  "dpa_producer_report_due deferred =
     (let d = deferred + 1
      in if d < DPA_PRODUCER_REPORT_BATCH then (False, d) else (True, 0))"

definition dpa_reschedule_due :: "u32 \<Rightarrow> u32 \<Rightarrow> u32 \<Rightarrow> bool \<times> u32" where
  "dpa_reschedule_due completed delta producer_deferred =
     (let c = completed + delta
      in if c < DPA_RESCHEDULE_DMA_QUANTUM \<or> producer_deferred \<noteq> 0 then (False, c) else (True, 0))"

definition dpa_reschedule_budget :: "u32 \<Rightarrow> u32 \<Rightarrow> u32" where
  "dpa_reschedule_budget completed producer_deferred =
     (if completed < DPA_RESCHEDULE_DMA_QUANTUM then DPA_RESCHEDULE_DMA_QUANTUM - completed
      else DPA_PRODUCER_REPORT_BATCH - producer_deferred)"

section \<open>Shared structures\<close>

definition MAX_DPA_RINGS :: nat where
  "MAX_DPA_RINGS = 16"

declare MAX_DPA_RINGS_def [dmesh_const]

record dpa_ring_info =
  buf_arr :: u64
  buf_arr_size :: u32
  host_mmap :: u32
  host_addr :: u64
  dpu_mmap :: u32
  dpu_addr :: u64
  pod_id :: int
  region_off :: u32
  host_buf_size :: u32

datatype dpa_msg_type =
    DPA_MSG_INVALID | DPA_MSG_RING_ADD | DPA_MSG_WAKE | DPA_MSG_FWD_DONE | DPA_MSG_RING_DEL
  | DPA_MSG_RING_ADD_ACK | DPA_MSG_RING_DEL_ACK

datatype dpa_ring_ack_status = DPA_RING_ACK_OK | DPA_RING_ACK_FULL

record dpa_ring_ack_msg =
  ack_type :: dpa_msg_type
  ack_pod_id :: int
  ack_status :: dpa_ring_ack_status
  ack_eu_index :: u8
  ack_generation :: u32

record comch_dma_comp_msg =
  comp_type :: dpa_msg_type
  comp_src_pod_id :: int
  comp_dst_pod_id :: int
  comp_dst_service :: int
  comp_src_port :: u16
  comp_dst_port :: u16
  comp_seq :: u16
  comp_length :: u16
  comp_pos :: u32
  comp_generation :: u32

record comch_add_ring_msg =
  msg_type :: dpa_msg_type
  msg_generation :: u32
  msg_ring :: dpa_ring_info

record dma_desc =
  desc_mmap :: u32
  desc_addr :: u64
  desc_size :: u32
  desc_seq :: u16
  desc_src_port :: u16
  desc_dst_port :: u16
  desc_src_service :: int
  desc_dst_service :: int
  desc_dst_pod_id :: int
  desc_src_pod_id :: int
  desc_publish_seq :: u64

record dpa_thread_arg =
  dpu_consumer_id :: u32
  eu_index :: u32
  initial_generation :: u32
  initial_ack_sent :: bool
  pending_del_n :: nat
  pending_del_pod :: "int list"
  pending_del_generation :: "u32 list"
  num_rings :: nat
  producer_deferred :: u32
  rings :: "dpa_ring_info list"
  consumer_head :: "u64 list"
  ring_generation :: "u32 list"

section \<open>Reading the arithmetic as numbers\<close>

lemma unat_and_mask: "unat ((x :: 'a::len word) AND mask n) = unat x mod 2 ^ n"
  unfolding take_bit_eq_mask [symmetric] unsigned_take_bit_eq by (simp add: take_bit_eq_mod)

lemma unat_copy_prefix: "unat (dpa_dma_copy_prefix off) = unat off mod 128"
proof -
  have m: "ucast (DPA_DMA_COPY_ALIGN - 1) = (mask 7 :: u64)"
    by (simp add: dmesh_const mask_eq_exp_minus_1)
  have "unat (off AND mask 7) = unat off mod 128"
    by (simp add: unat_and_mask)
  moreover have "unat (ucast (off AND mask 7) :: u32) = unat (off AND mask 7) mod 2 ^ 32"
    by (simp add: unsigned_ucast_eq take_bit_eq_mod)
  moreover have "unat off mod 128 < 2 ^ 32"
    by (rule less_trans [of _ 128]) simp_all
  ultimately show ?thesis
    unfolding dpa_dma_copy_prefix_def m by simp
qed

lemma copy_prefix_lt: "unat (dpa_dma_copy_prefix off) < 128"
  by (simp add: unat_copy_prefix)

lemma word_and_not_mask: "(x :: 'a::len word) AND NOT (mask n) = x - (x AND mask n)"
proof -
  have "x AND NOT (mask n) = x AND NOT (x AND mask n)"
    by (rule bit_eqI) (auto simp: bit_simps)
  also have "\<dots> = x - (x AND mask n)"
    by (rule disjunctive_diff [symmetric]) (simp add: bit_simps)
  finally show ?thesis .
qed

lemma unat_align_down: "unat ((x :: u32) AND NOT 127) = unat x - unat x mod 128"
proof -
  have m: "(127 :: u32) = mask 7" by (simp add: mask_eq_exp_minus_1)
  have "x AND mask 7 \<le> x" by (rule word_and_le2)
  then show ?thesis
    unfolding m word_and_not_mask by (simp add: unat_sub unat_and_mask)
qed

lemma align_up_ge: "n \<le> (n + 127) div 128 * (128 :: nat)"
  using div_mult_mod_eq [of "n + 127" 128] mod_less_divisor [of 128 "n + 127"] by linarith

lemma align_up_le: "n \<le> 8192 \<Longrightarrow> (n + 127) div 128 * 128 \<le> (8192 :: nat)"
  using div_le_mono [of "n + 127" "8192 + 127" 128] by simp

lemma unat_aligned_copy_len:
  assumes "unat payload \<le> 8192"
  shows "unat (dpa_dma_aligned_copy_len off payload) = (unat off mod 128 + unat payload + 127) div 128 * 128"
proof -
  let ?p = "dpa_dma_copy_prefix off"
  have s: "unat (?p + payload) = unat off mod 128 + unat payload"
    using assms copy_prefix_lt [of off] by (subst unat_add_word) (auto simp: unat_copy_prefix)
  have "unat (?p + payload + 127) = unat off mod 128 + unat payload + 127"
    using assms copy_prefix_lt [of off] s by (subst unat_add_word) (auto simp: unat_copy_prefix)
  moreover have "dpa_dma_aligned_copy_len off payload = (?p + payload + 127) AND NOT 127"
    by (simp add: dpa_dma_aligned_copy_len_def dmesh_const Let_def add.commute)
  ultimately show ?thesis
    by (simp only: unat_align_down minus_mod_eq_div_mult)
qed

lemma unat_payload_cap:
  "unat (dpa_dma_payload_cap off cap) = min (unat cap) (8192 - unat off mod 128)"
proof -
  have "unat (DPA_DMA_COPY_MAX - dpa_dma_copy_prefix off) = 8192 - unat off mod 128"
    using copy_prefix_lt [of off] by (subst unat_sub_word) (auto simp: dmesh_const unat_copy_prefix)
  then show ?thesis
    by (simp add: dpa_dma_payload_cap_def Let_def word_less_nat_alt min_def)
qed

lemma payload_cap_le: "unat (dpa_dma_payload_cap off cap) \<le> 8192"
  by (simp add: unat_payload_cap)

text \<open>
  C19. A payload within \<open>dpa_dma_payload_cap\<close> is copied by an aligned transfer that covers the
  prefix and the payload, is a whole number of 128-byte lines and stays within the 8 KiB hardware
  limit of one DMA copy.
\<close>

theorem payload_cap_copy_fits:
  assumes "payload \<le> dpa_dma_payload_cap off logical_cap"
  shows "128 dvd unat (dpa_dma_aligned_copy_len off payload)
    \<and> unat (dpa_dma_copy_prefix off) + unat payload \<le> unat (dpa_dma_aligned_copy_len off payload)
    \<and> unat (dpa_dma_aligned_copy_len off payload) \<le> unat DPA_DMA_COPY_MAX"
proof -
  let ?n = "unat off mod 128 + unat payload"
  have p: "?n \<le> 8192" and q: "unat payload \<le> 8192"
    using assms mod_less_divisor [of 128 "unat off"]
    by (auto simp: word_le_nat_alt unat_payload_cap)
  from align_up_le [OF p] align_up_ge [of ?n] show ?thesis
    by (simp add: unat_aligned_copy_len [OF q] unat_copy_prefix dmesh_const)
qed

theorem payload_cap_copy_fits_witness:
  "(8092 :: u32) \<le> dpa_dma_payload_cap 100 8192
    \<and> unat (dpa_dma_aligned_copy_len 100 8092) \<le> unat DPA_DMA_COPY_MAX"
proof -
  have h: "(8092 :: u32) \<le> dpa_dma_payload_cap 100 8192"
    by (simp add: dpa_dma_payload_cap_def dpa_dma_copy_prefix_def dmesh_const)
  show ?thesis using h payload_cap_copy_fits [OF h] by simp
qed

lemma reschedule_budget_reaches:
  assumes "unat completed < 65536" and "unat d < 512"
  shows "0 < unat (dpa_reschedule_budget completed d)"
  using assms
  by (auto simp: dpa_reschedule_budget_def dmesh_const word_less_nat_alt unat_sub_word)

end
