(* ===== verification/Dpa_Kernel.thy ===== *)
theory Dpa_Kernel
  imports Dpa_Common Interfaces
begin

text \<open>
  \<^verbatim>\<open>doca/device/dpa_kernel.c\<close>: the thread that each DPA execution unit runs. It keeps a dense table
  of the forward rings it drains, copies each published descriptor's bytes from host memory to the
  DPU staging buffer, answers ring installs and removals, and decides when to release its unit.
  The descriptors are written by an unprivileged workload process, so nothing is assumed of their
  contents. What the unit reads from outside (descriptors, messages, receive credits, completions)
  comes from a \<open>dpa_world\<close>, indexed by the number of accesses made so far, so two reads of the
  same place may differ; what it posts to its ordered producer is a log of events.
\<close>

unbundle bit_operations_syntax

section \<open>State\<close>

definition RING_BATCH_CAP :: nat where
  "RING_BATCH_CAP = 32"

definition RING_ACK_CONSUMER_WAIT_LOOPS :: nat where
  "RING_ACK_CONSUMER_WAIT_LOOPS = 100000"

definition RING_ACK_PROBE_ONLY :: nat where
  "RING_ACK_PROBE_ONLY = 1"

definition HANDLE_MSGS_EVERY :: nat where
  "HANDLE_MSGS_EVERY = 32"

definition IDLE_SPINS_BEFORE_PARK :: nat where
  "IDLE_SPINS_BEFORE_PARK = 262144"

declare RING_BATCH_CAP_def [dmesh_const] RING_ACK_CONSUMER_WAIT_LOOPS_def [dmesh_const]
  RING_ACK_PROBE_ONLY_def [dmesh_const] HANDLE_MSGS_EVERY_def [dmesh_const]
  IDLE_SPINS_BEFORE_PARK_def [dmesh_const]

text \<open>What the device library and the host's memory answer at the n-th access.\<close>

record dpa_world =
  consumer_empty :: "nat \<Rightarrow> bool"
  host_desc :: "nat \<Rightarrow> u64 \<Rightarrow> u32 \<Rightarrow> dma_desc"
  inbound :: "nat \<Rightarrow> comch_add_ring_msg option list"
  completions :: "nat \<Rightarrow> nat"

record dma_copy =
  cp_dst_mmap :: u32
  cp_dst :: u64
  cp_src_mmap :: u32
  cp_src :: u64
  cp_len :: u32
  cp_comp :: comch_dma_comp_msg
  cp_optimize_reports :: bool

datatype dpa_event = Ring_Ack dpa_ring_ack_msg | Dma_Copy dma_copy

text \<open>The thread's argument block, the access counter, the log, and the heads shown to the hosts.\<close>

record dpa_state =
  thread_arg :: dpa_thread_arg
  now :: nat
  events :: "dpa_event list"
  ctrl_heads :: "u64 \<Rightarrow> u64"

section \<open>Ring acknowledgements\<close>

text \<open>The probe loop: at most \<open>n\<close> probes, and whether a receive was found.\<close>

fun ack_wait :: "dpa_world \<Rightarrow> nat \<Rightarrow> nat \<Rightarrow> bool \<times> nat" where
  "ack_wait w n t =
     (if \<not> consumer_empty w t then (True, t + 1)
      else if n \<le> 1 then (False, t + 1)
      else ack_wait w (n - 1) (t + 1))"

declare ack_wait.simps [simp del]

definition send_ring_ack ::
  "dpa_world \<Rightarrow> dpa_msg_type \<Rightarrow> int \<Rightarrow> u32 \<Rightarrow> dpa_ring_ack_status \<Rightarrow> nat \<Rightarrow> dpa_state \<Rightarrow> bool \<times> dpa_state"
where
  "send_ring_ack w ty pod gen status wait_loops s =
     (let ack = \<lparr>ack_type = ty, ack_pod_id = int8 pod, ack_status = status,
                 ack_eu_index = ucast (eu_index (thread_arg s)), ack_generation = gen\<rparr>;
          (ok, t) = ack_wait w wait_loops (now s)
      in if \<not> ok then (False, s\<lparr>now := t\<rparr>)
         else (True, s\<lparr>now := t, events := events s @ [Ring_Ack ack],
                      thread_arg := (thread_arg s)\<lparr>producer_deferred := 0\<rparr>\<rparr>))"

definition pending_index :: "dpa_thread_arg \<Rightarrow> int \<Rightarrow> nat option" where
  "pending_index a pod = find (\<lambda>i. pending_del_pod a ! i = pod) [0..<pending_del_n a]"

definition pending_del_push :: "int \<Rightarrow> u32 \<Rightarrow> dpa_thread_arg \<Rightarrow> dpa_thread_arg" where
  "pending_del_push pod gen a =
     (case pending_index a pod of
        Some i \<Rightarrow> a\<lparr>pending_del_generation := (pending_del_generation a)[i := gen]\<rparr>
      | None \<Rightarrow>
          if pending_del_n a \<ge> MAX_DPA_RINGS then a
          else let slot = pending_del_n a
               in a\<lparr>pending_del_pod := (pending_del_pod a)[slot := pod],
                    pending_del_generation := (pending_del_generation a)[slot := gen],
                    pending_del_n := slot + 1\<rparr>)"

definition pending_del_drop :: "int \<Rightarrow> dpa_thread_arg \<Rightarrow> dpa_thread_arg" where
  "pending_del_drop pod a =
     (case pending_index a pod of
        None \<Rightarrow> a
      | Some i \<Rightarrow>
          let last = pending_del_n a - 1
          in a\<lparr>pending_del_pod := (pending_del_pod a)[i := pending_del_pod a ! last],
               pending_del_generation :=
                 (pending_del_generation a)[i := pending_del_generation a ! last],
               pending_del_n := last\<rparr>)"

text \<open>\<open>pending_del_retry\<close>: \<open>i\<close> runs over the entries that are left, \<open>kept\<close> over those retained.\<close>

fun pending_del_retry_from :: "dpa_world \<Rightarrow> nat list \<Rightarrow> nat \<Rightarrow> dpa_state \<Rightarrow> dpa_state" where
  "pending_del_retry_from w [] kept s =
     s\<lparr>thread_arg := (thread_arg s)\<lparr>pending_del_n := kept\<rparr>\<rparr>"
| "pending_del_retry_from w (i # is) kept s =
     (let a = thread_arg s;
          (ok, s') = send_ring_ack w DPA_MSG_RING_DEL_ACK (pending_del_pod a ! i)
                       (pending_del_generation a ! i) DPA_RING_ACK_OK RING_ACK_PROBE_ONLY s
      in if ok then pending_del_retry_from w is kept s'
         else
           let a' = thread_arg s';
               a'' = a'\<lparr>pending_del_pod := (pending_del_pod a')[kept := pending_del_pod a' ! i],
                        pending_del_generation :=
                          (pending_del_generation a')[kept := pending_del_generation a' ! i]\<rparr>
           in pending_del_retry_from w is (kept + 1) (s'\<lparr>thread_arg := a''\<rparr>))"

definition pending_del_retry :: "dpa_world \<Rightarrow> dpa_state \<Rightarrow> dpa_state" where
  "pending_del_retry w s = pending_del_retry_from w [0..<pending_del_n (thread_arg s)] 0 s"

section \<open>Control messages\<close>

definition ring_index :: "dpa_thread_arg \<Rightarrow> int \<Rightarrow> nat option" where
  "ring_index a pod = find (\<lambda>r. pod_id (rings a ! r) = pod) [0..<num_rings a]"

definition ring_install :: "nat \<Rightarrow> comch_add_ring_msg \<Rightarrow> dpa_thread_arg \<Rightarrow> dpa_thread_arg" where
  "ring_install slot m a =
     a\<lparr>rings := (rings a)[slot := msg_ring m],
       ring_generation := (ring_generation a)[slot := msg_generation m],
       consumer_head := (consumer_head a)[slot := 0],
       num_rings := (if slot = num_rings a then num_rings a + 1 else num_rings a)\<rparr>"

definition ring_remove :: "nat \<Rightarrow> dpa_thread_arg \<Rightarrow> dpa_thread_arg" where
  "ring_remove r a =
     (let last = num_rings a - 1;
          a1 = (if r \<noteq> last
                then a\<lparr>rings := (rings a)[r := rings a ! last],
                       consumer_head := (consumer_head a)[r := consumer_head a ! last],
                       ring_generation := (ring_generation a)[r := ring_generation a ! last]\<rparr>
                else a)
      in a1\<lparr>consumer_head := (consumer_head a1)[last := 0],
            ring_generation := (ring_generation a1)[last := 0],
            num_rings := last\<rparr>)"

definition handle_dpu_msg :: "dpa_world \<Rightarrow> comch_add_ring_msg \<Rightarrow> dpa_state \<Rightarrow> dpa_state" where
  "handle_dpu_msg w m s =
     (let a = thread_arg s; pod = pod_id (msg_ring m)
      in case msg_type m of
           DPA_MSG_RING_ADD \<Rightarrow>
             let slot = (case ring_index a pod of Some r \<Rightarrow> r | None \<Rightarrow> num_rings a)
             in if slot < MAX_DPA_RINGS
                then snd (send_ring_ack w DPA_MSG_RING_ADD_ACK pod (msg_generation m)
                            DPA_RING_ACK_OK RING_ACK_CONSUMER_WAIT_LOOPS
                            (s\<lparr>thread_arg := ring_install slot m a\<rparr>))
                else snd (send_ring_ack w DPA_MSG_RING_ADD_ACK pod (msg_generation m)
                            DPA_RING_ACK_FULL RING_ACK_CONSUMER_WAIT_LOOPS s)
         | DPA_MSG_RING_DEL \<Rightarrow>
             let a' = (case ring_index a pod of Some r \<Rightarrow> ring_remove r a | None \<Rightarrow> a);
                 (ok, s') = send_ring_ack w DPA_MSG_RING_DEL_ACK pod (msg_generation m)
                              DPA_RING_ACK_OK RING_ACK_CONSUMER_WAIT_LOOPS (s\<lparr>thread_arg := a'\<rparr>)
             in if ok then s'\<lparr>thread_arg := pending_del_drop pod (thread_arg s')\<rparr>
                else s'\<lparr>thread_arg := pending_del_push pod (msg_generation m) (thread_arg s')\<rparr>
         | _ \<Rightarrow> s)"

fun handle_msg_list :: "dpa_world \<Rightarrow> comch_add_ring_msg option list \<Rightarrow> dpa_state \<Rightarrow> nat \<times> dpa_state" where
  "handle_msg_list w [] s = (0, s)"
| "handle_msg_list w (None # ms) s = handle_msg_list w ms s"
| "handle_msg_list w (Some m # ms) s =
     (case handle_msg_list w ms (handle_dpu_msg w m s) of (n, s') \<Rightarrow> (n + 1, s'))"

definition handle_msgs :: "dpa_world \<Rightarrow> dpa_state \<Rightarrow> nat \<times> dpa_state" where
  "handle_msgs w s = handle_msg_list w (inbound w (now s)) (s\<lparr>now := now s + 1\<rparr>)"

definition drain_producer_completions :: "dpa_world \<Rightarrow> dpa_state \<Rightarrow> nat \<times> dpa_state" where
  "drain_producer_completions w s = (completions w (now s), s\<lparr>now := now s + 1\<rparr>)"

section \<open>Draining the forward rings\<close>

definition next_desc_idx :: "dpa_ring_info \<Rightarrow> u32 \<Rightarrow> u32" where
  "next_desc_idx ring i = (if i + 1 = buf_arr_size ring then 0 else i + 1)"

definition advance_head :: "nat \<Rightarrow> dpa_state \<Rightarrow> dpa_state" where
  "advance_head r s =
     (let a = thread_arg s
      in s\<lparr>thread_arg := a\<lparr>consumer_head := (consumer_head a)[r := consumer_head a ! r + 1]\<rparr>\<rparr>)"

definition fwd_chunk :: "u32 \<Rightarrow> u32 \<Rightarrow> u32" where
  "fwd_chunk moff dma_size =
     (let c = dpa_dma_aligned_copy_len (ucast moff) dma_size
      in if c = 0 then DPA_DMA_COPY_ALIGN else c)"

definition fwd_span_refused :: "dpa_ring_info \<Rightarrow> u64 \<Rightarrow> u32 \<Rightarrow> bool" where
  "fwd_span_refused ring host_off dma_size \<longleftrightarrow>
     (let moff = ucast host_off :: u32;
          prefix = dpa_dma_copy_prefix (ucast moff);
          chunk = fwd_chunk moff dma_size
      in chunk > DPA_DMA_COPY_MAX \<or>
         host_off \<ge> ucast (host_buf_size ring) \<or>
         (ucast (moff - prefix) + ucast chunk :: u64) > ucast (host_buf_size ring))"

definition fwd_completion :: "dpa_ring_info \<Rightarrow> u32 \<Rightarrow> dma_desc \<Rightarrow> comch_dma_comp_msg" where
  "fwd_completion ring gen desc =
     \<lparr>comp_type = DPA_MSG_FWD_DONE,
      comp_src_pod_id = int8 (pod_id ring),
      comp_dst_pod_id = int8 (desc_dst_pod_id desc),
      comp_dst_service = desc_dst_service desc,
      comp_src_port = desc_src_port desc,
      comp_dst_port = desc_dst_port desc,
      comp_seq = desc_seq desc,
      comp_length = ucast (desc_size desc),
      comp_pos = ucast (desc_addr desc),
      comp_generation = gen\<rparr>"

definition fwd_copy :: "dpa_ring_info \<Rightarrow> u32 \<Rightarrow> bool \<Rightarrow> dma_desc \<Rightarrow> dma_copy" where
  "fwd_copy ring gen optimize desc =
     (let moff = ucast (desc_addr desc) :: u32;
          prefix = dpa_dma_copy_prefix (ucast moff);
          staging_base = dpu_addr ring - ucast (region_off ring)
      in \<lparr>cp_dst_mmap = dpu_mmap ring,
          cp_dst = staging_base + ucast moff - ucast prefix,
          cp_src_mmap = host_mmap ring,
          cp_src = host_addr ring + ucast (moff - prefix),
          cp_len = fwd_chunk moff (desc_size desc),
          cp_comp = fwd_completion ring gen desc,
          cp_optimize_reports = optimize\<rparr>)"

definition post_fwd_copy :: "nat \<Rightarrow> dma_desc \<Rightarrow> dpa_state \<Rightarrow> dpa_state" where
  "post_fwd_copy r desc s =
     (let a = thread_arg s;
          (due, deferred) = dpa_producer_report_due (producer_deferred a)
      in s\<lparr>thread_arg := a\<lparr>producer_deferred := deferred\<rparr>,
           events := events s @
             [Dma_Copy (fwd_copy (rings a ! r) (ring_generation a ! r) (\<not> due) desc)]\<rparr>)"

text \<open>The body of the \<open>for\<close> loop, with \<open>n\<close> iterations left.\<close>

fun process_fwd_loop ::
  "dpa_world \<Rightarrow> nat \<Rightarrow> nat \<Rightarrow> u32 \<Rightarrow> nat \<Rightarrow> dpa_state \<Rightarrow> nat \<times> dpa_state"
where
  "process_fwd_loop w r 0 idx calls s = (calls, s)"
| "process_fwd_loop w r (Suc n) idx calls s =
     (let a = thread_arg s;
          ring = rings a ! r;
          desc = host_desc w (now s) (buf_arr ring) idx;
          s1 = s\<lparr>now := now s + 1\<rparr>
      in if desc_publish_seq desc \<noteq> consumer_head a ! r + 1 then (calls, s1)
         else if desc_size desc > DPA_DMA_COPY_MAX then
           process_fwd_loop w r n (next_desc_idx ring idx) (calls + 1) (advance_head r s1)
         else if consumer_empty w (now s1) then (calls, s1\<lparr>now := now s1 + 1\<rparr>)
         else
           let s2 = s1\<lparr>now := now s1 + 1\<rparr>
           in if fwd_span_refused ring (desc_addr desc) (desc_size desc) then
                process_fwd_loop w r n (next_desc_idx ring idx) (calls + 1) (advance_head r s2)
              else
                process_fwd_loop w r n (next_desc_idx ring idx) (calls + 1)
                  (advance_head r (post_fwd_copy r desc s2)))"

definition process_fwd_ring :: "dpa_world \<Rightarrow> nat \<Rightarrow> nat \<Rightarrow> dpa_state \<Rightarrow> nat \<times> dpa_state" where
  "process_fwd_ring w r budget s =
     (let a = thread_arg s;
          desc_idx = ucast (consumer_head a ! r mod ucast (buf_arr_size (rings a ! r))) :: u32
      in process_fwd_loop w r (min RING_BATCH_CAP budget) desc_idx 0 s)"

text \<open>One pass over the rings; \<open>calls\<close> is \<open>total_dma_calls\<close>.\<close>

fun drain_pass ::
  "dpa_world \<Rightarrow> nat \<Rightarrow> nat list \<Rightarrow> nat \<Rightarrow> nat \<Rightarrow> dpa_state \<Rightarrow> nat \<times> nat \<times> dpa_state"
where
  "drain_pass w budget [] calls found s = (calls, found, s)"
| "drain_pass w budget (r # rs) calls found s =
     (let remaining = budget - calls
      in if remaining = 0 then (calls, found, s)
         else
           let (chunks, s1) = process_fwd_ring w r remaining s
           in if chunks > 0 then
                let a = thread_arg s1;
                    s2 = s1\<lparr>ctrl_heads :=
                              (ctrl_heads s1)(buf_arr (rings a ! r) := consumer_head a ! r)\<rparr>
                in drain_pass w budget rs (calls + chunks) (found + 1) s2
              else drain_pass w budget rs calls found s1)"

lemma drain_pass_progress:
  "drain_pass w budget rs calls found s = (calls', found', s') \<Longrightarrow>
     calls \<le> calls' \<and> found \<le> found' \<and> (found < found' \<longrightarrow> calls < calls')"
proof (induction rs arbitrary: calls found s)
  case Nil
  then show ?case by simp
next
  case (Cons r rs)
  from Cons.prems show ?case
    by (auto simp: Let_def split: prod.splits if_splits dest!: Cons.IH)
qed

function drain_loop ::
  "dpa_world \<Rightarrow> nat \<Rightarrow> nat \<Rightarrow> nat \<Rightarrow> dpa_state \<Rightarrow> nat \<times> dpa_state"
where
  "drain_loop w budget iter calls s =
     (let s1 = (if iter mod HANDLE_MSGS_EVERY = 0 then snd (handle_msgs w s) else s);
          s2 = snd (drain_producer_completions w s1);
          (calls', found, s3) = drain_pass w budget [0..<num_rings (thread_arg s2)] calls 0 s2
      in if calls' \<ge> budget then (calls', s3)
         else if found = 0 then (calls', s3)
         else drain_loop w budget (iter + 1) calls' s3)"
  by pat_completeness auto
termination
proof (relation "measure (\<lambda>(w, budget, iter, calls, s). budget - calls)")
  fix w budget iter calls s s1 s2 x calls' y found s3
  assume "x = drain_pass w budget [0..<num_rings (thread_arg s2)] calls 0 s2"
    and "(calls', y) = x" and "(found, s3) = y" and "\<not> budget \<le> calls'" and "found \<noteq> 0"
  with drain_pass_progress [of w budget "[0..<num_rings (thread_arg s2)]" calls 0 s2 calls' found s3]
  show "((w, budget, iter + 1, calls', s3), w, budget, iter, calls, s)
      \<in> measure (\<lambda>(w, budget, iter, calls, s). budget - calls)" by auto
qed simp

declare drain_loop.simps [simp del]

definition drain_all_rings :: "dpa_world \<Rightarrow> nat \<Rightarrow> dpa_state \<Rightarrow> nat \<times> dpa_state" where
  "drain_all_rings w budget s = drain_loop w budget 0 0 s"

section \<open>Releasing the execution unit\<close>

text \<open>
  How \<open>park_or_yield\<close> ends: the helper thread was notified and the unit released, the unit was
  released with nothing pending, or work arrived and polling resumes.
\<close>

datatype release = Yielded | Parked | Resumed

definition has_work :: "dpa_state \<Rightarrow> bool" where
  "has_work s \<longleftrightarrow> num_rings (thread_arg s) > 0 \<or> pending_del_n (thread_arg s) > 0"

partial_function (option) park_loop :: "dpa_world \<Rightarrow> dpa_state \<Rightarrow> (release \<times> dpa_state) option" where
  "park_loop w s =
     (let (msgs, s1) = handle_msgs w s;
          (comps, s2) = drain_producer_completions w s1
      in if has_work s2 then Some (Resumed, s2)
         else if msgs = 0 \<and> comps = 0 then Some (Parked, s2)
         else park_loop w s2)"

definition park_or_yield :: "dpa_world \<Rightarrow> dpa_state \<Rightarrow> (release \<times> dpa_state) option" where
  "park_or_yield w s =
     (let s1 = pending_del_retry w s
      in if has_work s1 then Some (Yielded, s1) else park_loop w s1)"

section \<open>The manager thread\<close>

definition run_dma_manager_init :: "dpa_world \<Rightarrow> dpa_state \<Rightarrow> dpa_state" where
  "run_dma_manager_init w s =
     (let a = thread_arg s
      in if num_rings a > 0 \<and> \<not> initial_ack_sent a then
           let (ok, s') = send_ring_ack w DPA_MSG_RING_ADD_ACK (pod_id (rings a ! 0))
                            (initial_generation a) DPA_RING_ACK_OK RING_ACK_CONSUMER_WAIT_LOOPS s
           in if ok then s'\<lparr>thread_arg := (thread_arg s')\<lparr>initial_ack_sent := True\<rparr>\<rparr> else s'
         else s)"

text \<open>One turn of its endless loop: the idle count, the completed count and the state.\<close>

definition run_dma_manager_turn ::
  "dpa_world \<Rightarrow> nat \<times> u32 \<times> dpa_state \<Rightarrow> (release option \<times> nat \<times> u32 \<times> dpa_state) option"
where
  "run_dma_manager_turn w c =
     (case c of (idle_spins, completed, s) \<Rightarrow>
        let s1 = snd (handle_msgs w s);
            budget = dpa_reschedule_budget completed (producer_deferred (thread_arg s1));
            (chunks, s2) = drain_all_rings w (unat budget) s1
        in if chunks > 0 then
             let (due, completed') =
                   dpa_reschedule_due completed (of_nat chunks) (producer_deferred (thread_arg s2))
             in if due then
                  (case park_or_yield w s2 of
                     None \<Rightarrow> None
                   | Some (e, s3) \<Rightarrow>
                       Some (Some e, 0, completed', snd (drain_producer_completions w s3)))
                else Some (None, 0, completed', snd (drain_producer_completions w s2))
           else if idle_spins + 1 \<ge> IDLE_SPINS_BEFORE_PARK then
             (case park_or_yield w s2 of
                None \<Rightarrow> None
              | Some (e, s3) \<Rightarrow> Some (Some e, 0, completed, s3))
           else Some (None, idle_spins + 1, completed, s2))"

end
