(* ===== verification/Dpa_Kernel_Props.thy ===== *)
theory Dpa_Kernel_Props
  imports Dpa_Kernel "HOL-Library.Sublist"
begin

text \<open>
  What the DPA thread guarantees. Its table of rings behaves as a finite map from pods under the
  install and remove messages; whatever the workload writes into its descriptors, every copy the
  thread posts stays inside the host buffer and the staging buffer of a ring that the ARM side
  gave it; a drain ends within its budget; a removal is acknowledged or kept as a fence; the
  thread parks only when nothing is left to do.
\<close>

section \<open>The tables as finite maps\<close>

definition ring_entries :: "dpa_thread_arg \<Rightarrow> (int \<times> dpa_ring_info \<times> u32 \<times> u64) list" where
  "ring_entries a =
     map (\<lambda>i. (pod_id (rings a ! i), rings a ! i, ring_generation a ! i, consumer_head a ! i))
       [0..<num_rings a]"

definition pending_entries :: "dpa_thread_arg \<Rightarrow> (int \<times> u32) list" where
  "pending_entries a =
     map (\<lambda>i. (pending_del_pod a ! i, pending_del_generation a ! i)) [0..<pending_del_n a]"

text \<open>The abstract state: which ring a pod has, and which removals still need their ACK.\<close>

definition ring_table :: "dpa_thread_arg \<Rightarrow> int \<Rightarrow> (dpa_ring_info \<times> u32 \<times> u64) option" where
  "ring_table a = map_of (ring_entries a)"

definition fence_table :: "dpa_thread_arg \<Rightarrow> int \<Rightarrow> u32 option" where
  "fence_table a = map_of (pending_entries a)"

definition thread_ok :: "dpa_thread_arg \<Rightarrow> bool" where
  "thread_ok a \<longleftrightarrow>
     num_rings a \<le> MAX_DPA_RINGS \<and> length (rings a) = MAX_DPA_RINGS \<and>
     length (ring_generation a) = MAX_DPA_RINGS \<and> length (consumer_head a) = MAX_DPA_RINGS \<and>
     distinct (map fst (ring_entries a)) \<and>
     pending_del_n a \<le> MAX_DPA_RINGS \<and> length (pending_del_pod a) = MAX_DPA_RINGS \<and>
     length (pending_del_generation a) = MAX_DPA_RINGS \<and>
     distinct (map fst (pending_entries a))"

lemma find_upt_Some: "find P [0..<n] = Some i \<Longrightarrow> i < n \<and> P i"
  by (auto simp: find_Some_iff)

lemma find_upt_None: "find P [0..<n] = None \<Longrightarrow> i < n \<Longrightarrow> \<not> P i"
  by (auto simp: find_None_iff)

lemma ring_index_Some:
  assumes "ring_index a pod = Some r"
  shows "r < num_rings a" "pod_id (rings a ! r) = pod"
  using find_upt_Some assms by (auto simp: ring_index_def)

lemma ring_index_None: "ring_index a pod = None \<Longrightarrow> pod \<notin> fst ` set (ring_entries a)"
  by (auto simp: ring_index_def ring_entries_def dest: find_upt_None)

lemma pending_index_Some:
  assumes "pending_index a pod = Some i"
  shows "i < pending_del_n a" "pending_del_pod a ! i = pod"
  using find_upt_Some assms by (auto simp: pending_index_def)

lemma pending_index_None: "pending_index a pod = None \<Longrightarrow> pod \<notin> fst ` set (pending_entries a)"
  by (auto simp: pending_index_def pending_entries_def dest: find_upt_None)

lemma ring_table_None: "ring_index a pod = None \<Longrightarrow> ring_table a pod = None"
  using ring_index_None by (simp add: ring_table_def map_of_eq_None_iff)

lemma ring_table_Some:
  assumes "thread_ok a" and "ring_index a pod = Some r"
  shows "ring_table a pod = Some (rings a ! r, ring_generation a ! r, consumer_head a ! r)"
  using assms(1) ring_index_Some [OF assms(2)]
  by (force simp: ring_table_def thread_ok_def ring_entries_def)

section \<open>Install and remove\<close>

lemma install_entries:
  assumes "thread_ok a" and "slot \<le> num_rings a" and "slot < MAX_DPA_RINGS"
  shows "ring_entries (ring_install slot m a) =
    (let e = (pod_id (msg_ring m), msg_ring m, msg_generation m, 0)
     in if slot = num_rings a then ring_entries a @ [e] else (ring_entries a)[slot := e])"
  using assms
  by (auto simp: ring_entries_def ring_install_def thread_ok_def Let_def nth_list_update
      intro!: nth_equalityI)

lemma remove_entries:
  assumes "thread_ok a" and "r < num_rings a"
  shows "ring_entries (ring_remove r a) = swap_remove r (ring_entries a)"
proof -
  have n: "num_rings a \<le> length (rings a)" "num_rings a \<le> length (ring_generation a)"
    "num_rings a \<le> length (consumer_head a)" using assms by (auto simp: thread_ok_def)
  have l: "last (ring_entries a) = ring_entries a ! (num_rings a - 1)"
    using assms(2) by (subst last_conv_nth) (auto simp: ring_entries_def)
  show ?thesis
    unfolding swap_remove_def l using assms(2) n
    by (auto simp: ring_entries_def ring_remove_def Let_def nth_butlast nth_list_update
        intro!: nth_equalityI)
qed

lemma install_frame:
  "pending_entries (ring_install slot m a) = pending_entries a"
  "pending_del_n (ring_install slot m a) = pending_del_n a"
  "pending_del_pod (ring_install slot m a) = pending_del_pod a"
  "pending_del_generation (ring_install slot m a) = pending_del_generation a"
  "producer_deferred (ring_install slot m a) = producer_deferred a"
  "num_rings (ring_install slot m a) = (if slot = num_rings a then Suc (num_rings a) else num_rings a)"
  by (simp_all add: ring_install_def pending_entries_def)

lemma remove_frame:
  "pending_entries (ring_remove r a) = pending_entries a"
  "pending_del_n (ring_remove r a) = pending_del_n a"
  "pending_del_pod (ring_remove r a) = pending_del_pod a"
  "pending_del_generation (ring_remove r a) = pending_del_generation a"
  "producer_deferred (ring_remove r a) = producer_deferred a"
  "eu_index (ring_remove r a) = eu_index a"
  by (simp_all add: ring_remove_def pending_entries_def Let_def)

lemma install_ok:
  assumes "thread_ok a" and "slot = (case ring_index a (pod_id (msg_ring m)) of Some r \<Rightarrow> r | None \<Rightarrow> num_rings a)"
    and "slot < MAX_DPA_RINGS"
  shows "thread_ok (ring_install slot m a)
    \<and> ring_table (ring_install slot m a) =
        (ring_table a)(pod_id (msg_ring m) \<mapsto> (msg_ring m, msg_generation m, 0))"
proof -
  let ?k = "pod_id (msg_ring m)" and ?v = "(msg_ring m, msg_generation m, 0 :: u64)"
  have d: "distinct (map fst (ring_entries a))" using assms(1) by (simp add: thread_ok_def)
  have "map_of (ring_entries (ring_install slot m a)) = (map_of (ring_entries a))(?k \<mapsto> ?v)
      \<and> distinct (map fst (ring_entries (ring_install slot m a)))
      \<and> num_rings (ring_install slot m a) \<le> MAX_DPA_RINGS"
  proof (cases "ring_index a ?k")
    case None
    with assms(2) have s: "slot = num_rings a" by simp
    from ring_index_None [OF None] d show ?thesis
      using assms(3) install_entries [OF assms(1) _ assms(3), of m]
      by (simp add: Let_def s map_of_snoc install_frame del: map_of_append)
  next
    case (Some r)
    with assms(2) have s: "slot = r" by simp
    from ring_index_Some [OF Some] have r: "r < num_rings a" "fst (ring_entries a ! r) = ?k"
      by (auto simp: ring_entries_def)
    moreover have "length (ring_entries a) = num_rings a" by (simp add: ring_entries_def)
    moreover have "num_rings a \<le> MAX_DPA_RINGS" using assms(1) by (simp add: thread_ok_def)
    ultimately show ?thesis
      using d install_entries [OF assms(1) _ assms(3), of m]
      by (simp add: Let_def s map_of_list_update map_upd_same install_frame)
  qed
  with assms(1) show ?thesis
    by (auto simp: thread_ok_def ring_table_def install_frame) (simp_all add: ring_install_def)
qed

lemma remove_ok:
  assumes "thread_ok a" and "ring_index a pod = Some r"
  shows "thread_ok (ring_remove r a) \<and> ring_table (ring_remove r a) = (ring_table a)(pod := None)"
proof -
  from ring_index_Some [OF assms(2)] have r: "r < num_rings a" "r < length (ring_entries a)"
    "fst (ring_entries a ! r) = pod" by (auto simp: ring_entries_def)
  have d: "distinct (map fst (ring_entries a))" using assms(1) by (simp add: thread_ok_def)
  from map_of_swap_remove [OF d r(2)] r assms(1) show ?thesis
    by (auto simp: thread_ok_def ring_table_def remove_frame remove_entries [OF assms(1) r(1)])
      (simp_all add: ring_remove_def Let_def)
qed

section \<open>Fences\<close>

lemma push_ok:
  assumes "thread_ok a"
  shows "thread_ok (pending_del_push pod gen a)
    \<and> ring_entries (pending_del_push pod gen a) = ring_entries a
    \<and> fence_table (pending_del_push pod gen a) =
        (if fence_table a pod \<noteq> None \<or> pending_del_n a < MAX_DPA_RINGS
         then (fence_table a)(pod \<mapsto> gen) else fence_table a)"
proof (cases "pending_index a pod")
  case (Some i)
  from pending_index_Some [OF Some] have i: "i < pending_del_n a" "pending_del_pod a ! i = pod"
    "i < length (pending_entries a)" "fst (pending_entries a ! i) = pod"
    by (auto simp: pending_entries_def)
  have d: "distinct (map fst (pending_entries a))" using assms by (simp add: thread_ok_def)
  have e: "pending_entries (pending_del_push pod gen a) = (pending_entries a)[i := (pod, gen)]"
    using i assms by (auto simp: pending_del_push_def Some pending_entries_def thread_ok_def
        nth_list_update intro!: nth_equalityI)
  have f: "fence_table a pod \<noteq> None"
    using i by (auto simp: fence_table_def map_of_eq_None_iff in_set_conv_nth)
      (metis i(3,4) image_eqI nth_mem)
  have r: "ring_entries (pending_del_push pod gen a) = ring_entries a"
    by (simp add: pending_del_push_def Some ring_entries_def)
  have "thread_ok (pending_del_push pod gen a)"
    using assms d i r unfolding thread_ok_def e r
    by (simp add: pending_del_push_def Some map_upd_same)
  with r f e map_of_list_update [OF i(3) d i(4)] show ?thesis by (simp add: fence_table_def)
next
  case None
  have d: "distinct (map fst (pending_entries a))" using assms by (simp add: thread_ok_def)
  have f: "fence_table a pod = None"
    using pending_index_None [OF None] by (simp add: fence_table_def map_of_eq_None_iff)
  have r: "ring_entries (pending_del_push pod gen a) = ring_entries a"
    by (simp add: pending_del_push_def None ring_entries_def Let_def)
  show ?thesis
  proof (cases "pending_del_n a < MAX_DPA_RINGS")
    case True
    then have e: "pending_entries (pending_del_push pod gen a) = pending_entries a @ [(pod, gen)]"
      using assms by (auto simp: pending_del_push_def None pending_entries_def thread_ok_def Let_def
          nth_list_update)
    have "thread_ok (pending_del_push pod gen a)"
      using assms d r pending_index_None [OF None] True unfolding thread_ok_def e r
      by (simp add: pending_del_push_def None Let_def)
    with r f e True map_of_snoc [OF pending_index_None [OF None]] show ?thesis
      by (simp add: fence_table_def)
  next
    case False
    then have "pending_del_push pod gen a = a" by (simp add: pending_del_push_def None)
    with assms f False show ?thesis by simp
  qed
qed

lemma drop_ok:
  assumes "thread_ok a"
  shows "thread_ok (pending_del_drop pod a)
    \<and> ring_entries (pending_del_drop pod a) = ring_entries a
    \<and> fence_table (pending_del_drop pod a) = (fence_table a)(pod := None)"
proof (cases "pending_index a pod")
  case None
  then have "pending_del_drop pod a = a" by (simp add: pending_del_drop_def)
  with assms pending_index_None [OF None] show ?thesis
    by (auto simp: fence_table_def fun_eq_iff map_of_eq_None_iff)
next
  case (Some i)
  from pending_index_Some [OF Some] have i: "i < pending_del_n a"
    "i < length (pending_entries a)" "fst (pending_entries a ! i) = pod"
    by (auto simp: pending_entries_def)
  have d: "distinct (map fst (pending_entries a))" using assms by (simp add: thread_ok_def)
  have l: "last (pending_entries a) = pending_entries a ! (pending_del_n a - 1)"
    using i(1) by (subst last_conv_nth) (auto simp: pending_entries_def)
  have e: "pending_entries (pending_del_drop pod a) = swap_remove i (pending_entries a)"
    unfolding swap_remove_def l using i assms
    by (auto simp: pending_entries_def pending_del_drop_def Some Let_def nth_butlast nth_list_update
        thread_ok_def intro!: nth_equalityI)
  have r: "ring_entries (pending_del_drop pod a) = ring_entries a"
    by (simp add: pending_del_drop_def Some ring_entries_def Let_def)
  have "thread_ok (pending_del_drop pod a)"
    using assms map_of_swap_remove [OF d i(2)] unfolding thread_ok_def e r
    by (auto simp: pending_del_drop_def Some Let_def)
  with r e i map_of_swap_remove [OF d i(2)] show ?thesis by (simp add: fence_table_def)
qed

section \<open>Control messages refine map updates\<close>

definition ring_ack :: "dpa_msg_type \<Rightarrow> int \<Rightarrow> u32 \<Rightarrow> dpa_ring_ack_status \<Rightarrow> dpa_state \<Rightarrow> dpa_event" where
  "ring_ack ty pod gen status s =
     Ring_Ack \<lparr>ack_type = ty, ack_pod_id = int8 pod, ack_status = status,
       ack_eu_index = ucast (eu_index (thread_arg s)), ack_generation = gen\<rparr>"

lemma send_ring_ack_cases:
  assumes "send_ring_ack w ty pod gen status n s = (ok, s')"
  obtains "ok" "thread_arg s' = (thread_arg s)\<lparr>producer_deferred := 0\<rparr>"
    "events s' = events s @ [ring_ack ty pod gen status s]" "ctrl_heads s' = ctrl_heads s"
  | "\<not> ok" "thread_arg s' = thread_arg s" "events s' = events s" "ctrl_heads s' = ctrl_heads s"
  using assms by (auto simp: send_ring_ack_def ring_ack_def Let_def split: prod.splits if_splits)

lemma deferred_irrelevant [simp]:
  "ring_entries (a\<lparr>producer_deferred := d\<rparr>) = ring_entries a"
  "pending_entries (a\<lparr>producer_deferred := d\<rparr>) = pending_entries a"
  "ring_table (a\<lparr>producer_deferred := d\<rparr>) = ring_table a"
  "fence_table (a\<lparr>producer_deferred := d\<rparr>) = fence_table a"
  "thread_ok (a\<lparr>producer_deferred := d\<rparr>) = thread_ok a"
  by (simp_all add: ring_entries_def pending_entries_def ring_table_def fence_table_def thread_ok_def)

lemma pending_frame [simp]:
  "producer_deferred (pending_del_push pod gen a) = producer_deferred a"
  "producer_deferred (pending_del_drop pod a) = producer_deferred a"
  by (simp_all add: pending_del_push_def pending_del_drop_def Let_def split: option.splits)

definition ring_add_table ::
  "comch_add_ring_msg \<Rightarrow> dpa_thread_arg \<Rightarrow> int \<Rightarrow> (dpa_ring_info \<times> u32 \<times> u64) option"
where
  "ring_add_table m a =
     (if ring_table a (pod_id (msg_ring m)) \<noteq> None \<or> num_rings a < MAX_DPA_RINGS
      then (ring_table a)(pod_id (msg_ring m) \<mapsto> (msg_ring m, msg_generation m, 0))
      else ring_table a)"

lemma add_msg_table:
  assumes "thread_ok (thread_arg s)" and "msg_type m = DPA_MSG_RING_ADD"
  shows "ring_table (thread_arg (handle_dpu_msg w m s)) = ring_add_table m (thread_arg s)
    \<and> fence_table (thread_arg (handle_dpu_msg w m s)) = fence_table (thread_arg s)
    \<and> thread_ok (thread_arg (handle_dpu_msg w m s))"
proof -
  let ?a = "thread_arg s" and ?pod = "pod_id (msg_ring m)"
  define slot where "slot = (case ring_index ?a ?pod of Some r \<Rightarrow> r | None \<Rightarrow> num_rings ?a)"
  have full: "ring_table ?a ?pod \<noteq> None \<or> num_rings ?a < MAX_DPA_RINGS \<longleftrightarrow> slot < MAX_DPA_RINGS"
    using assms(1) ring_table_Some [OF assms(1)] ring_table_None ring_index_Some
    by (cases "ring_index ?a ?pod") (fastforce simp: slot_def thread_ok_def)+
  show ?thesis
  proof (cases "slot < MAX_DPA_RINGS")
    case True
    obtain ok s' where r: "send_ring_ack w DPA_MSG_RING_ADD_ACK ?pod (msg_generation m)
        DPA_RING_ACK_OK RING_ACK_CONSUMER_WAIT_LOOPS (s\<lparr>thread_arg := ring_install slot m ?a\<rparr>) = (ok, s')"
      by fastforce
    with True assms(2) have h: "handle_dpu_msg w m s = s'"
      by (simp add: handle_dpu_msg_def Let_def slot_def)
    note i = install_ok [OF assms(1) slot_def True]
    from r show ?thesis
      by (rule send_ring_ack_cases)
        (use i full True in \<open>simp_all add: h ring_add_table_def fence_table_def install_frame\<close>)
  next
    case False
    obtain ok s' where r: "send_ring_ack w DPA_MSG_RING_ADD_ACK ?pod (msg_generation m)
        DPA_RING_ACK_FULL RING_ACK_CONSUMER_WAIT_LOOPS s = (ok, s')" by fastforce
    with False assms(2) have h: "handle_dpu_msg w m s = s'"
      by (simp add: handle_dpu_msg_def Let_def slot_def)
    from r show ?thesis
      by (rule send_ring_ack_cases) (use full False assms(1) in \<open>simp_all add: h ring_add_table_def\<close>)
  qed
qed

lemma del_msg_table:
  fixes w :: dpa_world
  assumes "thread_ok (thread_arg s)" and "msg_type m = DPA_MSG_RING_DEL"
  defines "pod \<equiv> pod_id (msg_ring m)" and "s' \<equiv> handle_dpu_msg w m s"
  shows "ring_table (thread_arg s') = (ring_table (thread_arg s))(pod := None) \<and> thread_ok (thread_arg s')"
    and "(events s' = events s @ [ring_ack DPA_MSG_RING_DEL_ACK pod (msg_generation m) DPA_RING_ACK_OK s]
            \<and> fence_table (thread_arg s') = (fence_table (thread_arg s))(pod := None))
       \<or> (events s' = events s
            \<and> (fence_table (thread_arg s') = (fence_table (thread_arg s))(pod \<mapsto> msg_generation m)
               \<or> fence_table (thread_arg s) pod = None
                 \<and> pending_del_n (thread_arg s) \<ge> MAX_DPA_RINGS))"
proof -
  let ?a = "thread_arg s"
  define a' where "a' = (case ring_index ?a pod of Some r \<Rightarrow> ring_remove r ?a | None \<Rightarrow> ?a)"
  have a': "thread_ok a' \<and> ring_table a' = (ring_table ?a)(pod := None)
      \<and> fence_table a' = fence_table ?a \<and> pending_del_n a' = pending_del_n ?a
      \<and> eu_index a' = eu_index ?a"
    using assms(1) remove_ok [OF assms(1)] ring_table_None [of ?a pod]
    by (cases "ring_index ?a pod") (simp_all add: a'_def fence_table_def remove_frame fun_upd_idem)
  obtain ok s1 where r: "send_ring_ack w DPA_MSG_RING_DEL_ACK pod (msg_generation m)
      DPA_RING_ACK_OK RING_ACK_CONSUMER_WAIT_LOOPS (s\<lparr>thread_arg := a'\<rparr>) = (ok, s1)"
    by fastforce
  have s': "s' = (if ok then s1\<lparr>thread_arg := pending_del_drop pod (thread_arg s1)\<rparr>
      else s1\<lparr>thread_arg := pending_del_push pod (msg_generation m) (thread_arg s1)\<rparr>)"
    using assms(2) r unfolding s'_def handle_dpu_msg_def
    by (simp add: Let_def pod_def [symmetric] a'_def [symmetric])
  from r show "ring_table (thread_arg s') = (ring_table ?a)(pod := None) \<and> thread_ok (thread_arg s')"
    by (rule send_ring_ack_cases)
      (use a' drop_ok push_ok in \<open>auto simp: s' ring_table_def\<close>)
  from r show "(events s' = events s @ [ring_ack DPA_MSG_RING_DEL_ACK pod (msg_generation m) DPA_RING_ACK_OK s]
            \<and> fence_table (thread_arg s') = (fence_table ?a)(pod := None))
       \<or> (events s' = events s
            \<and> (fence_table (thread_arg s') = (fence_table ?a)(pod \<mapsto> msg_generation m)
               \<or> fence_table ?a pod = None \<and> pending_del_n ?a \<ge> MAX_DPA_RINGS))"
    by (rule send_ring_ack_cases)
      (use a' drop_ok [of "a'\<lparr>producer_deferred := 0\<rparr>"] push_ok [of a'] in
        \<open>auto simp: s' ring_ack_def\<close>)
qed

text \<open>A concrete thread with one ring, for the witnesses.\<close>

definition demo_ring :: dpa_ring_info where
  "demo_ring = \<lparr>buf_arr = 7, buf_arr_size = 4, host_mmap = 1, host_addr = 4096, dpu_mmap = 2,
     dpu_addr = 65536, pod_id = 3, region_off = 0, host_buf_size = 16384\<rparr>"

definition demo_arg :: dpa_thread_arg where
  "demo_arg = \<lparr>dpu_consumer_id = 1, eu_index = 2, initial_generation = 5, initial_ack_sent = True,
     pending_del_n = 0, pending_del_pod = replicate 16 0, pending_del_generation = replicate 16 0,
     num_rings = 1, producer_deferred = 0, rings = replicate 16 demo_ring,
     consumer_head = replicate 16 0, ring_generation = replicate 16 5\<rparr>"

definition demo_state :: dpa_state where
  "demo_state = \<lparr>thread_arg = demo_arg, now = 0, events = [], ctrl_heads = (\<lambda>_. 0)\<rparr>"

definition demo_desc :: dma_desc where
  "demo_desc = \<lparr>desc_mmap = 0, desc_addr = 200, desc_size = 1000, desc_seq = 1, desc_src_port = 9,
     desc_dst_port = 0, desc_src_service = 0, desc_dst_service = 4, desc_dst_pod_id = -1,
     desc_src_pod_id = 3, desc_publish_seq = 1\<rparr>"

definition demo_world :: dpa_world where
  "demo_world = \<lparr>consumer_empty = (\<lambda>_. False), host_desc = (\<lambda>_ _ _. demo_desc),
     inbound = (\<lambda>_. []), completions = (\<lambda>_. 0)\<rparr>"

definition demo_del :: comch_add_ring_msg where
  "demo_del = \<lparr>msg_type = DPA_MSG_RING_DEL, msg_generation = 5, msg_ring = demo_ring\<rparr>"

lemma demo_arg_ok: "thread_ok demo_arg"
  by (simp add: thread_ok_def demo_arg_def ring_entries_def pending_entries_def dmesh_const)

text \<open>
  C6. The dense ring table implements a finite map from pods to rings: an install sets the pod's
  ring with a fresh consumer head, replacing a stale one, unless the pod is new and all sixteen
  places are taken; a removal deletes the pod's ring and leaves every other ring with its own head
  and generation; other messages change nothing. The table's invariant is kept.
\<close>

theorem handle_dpu_msg_refines_map:
  assumes "thread_ok (thread_arg s)"
  shows "thread_ok (thread_arg (handle_dpu_msg w m s))
    \<and> ring_table (thread_arg (handle_dpu_msg w m s)) =
        (case msg_type m of
           DPA_MSG_RING_ADD \<Rightarrow> ring_add_table m (thread_arg s)
         | DPA_MSG_RING_DEL \<Rightarrow> (ring_table (thread_arg s))(pod_id (msg_ring m) := None)
         | _ \<Rightarrow> ring_table (thread_arg s))"
proof (cases "msg_type m")
  case DPA_MSG_RING_ADD
  then show ?thesis using add_msg_table [OF assms] by simp
next
  case DPA_MSG_RING_DEL
  then show ?thesis using del_msg_table(1) [OF assms] by simp
qed (use assms in \<open>simp_all add: handle_dpu_msg_def\<close>)

theorem handle_dpu_msg_refines_map_witness:
  "thread_ok (thread_arg demo_state)
    \<and> ring_table (thread_arg (handle_dpu_msg demo_world demo_del demo_state)) 3 = None
    \<and> ring_table (thread_arg demo_state) 3 \<noteq> None"
proof -
  have ok: "thread_ok (thread_arg demo_state)" by (simp add: demo_state_def demo_arg_ok)
  have "ring_table (thread_arg demo_state) 3 \<noteq> None"
    by (simp add: demo_state_def demo_arg_def ring_table_def ring_entries_def demo_ring_def)
  with ok handle_dpu_msg_refines_map [OF ok, of demo_world demo_del]
  show ?thesis by (simp add: demo_ring_def demo_del_def)
qed



section \<open>Copies stay inside the registered buffers\<close>

definition copy_offset :: "dpa_ring_info \<Rightarrow> dma_copy \<Rightarrow> nat" where
  "copy_offset ring cp = unat (cp_src cp - host_addr ring)"

definition copy_in_bounds :: "dpa_ring_info \<Rightarrow> dma_copy \<Rightarrow> bool" where
  "copy_in_bounds ring cp \<longleftrightarrow>
     (let off = copy_offset ring cp; len = unat (cp_len cp); c = cp_comp cp
      in cp_src_mmap cp = host_mmap ring \<and> cp_dst_mmap cp = dpu_mmap ring \<and>
         cp_src cp = host_addr ring + of_nat off \<and>
         cp_dst cp = dpu_addr ring - ucast (region_off ring) + of_nat off \<and>
         off + len \<le> unat (host_buf_size ring) \<and>
         0 < len \<and> len \<le> 8192 \<and> 128 dvd off \<and> 128 dvd len \<and>
         off \<le> unat (comp_pos c) \<and> unat (comp_pos c) + unat (comp_length c) \<le> off + len \<and>
         comp_src_pod_id c = int8 (pod_id ring))"

lemma fwd_chunk_value:
  assumes "unat sz \<le> 8192"
  shows "unat (fwd_chunk moff sz) =
     (let n = (unat moff mod 128 + unat sz + 127) div 128 * 128 in if n = 0 then 128 else n)"
proof -
  have c: "unat (dpa_dma_aligned_copy_len (ucast moff) sz)
      = (unat moff mod 128 + unat sz + 127) div 128 * 128"
    using unat_aligned_copy_len [OF assms, of "ucast moff"] by simp
  then show ?thesis
    unfolding fwd_chunk_def Let_def by (simp add: unat_eq_0 [symmetric] dmesh_const)
qed

lemma fwd_span_accepted:
  assumes "\<not> fwd_span_refused ring host_off sz" and "sz \<le> DPA_DMA_COPY_MAX"
  defines "moff \<equiv> ucast host_off :: u32"
  shows "unat moff = unat host_off"
    and "unat moff - unat moff mod 128 + unat (fwd_chunk moff sz) \<le> unat (host_buf_size ring)"
    and "unat (fwd_chunk moff sz) \<le> 8192"
    and "unat (moff - dpa_dma_copy_prefix (ucast moff)) = unat moff - unat moff mod 128"
proof -
  let ?p = "dpa_dma_copy_prefix (ucast moff)" and ?c = "fwd_chunk moff sz"
  from assms(1) have c: "?c \<le> DPA_DMA_COPY_MAX" and h: "host_off < ucast (host_buf_size ring)"
    and e: "(ucast (moff - ?p) + ucast ?c :: u64) \<le> ucast (host_buf_size ring)"
    by (auto simp: fwd_span_refused_def moff_def Let_def not_less not_le)
  show c': "unat ?c \<le> 8192" using c by (simp add: word_le_nat_alt dmesh_const)
  have "unat host_off < 2 ^ 32"
    using h unat_lt_exp [of "host_buf_size ring"] by (simp add: word_less_nat_alt)
  then show "unat moff = unat host_off" unfolding moff_def by (rule unat_ucast_64_32)
  show s: "unat (moff - ?p) = unat moff - unat moff mod 128"
    by (subst unat_sub_word) (simp_all add: unat_copy_prefix)
  have "unat (ucast (moff - ?p) + ucast ?c :: u64) = unat (moff - ?p) + unat ?c"
    using c' unat_lt_exp [of "moff - ?p"] by (subst unat_add_word) auto
  with e s show "unat moff - unat moff mod 128 + unat ?c \<le> unat (host_buf_size ring)"
    by (simp add: word_le_nat_alt)
qed

lemma fwd_copy_in_bounds:
  assumes "\<not> fwd_span_refused ring (desc_addr desc) (desc_size desc)"
    and "\<not> desc_size desc > DPA_DMA_COPY_MAX"
  shows "copy_in_bounds ring (fwd_copy ring gen opt desc)"
proof -
  let ?m = "ucast (desc_addr desc) :: u32" and ?sz = "desc_size desc"
  let ?p = "dpa_dma_copy_prefix (ucast ?m)"
  have sz: "?sz \<le> DPA_DMA_COPY_MAX" using assms(2) by simp
  then have sz': "unat ?sz \<le> 8192" by (simp add: word_le_nat_alt dmesh_const)
  note a = fwd_span_accepted [OF assms(1) sz]
  have off: "copy_offset ring (fwd_copy ring gen opt desc) = unat ?m - unat ?m mod 128"
    by (simp add: copy_offset_def fwd_copy_def Let_def a(4))
  have dst: "(ucast ?m :: u64) - ucast ?p = of_nat (unat ?m - unat ?m mod 128)"
    by (rule word_unat_eq_iff [THEN iffD2])
      (use unat_lt_exp [of ?m] in \<open>simp add: unat_sub_word unat_copy_prefix unat_of_nat_mod\<close>)
  have src: "(ucast (?m - ?p) :: u64) = of_nat (unat ?m - unat ?m mod 128)"
    unfolding a(4) [symmetric] by simp
  have len: "unat (ucast ?sz :: u16) = unat ?sz" using sz' by (simp add: unat_ucast_mod)
  have cover: "unat ?m mod 128 + unat ?sz \<le> unat (fwd_chunk ?m ?sz)" "0 < unat (fwd_chunk ?m ?sz)"
    "128 dvd unat (fwd_chunk ?m ?sz)"
    using align_up_ge [of "unat ?m mod 128 + unat ?sz"]
    by (auto simp: fwd_chunk_value [OF sz'] Let_def)
  have al: "128 dvd unat ?m - unat ?m mod 128" by (simp add: dvd_minus_mod)
  have le: "unat ?m mod 128 \<le> unat ?m" by simp
  show ?thesis
    unfolding copy_in_bounds_def off Let_def
    using a cover len al le src dst
    by (simp add: fwd_copy_def fwd_completion_def Let_def algebra_simps)
qed

section \<open>What draining one ring does\<close>

text \<open>
  The effect of \<open>k\<close> descriptors taken from ring \<open>r\<close>: its head moves by \<open>k\<close>, copies within
  the ring's buffers are appended to the log, and nothing else of the thread changes but the
  deferred-report count.
\<close>

definition fwd_effect :: "nat \<Rightarrow> nat \<Rightarrow> dpa_state \<Rightarrow> dpa_state \<Rightarrow> bool" where
  "fwd_effect r k s s' \<longleftrightarrow>
     (\<exists>d cps. thread_arg s' = (thread_arg s)
          \<lparr>consumer_head := (consumer_head (thread_arg s))[r := consumer_head (thread_arg s) ! r + of_nat k],
           producer_deferred := d\<rparr>
        \<and> (unat (producer_deferred (thread_arg s)) < 512 \<longrightarrow> unat d < 512)
        \<and> ctrl_heads s' = ctrl_heads s
        \<and> events s' = events s @ map Dma_Copy cps \<and> length cps \<le> k
        \<and> (cps = [] \<longrightarrow> d = producer_deferred (thread_arg s))
        \<and> (\<forall>cp \<in> set cps. copy_in_bounds (rings (thread_arg s) ! r) cp
              \<and> comp_generation (cp_comp cp) = ring_generation (thread_arg s) ! r))"

lemma fwd_effect_refl: "fwd_effect r 0 s (s\<lparr>now := t\<rparr>)"
  unfolding fwd_effect_def by (intro exI [of _ "producer_deferred (thread_arg s)"] exI [of _ "[]"]) simp

lemma fwd_effect_now: "fwd_effect r k (s\<lparr>now := t\<rparr>) s' = fwd_effect r k s s'"
  by (simp add: fwd_effect_def)

lemma report_due_bound: "unat d < 512 \<Longrightarrow> unat (snd (dpa_producer_report_due d)) < 512"
  by (auto simp: dpa_producer_report_due_def Let_def word_less_nat_alt dmesh_const)

lemma fwd_effect_advance:
  assumes "r < length (consumer_head (thread_arg s))"
    and "fwd_effect r k (advance_head r s) s'"
  shows "fwd_effect r (Suc k) s s'"
  using assms by (force simp: fwd_effect_def advance_head_def Let_def algebra_simps)

lemma fwd_effect_post:
  assumes "r < length (consumer_head (thread_arg s))"
    and "\<not> fwd_span_refused (rings (thread_arg s) ! r) (desc_addr desc) (desc_size desc)"
    and "\<not> desc_size desc > DPA_DMA_COPY_MAX"
    and "fwd_effect r k (advance_head r (post_fwd_copy r desc s)) s'"
  shows "fwd_effect r (Suc k) s s'"
proof -
  let ?a = "thread_arg s" and ?d = "snd (dpa_producer_report_due (producer_deferred (thread_arg s)))"
  let ?cp = "fwd_copy (rings ?a ! r) (ring_generation ?a ! r)
      (\<not> fst (dpa_producer_report_due (producer_deferred ?a))) desc"
  have p: "post_fwd_copy r desc s = s\<lparr>thread_arg := ?a\<lparr>producer_deferred := ?d\<rparr>,
      events := events s @ [Dma_Copy ?cp]\<rparr>"
    by (simp add: post_fwd_copy_def Let_def split: prod.splits)
  have cp: "copy_in_bounds (rings ?a ! r) ?cp"
    "comp_generation (cp_comp ?cp) = ring_generation ?a ! r"
    using fwd_copy_in_bounds [OF assms(2,3)] by (simp_all add: fwd_copy_def fwd_completion_def Let_def)
  from assms(4) obtain d cps where e:
    "thread_arg s' = ?a\<lparr>consumer_head := (consumer_head ?a)[r := consumer_head ?a ! r + of_nat (Suc k)],
        producer_deferred := d\<rparr>"
    "unat ?d < 512 \<longrightarrow> unat d < 512" "ctrl_heads s' = ctrl_heads s"
    "events s' = events s @ map Dma_Copy (?cp # cps)" "length cps \<le> k"
    "\<forall>cp \<in> set cps. copy_in_bounds (rings ?a ! r) cp
        \<and> comp_generation (cp_comp cp) = ring_generation ?a ! r"
    using assms(1) by (force simp: fwd_effect_def advance_head_def p Let_def algebra_simps)
  then show ?thesis
    unfolding fwd_effect_def using cp report_due_bound
    by (intro exI [of _ d] exI [of _ "?cp # cps"]) auto
qed

lemma process_fwd_loop_effect:
  assumes "process_fwd_loop w r n idx calls s = (calls', s')"
    and "r < length (consumer_head (thread_arg s))"
  shows "calls \<le> calls' \<and> calls' \<le> calls + n \<and> fwd_effect r (calls' - calls) s s'"
  using assms
proof (induction n arbitrary: idx calls s)
  case 0
  then show ?case using fwd_effect_refl [of r s "now s"] by simp
next
  case (Suc n)
  let ?a = "thread_arg s"
  let ?desc = "host_desc w (now s) (buf_arr (rings ?a ! r)) idx"
  let ?idx = "next_desc_idx (rings ?a ! r) idx"
  let ?s1 = "s\<lparr>now := now s + 1\<rparr>" and ?s2 = "s\<lparr>now := now s + 1 + 1\<rparr>"
  have step: ?case
    if st: "process_fwd_loop w r n ?idx (calls + 1) t = (calls', s')"
      and len: "length (consumer_head (thread_arg t)) = length (consumer_head ?a)"
      and eff: "\<And>k. fwd_effect r k t s' \<Longrightarrow> fwd_effect r (Suc k) s s'" for t
    using Suc.IH [OF st] Suc.prems(2) len eff [of "calls' - (calls + 1)"]
    by (auto simp: Suc_diff_le [symmetric] Suc_diff_Suc)
  have adv: "length (consumer_head (thread_arg (advance_head r t))) = length (consumer_head (thread_arg t))"
    for t by (simp add: advance_head_def Let_def)
  have post: "length (consumer_head (thread_arg (post_fwd_copy r d t))) = length (consumer_head (thread_arg t))"
    for d t by (simp add: post_fwd_copy_def Let_def split: prod.splits)
  consider (stop) "desc_publish_seq ?desc \<noteq> consumer_head ?a ! r + 1"
    | (big) "desc_publish_seq ?desc = consumer_head ?a ! r + 1" "desc_size ?desc > DPA_DMA_COPY_MAX"
    | (credit) "desc_publish_seq ?desc = consumer_head ?a ! r + 1" "\<not> desc_size ?desc > DPA_DMA_COPY_MAX"
        "consumer_empty w (now s + 1)"
    | (refused) "desc_publish_seq ?desc = consumer_head ?a ! r + 1" "\<not> desc_size ?desc > DPA_DMA_COPY_MAX"
        "\<not> consumer_empty w (now s + 1)" "fwd_span_refused (rings ?a ! r) (desc_addr ?desc) (desc_size ?desc)"
    | (copy) "desc_publish_seq ?desc = consumer_head ?a ! r + 1" "\<not> desc_size ?desc > DPA_DMA_COPY_MAX"
        "\<not> consumer_empty w (now s + 1)" "\<not> fwd_span_refused (rings ?a ! r) (desc_addr ?desc) (desc_size ?desc)"
    by blast
  then show ?case
  proof cases
    case stop
    with Suc.prems(1) show ?thesis by (auto simp: Let_def fwd_effect_refl)
  next
    case big
    then have "process_fwd_loop w r n ?idx (calls + 1) (advance_head r ?s1) = (calls', s')"
      using Suc.prems(1) by (simp add: Let_def)
    then show ?thesis
      by (rule step) (use fwd_effect_advance [of r ?s1] Suc.prems(2) in \<open>simp_all add: adv fwd_effect_now\<close>)
  next
    case credit
    with Suc.prems(1) show ?thesis by (auto simp: Let_def fwd_effect_refl)
  next
    case refused
    then have "process_fwd_loop w r n ?idx (calls + 1) (advance_head r ?s2) = (calls', s')"
      using Suc.prems(1) by (simp add: Let_def)
    then show ?thesis
      by (rule step) (use fwd_effect_advance [of r ?s2] Suc.prems(2) in \<open>simp_all add: adv fwd_effect_now\<close>)
  next
    case copy
    then have "process_fwd_loop w r n ?idx (calls + 1) (advance_head r (post_fwd_copy r ?desc ?s2)) = (calls', s')"
      using Suc.prems(1) by (simp add: Let_def)
    then show ?thesis
      by (rule step) (use fwd_effect_post [of r ?s2 ?desc] Suc.prems(2) copy in
          \<open>simp_all add: adv post fwd_effect_now\<close>)
  qed
qed

lemma process_fwd_ring_effect:
  assumes "process_fwd_ring w r budget s = (k, s')" and "r < length (consumer_head (thread_arg s))"
  shows "k \<le> RING_BATCH_CAP \<and> k \<le> budget \<and> fwd_effect r k s s'"
  using process_fwd_loop_effect [of w r "min RING_BATCH_CAP budget" _ 0 s k s'] assms
  by (auto simp: process_fwd_ring_def Let_def)

section \<open>The invariant of the whole thread\<close>

text \<open>\<open>Rs\<close> are the rings that the ARM side ever handed to the thread.\<close>

definition rings_in :: "dpa_ring_info set \<Rightarrow> dpa_thread_arg \<Rightarrow> bool" where
  "rings_in Rs a \<longleftrightarrow> (\<forall>pod r g h. ring_table a pod = Some (r, g, h) \<longrightarrow> r \<in> Rs)"

definition kernel_inv :: "dpa_ring_info set \<Rightarrow> dpa_state \<Rightarrow> bool" where
  "kernel_inv Rs s \<longleftrightarrow>
     thread_ok (thread_arg s) \<and> rings_in Rs (thread_arg s) \<and>
     unat (producer_deferred (thread_arg s)) < 512 \<and>
     (\<forall>cp. Dma_Copy cp \<in> set (events s) \<longrightarrow> (\<exists>ring \<in> Rs. copy_in_bounds ring cp))"

definition world_from :: "dpa_ring_info set \<Rightarrow> dpa_world \<Rightarrow> bool" where
  "world_from Rs w \<longleftrightarrow> (\<forall>t m. Some m \<in> set (inbound w t) \<longrightarrow> msg_ring m \<in> Rs)"

lemma kernel_inv_now [simp]: "kernel_inv Rs (s\<lparr>now := t\<rparr>) = kernel_inv Rs s"
  by (simp add: kernel_inv_def)

lemma kernel_inv_ctrl [simp]: "kernel_inv Rs (s\<lparr>ctrl_heads := c\<rparr>) = kernel_inv Rs s"
  by (simp add: kernel_inv_def)

lemma send_ring_ack_inv:
  assumes "send_ring_ack w ty pod gen status n s = (ok, s')" and "kernel_inv Rs s"
  shows "kernel_inv Rs s'"
  using assms(1)
  by (rule send_ring_ack_cases) (use assms(2) in \<open>auto simp: kernel_inv_def rings_in_def ring_ack_def\<close>)

lemma handle_dpu_msg_other:
  "msg_type m \<noteq> DPA_MSG_RING_ADD \<Longrightarrow> msg_type m \<noteq> DPA_MSG_RING_DEL \<Longrightarrow> handle_dpu_msg w m s = s"
  by (cases "msg_type m") (simp_all add: handle_dpu_msg_def Let_def)

lemma handle_dpu_msg_log:
  "(events (handle_dpu_msg w m s) = events s
      \<and> producer_deferred (thread_arg (handle_dpu_msg w m s)) = producer_deferred (thread_arg s))
    \<or> (\<exists>k. events (handle_dpu_msg w m s) = events s @ [Ring_Ack k]
      \<and> producer_deferred (thread_arg (handle_dpu_msg w m s)) = 0)"
  by (auto simp: handle_dpu_msg_def send_ring_ack_def Let_def install_frame remove_frame
      split: dpa_msg_type.splits prod.splits option.splits if_splits)

lemma handle_dpu_msg_inv:
  assumes "kernel_inv Rs s" and "msg_ring m \<in> Rs"
  shows "kernel_inv Rs (handle_dpu_msg w m s)"
proof -
  let ?s = "handle_dpu_msg w m s"
  have ok: "thread_ok (thread_arg s)" using assms(1) by (simp add: kernel_inv_def)
  have "thread_ok (thread_arg ?s) \<and> rings_in Rs (thread_arg ?s)"
  proof -
    have rs: "ring_table (thread_arg s) pod = Some (r, g, h) \<Longrightarrow> r \<in> Rs" for pod r g h
      using assms(1) unfolding kernel_inv_def rings_in_def by blast
    consider "msg_type m = DPA_MSG_RING_ADD" | "msg_type m = DPA_MSG_RING_DEL"
      | "msg_type m \<noteq> DPA_MSG_RING_ADD" "msg_type m \<noteq> DPA_MSG_RING_DEL" by blast
    then show ?thesis
    proof cases
      case 1
      from add_msg_table [OF ok 1, of w] rs assms(2) show ?thesis
        unfolding rings_in_def by (auto simp: ring_add_table_def split: if_splits)
    next
      case 2
      from del_msg_table(1) [OF ok 2, of w] rs show ?thesis unfolding rings_in_def by auto
    next
      case 3
      with assms(1) show ?thesis by (simp add: handle_dpu_msg_other kernel_inv_def)
    qed
  qed
  with handle_dpu_msg_log [of w m s] assms(1) show ?thesis
    unfolding kernel_inv_def by (auto simp: unat_eq_0)
qed

lemma handle_msg_list_inv:
  "kernel_inv Rs s \<Longrightarrow> \<forall>m. Some m \<in> set ms \<longrightarrow> msg_ring m \<in> Rs \<Longrightarrow>
     kernel_inv Rs (snd (handle_msg_list w ms s))"
  by (induction w ms s rule: handle_msg_list.induct)
    (auto simp: handle_dpu_msg_inv split: prod.splits)

lemma handle_msgs_inv: "kernel_inv Rs s \<Longrightarrow> world_from Rs w \<Longrightarrow> kernel_inv Rs (snd (handle_msgs w s))"
  unfolding handle_msgs_def by (rule handle_msg_list_inv) (auto simp: world_from_def)

lemma drain_completions_inv:
  "kernel_inv Rs s \<Longrightarrow> kernel_inv Rs (snd (drain_producer_completions w s))"
  by (simp add: drain_producer_completions_def)

lemma ring_table_nth:
  assumes "thread_ok a" and "r < num_rings a"
  shows "ring_table a (pod_id (rings a ! r)) = Some (rings a ! r, ring_generation a ! r, consumer_head a ! r)"
  using assms by (force simp: ring_table_def thread_ok_def ring_entries_def)

lemma rings_in_nth:
  assumes "thread_ok a"
  shows "rings_in Rs a \<longleftrightarrow> (\<forall>r < num_rings a. rings a ! r \<in> Rs)"
proof
  assume "rings_in Rs a"
  with ring_table_nth [OF assms] show "\<forall>r < num_rings a. rings a ! r \<in> Rs"
    by (fastforce simp: rings_in_def)
next
  assume *: "\<forall>r < num_rings a. rings a ! r \<in> Rs"
  show "rings_in Rs a"
    unfolding rings_in_def ring_table_def
  proof (intro allI impI)
    fix pod r g h
    assume "map_of (ring_entries a) pod = Some (r, g, h)"
    then have "(pod, r, g, h) \<in> set (ring_entries a)" by (rule map_of_SomeD)
    with * show "r \<in> Rs" by (auto simp: ring_entries_def)
  qed
qed

lemma head_update_keeps:
  assumes "thread_ok a" and a': "a' = a\<lparr>consumer_head := (consumer_head a)[r := h], producer_deferred := d\<rparr>"
  shows "thread_ok a' \<and> rings_in Rs a' = rings_in Rs a"
proof -
  have k: "map fst (ring_entries a') = map fst (ring_entries a)"
    by (simp add: a' ring_entries_def)
  have p: "pending_entries a' = pending_entries a" by (simp add: a' pending_entries_def)
  have ok: "thread_ok a'" using assms(1) unfolding thread_ok_def k p by (simp add: a')
  then show ?thesis by (simp add: rings_in_nth assms(1)) (simp add: a')
qed

lemma fwd_effect_inv:
  assumes "fwd_effect r k s s'" and "kernel_inv Rs s" and "r < num_rings (thread_arg s)"
  shows "kernel_inv Rs s' \<and> num_rings (thread_arg s') = num_rings (thread_arg s)"
proof -
  let ?a = "thread_arg s"
  from assms(2) have ok: "thread_ok ?a" and rs: "rings_in Rs ?a"
    and d: "unat (producer_deferred ?a) < 512"
    and cps: "Dma_Copy cp \<in> set (events s) \<Longrightarrow> \<exists>ring \<in> Rs. copy_in_bounds ring cp" for cp
    by (auto simp: kernel_inv_def)
  from rs assms(3) have R: "rings ?a ! r \<in> Rs" by (simp add: rings_in_nth [OF ok])
  from assms(1) obtain d' cps' where
    a': "thread_arg s' = ?a\<lparr>consumer_head := (consumer_head ?a)[r := consumer_head ?a ! r + of_nat k],
          producer_deferred := d'\<rparr>"
    and d': "unat d' < 512" and e: "events s' = events s @ map Dma_Copy cps'"
    and c: "\<forall>cp \<in> set cps'. copy_in_bounds (rings ?a ! r) cp"
    using d by (auto simp: fwd_effect_def)
  have "\<exists>ring \<in> Rs. copy_in_bounds ring cp" if "Dma_Copy cp \<in> set (events s')" for cp
    using that cps c R by (auto simp: e)
  with head_update_keeps [OF ok a', of Rs] rs d' show ?thesis
    by (simp add: kernel_inv_def) (simp add: a')
qed

lemma drain_pass_inv:
  assumes "drain_pass w budget rs calls found s = (calls', found', s')" and "kernel_inv Rs s"
    and "\<forall>r \<in> set rs. r < num_rings (thread_arg s)" and "calls \<le> budget"
  shows "kernel_inv Rs s' \<and> calls' \<le> budget"
  using assms
proof (induction rs arbitrary: calls found s)
  case (Cons r rs)
  show ?case
  proof (cases "budget - calls = 0")
    case False
    obtain k s1 where p: "process_fwd_ring w r (budget - calls) s = (k, s1)" by fastforce
    have "r < length (consumer_head (thread_arg s))"
      using Cons.prems(2,3) by (auto simp: kernel_inv_def thread_ok_def)
    with process_fwd_ring_effect [OF p] have k: "k \<le> budget - calls" and f: "fwd_effect r k s s1" by auto
    from fwd_effect_inv [OF f Cons.prems(2)] Cons.prems(3)
    have i: "kernel_inv Rs s1" and n: "num_rings (thread_arg s1) = num_rings (thread_arg s)" by auto
    show ?thesis
      using Cons.prems(1) False p k i n Cons.prems(3)
      by (auto simp: Let_def split: if_splits dest!: Cons.IH)
  qed (use Cons.prems in auto)
qed simp

lemma drain_loop_inv:
  "kernel_inv Rs s \<Longrightarrow> world_from Rs w \<Longrightarrow> calls \<le> budget \<Longrightarrow>
     kernel_inv Rs (snd (drain_loop w budget iter calls s)) \<and> fst (drain_loop w budget iter calls s) \<le> budget"
proof (induction w budget iter calls s rule: drain_loop.induct)
  case (1 w budget iter calls s)
  define s1 where "s1 = (if iter mod HANDLE_MSGS_EVERY = 0 then snd (handle_msgs w s) else s)"
  define s2 where "s2 = snd (drain_producer_completions w s1)"
  obtain calls' found s3 where
    d: "drain_pass w budget [0..<num_rings (thread_arg s2)] calls 0 s2 = (calls', found, s3)"
    by (metis prod_cases3)
  have "kernel_inv Rs s2"
    using 1 by (auto simp: s2_def s1_def intro: drain_completions_inv handle_msgs_inv)
  with drain_pass_inv [OF d] 1 have i: "kernel_inv Rs s3" "calls' \<le> budget" by auto
  show ?case
  proof (cases "calls' \<ge> budget \<or> found = 0")
    case True
    then show ?thesis using i d by (subst (1 2) drain_loop.simps) (auto simp: s1_def [symmetric] s2_def [symmetric] Let_def)
  next
    case False
    have "drain_loop w budget iter calls s = drain_loop w budget (iter + 1) calls' s3"
      using False d by (subst drain_loop.simps) (auto simp: s1_def [symmetric] s2_def [symmetric] Let_def)
    with 1(1) [OF s1_def s2_def d [symmetric] refl refl] False i 1(3) show ?thesis by simp
  qed
qed

section \<open>Retrying the fences\<close>

definition pend :: "dpa_thread_arg \<Rightarrow> nat \<Rightarrow> int \<times> u32" where
  "pend a j = (pending_del_pod a ! j, pending_del_generation a ! j)"

lemma pending_entries_pend: "pending_entries a = map (pend a) [0..<pending_del_n a]"
  by (simp add: pending_entries_def pend_def)

text \<open>
  The effect of the retry on the entries \<open>es\<close>: those in \<open>F\<close> are kept, in order, and each of
  the others has its ACK in the log.
\<close>

definition retry_effect :: "(int \<times> u32) list \<Rightarrow> (int \<times> u32) list \<Rightarrow> dpa_state \<Rightarrow> dpa_state \<Rightarrow> bool" where
  "retry_effect es F s s' \<longleftrightarrow>
     subseq F es \<and>
     ring_entries (thread_arg s') = ring_entries (thread_arg s) \<and>
     num_rings (thread_arg s') = num_rings (thread_arg s) \<and>
     rings (thread_arg s') = rings (thread_arg s) \<and>
     ring_generation (thread_arg s') = ring_generation (thread_arg s) \<and>
     consumer_head (thread_arg s') = consumer_head (thread_arg s) \<and>
     length (pending_del_pod (thread_arg s')) = length (pending_del_pod (thread_arg s)) \<and>
     length (pending_del_generation (thread_arg s')) = length (pending_del_generation (thread_arg s)) \<and>
     (producer_deferred (thread_arg s') = 0
        \<or> producer_deferred (thread_arg s') = producer_deferred (thread_arg s)) \<and>
     eu_index (thread_arg s') = eu_index (thread_arg s) \<and>
     (\<exists>acks. events s' = events s @ map Ring_Ack acks) \<and>
     (\<forall>e \<in> set es. e \<in> set F
        \<or> ring_ack DPA_MSG_RING_DEL_ACK (fst e) (snd e) DPA_RING_ACK_OK s \<in> set (events s'))"

lemma retry_effect_acked:
  assumes "send_ring_ack w DPA_MSG_RING_DEL_ACK (fst e) (snd e) DPA_RING_ACK_OK n s = (True, s1)"
    and "retry_effect es F s1 s'"
  shows "retry_effect (e # es) F s s'"
  using assms(1)
proof (rule send_ring_ack_cases)
  assume "thread_arg s1 = (thread_arg s)\<lparr>producer_deferred := 0\<rparr>"
    and "events s1 = events s @ [ring_ack DPA_MSG_RING_DEL_ACK (fst e) (snd e) DPA_RING_ACK_OK s]"
  with assms(2) show ?thesis
    by (auto simp: retry_effect_def ring_ack_def intro: list_emb.intros)
      (metis append_Cons append_Nil list.simps(9))+
qed simp

lemma retry_effect_kept:
  assumes "send_ring_ack w ty pod gen st n s = (False, s1)"
    and "retry_effect es F (s1\<lparr>thread_arg := (thread_arg s1)\<lparr>pending_del_pod := ps, pending_del_generation := gs\<rparr>\<rparr>) s'"
    and "length ps = length (pending_del_pod (thread_arg s))"
    and "length gs = length (pending_del_generation (thread_arg s))"
  shows "retry_effect (e # es) (e # F) s s'"
  using assms(1)
proof (rule send_ring_ack_cases)
  assume "thread_arg s1 = thread_arg s" and "events s1 = events s"
  with assms(2-) show ?thesis
    by (auto simp: retry_effect_def ring_ack_def ring_entries_def)
qed simp

lemma retry_from_effect:
  assumes "kept \<le> i" and "i \<le> n"
    and "n \<le> length (pending_del_pod (thread_arg s))" "n \<le> length (pending_del_generation (thread_arg s))"
  shows "\<exists>F. retry_effect (map (pend (thread_arg s)) [i..<n]) F s (pending_del_retry_from w [i..<n] kept s)
    \<and> pending_entries (thread_arg (pending_del_retry_from w [i..<n] kept s))
        = map (pend (thread_arg s)) [0..<kept] @ F"
  using assms
proof (induction "n - i" arbitrary: i kept s)
  case 0
  then show ?case
    by (intro exI [of _ "[]"]) (simp add: retry_effect_def pending_entries_def pend_def ring_entries_def)
next
  case (Suc k)
  let ?a = "thread_arg s"
  from Suc.hyps(2) have upt: "[i..<n] = i # [Suc i..<n]" by (simp add: upt_conv_Cons)
  obtain ok s1 where r: "send_ring_ack w DPA_MSG_RING_DEL_ACK (pending_del_pod ?a ! i)
      (pending_del_generation ?a ! i) DPA_RING_ACK_OK RING_ACK_PROBE_ONLY s = (ok, s1)" by fastforce
  show ?case
  proof (cases ok)
    case True
    with r have a1: "thread_arg s1 = ?a\<lparr>producer_deferred := 0\<rparr>" by (auto elim: send_ring_ack_cases)
    have p: "pend (?a\<lparr>producer_deferred := 0\<rparr>) = pend ?a" by (simp add: fun_eq_iff pend_def)
    have "k = n - Suc i" "Suc i \<le> n" using Suc.hyps(2) by auto
    with Suc.hyps(1) [of "Suc i" kept s1] Suc.prems obtain F where
      F: "retry_effect (map (pend ?a) [Suc i..<n]) F s1 (pending_del_retry_from w [Suc i..<n] kept s1)"
      "pending_entries (thread_arg (pending_del_retry_from w [Suc i..<n] kept s1))
        = map (pend ?a) [0..<kept] @ F"
      by (auto simp: a1 p)
    have "send_ring_ack w DPA_MSG_RING_DEL_ACK (fst (pend ?a i)) (snd (pend ?a i)) DPA_RING_ACK_OK
        RING_ACK_PROBE_ONLY s = (True, s1)" using r True by (simp add: pend_def)
    from retry_effect_acked [OF this F(1)] F(2) r True upt show ?thesis
      by (intro exI [of _ F]) (simp add: Let_def)
  next
    case False
    with r have a1: "thread_arg s1 = ?a" by (auto elim: send_ring_ack_cases)
    let ?ps = "(pending_del_pod ?a)[kept := pending_del_pod ?a ! i]"
    let ?gs = "(pending_del_generation ?a)[kept := pending_del_generation ?a ! i]"
    let ?s2 = "s1\<lparr>thread_arg := ?a\<lparr>pending_del_pod := ?ps, pending_del_generation := ?gs\<rparr>\<rparr>"
    have p1: "map (pend (thread_arg ?s2)) [Suc i..<n] = map (pend ?a) [Suc i..<n]"
      using Suc.prems by (simp add: pend_def)
    have p2: "map (pend (thread_arg ?s2)) [0..<Suc kept] = map (pend ?a) [0..<kept] @ [pend ?a i]"
      using Suc.prems Suc.hyps(2) by (simp add: pend_def)
    have "k = n - Suc i" "Suc i \<le> n" using Suc.hyps(2) by auto
    with Suc.hyps(1) [of "Suc i" "Suc kept" ?s2] Suc.prems obtain F where
      F0: "retry_effect (map (pend (thread_arg ?s2)) [Suc i..<n]) F ?s2
          (pending_del_retry_from w [Suc i..<n] (Suc kept) ?s2)"
        "pending_entries (thread_arg (pending_del_retry_from w [Suc i..<n] (Suc kept) ?s2))
          = map (pend (thread_arg ?s2)) [0..<Suc kept] @ F" by auto
    note F = F0 [unfolded p1 p2]
    from F(1) have F1: "retry_effect (pend ?a i # map (pend ?a) [Suc i..<n]) (pend ?a i # F) s
        (pending_del_retry_from w [Suc i..<n] (Suc kept) ?s2)"
      using r False a1 by (intro retry_effect_kept [where ps = ?ps and gs = ?gs]) auto
    have "pending_del_retry_from w [i..<n] kept s = pending_del_retry_from w [Suc i..<n] (Suc kept) ?s2"
      using r False a1 upt by (simp add: Let_def)
    with F1 F(2) upt show ?thesis by (intro exI [of _ "pend ?a i # F"]) simp
  qed
qed

lemma pending_del_retry_effect:
  assumes "thread_ok (thread_arg s)"
  shows "retry_effect (pending_entries (thread_arg s)) (pending_entries (thread_arg (pending_del_retry w s)))
    s (pending_del_retry w s)"
  using retry_from_effect [of 0 0 "pending_del_n (thread_arg s)" s w] assms
  by (auto simp: pending_del_retry_def pending_entries_pend thread_ok_def)

lemma subseq_distinct_fst: "subseq xs ys \<Longrightarrow> distinct (map fst ys) \<Longrightarrow> distinct (map fst xs)"
proof (induction rule: list_emb.induct)
  case (list_emb_Cons2 x y xs ys)
  then have "set xs \<subseteq> set ys" by (auto dest: list_emb_set)
  with list_emb_Cons2 show ?case by auto
qed auto

lemma retry_ok:
  assumes "kernel_inv Rs s"
  shows "kernel_inv Rs (pending_del_retry w s)
    \<and> num_rings (thread_arg (pending_del_retry w s)) = num_rings (thread_arg s)"
proof -
  let ?s = "pending_del_retry w s"
  from assms have ok: "thread_ok (thread_arg s)" by (simp add: kernel_inv_def)
  note e = pending_del_retry_effect [OF ok, of w, unfolded retry_effect_def]
  from e list_emb_length have "length (pending_entries (thread_arg ?s)) \<le> length (pending_entries (thread_arg s))"
    by blast
  then have n: "pending_del_n (thread_arg ?s) \<le> pending_del_n (thread_arg s)"
    by (simp add: pending_entries_def)
  from e subseq_distinct_fst ok have "distinct (map fst (pending_entries (thread_arg ?s)))"
    by (auto simp: thread_ok_def)
  with e n ok have ok': "thread_ok (thread_arg ?s)" by (auto simp: thread_ok_def)
  with assms ok e have "rings_in Rs (thread_arg ?s)" by (simp add: kernel_inv_def rings_in_nth)
  with assms ok' e show ?thesis unfolding kernel_inv_def by auto
qed

section \<open>Releasing the unit\<close>

lemma park_loop_unfold:
  assumes "handle_msgs w s = (msgs, s1)" and "drain_producer_completions w s1 = (comps, s2)"
  shows "park_loop w s = (if has_work s2 then Some (Resumed, s2)
         else if msgs = 0 \<and> comps = 0 then Some (Parked, s2) else park_loop w s2)"
  by (subst park_loop.simps) (simp add: assms Let_def)

definition idle_rescan :: "dpa_world \<Rightarrow> dpa_state \<Rightarrow> dpa_state \<Rightarrow> bool" where
  "idle_rescan w t s' \<longleftrightarrow>
     fst (handle_msgs w t) = 0 \<and> drain_producer_completions w (snd (handle_msgs w t)) = (0, s')
     \<and> \<not> has_work s'"

definition park_post :: "dpa_ring_info set \<Rightarrow> dpa_world \<Rightarrow> dpa_state \<Rightarrow> release \<times> dpa_state \<Rightarrow> bool" where
  "park_post Rs w s r \<longleftrightarrow>
     (kernel_inv Rs s \<longrightarrow> world_from Rs w \<longrightarrow> kernel_inv Rs (snd r)) \<and> fst r \<noteq> Yielded
     \<and> (fst r = Parked \<longrightarrow> (\<exists>t. idle_rescan w t (snd r)))"

lemma park_turn_post:
  assumes "(let (msgs, s1) = handle_msgs w s; (comps, s2) = drain_producer_completions w s1
      in if has_work s2 then Some (Resumed, s2)
         else if msgs = 0 \<and> comps = 0 then Some (Parked, s2) else f w s2) = Some r"
    and "\<And>s. f w s = Some r \<Longrightarrow> park_post Rs w s r"
  shows "park_post Rs w s r"
proof -
  obtain msgs s1 where m: "handle_msgs w s = (msgs, s1)" by fastforce
  obtain comps s2 where c: "drain_producer_completions w s1 = (comps, s2)" by fastforce
  have i: "kernel_inv Rs s \<longrightarrow> world_from Rs w \<longrightarrow> kernel_inv Rs s2"
    using handle_msgs_inv [of Rs s w] drain_completions_inv [of Rs s1 w] m c by simp
  have e: "(if has_work s2 then Some (Resumed, s2)
      else if msgs = 0 \<and> comps = 0 then Some (Parked, s2) else f w s2) = Some r"
    using assms(1) by (simp add: m c Let_def)
  consider "has_work s2" | "\<not> has_work s2" "msgs = 0 \<and> comps = 0"
    | "\<not> has_work s2" "\<not> (msgs = 0 \<and> comps = 0)" by blast
  then show ?thesis
  proof cases
    case 1
    with e have "r = (Resumed, s2)" by simp
    with i show ?thesis by (simp add: park_post_def)
  next
    case 2
    with e have "r = (Parked, s2)" by simp
    moreover from 2 have "idle_rescan w s s2" by (simp add: idle_rescan_def m c)
    then have "\<exists>t. idle_rescan w t s2" by blast
    ultimately show ?thesis using i by (simp add: park_post_def)
  next
    case 3
    with e have "f w s2 = Some r" by (simp split: if_splits)
    from assms(2) [OF this] i show ?thesis unfolding park_post_def by blast
  qed
qed

lemma park_loop_post: "park_loop w s = Some r \<Longrightarrow> park_post Rs w s r"
  by (rule park_loop.raw_induct [where P = "park_post Rs"]) (rule park_turn_post)

lemma ack_wait_later: "t < snd (ack_wait w n t)"
  by (induction w n t rule: ack_wait.induct) (subst ack_wait.simps, auto)

lemma send_ring_ack_later: "now s \<le> now (snd (send_ring_ack w ty pod gen st n s))"
  using ack_wait_later [of "now s" w n]
  by (auto simp: send_ring_ack_def Let_def split: prod.splits)

lemma handle_dpu_msg_later: "now s \<le> now (handle_dpu_msg w m s)"
proof -
  have "now s \<le> now (snd (send_ring_ack w ty pod gen st n (s\<lparr>thread_arg := a\<rparr>)))" for ty pod gen st n a
    using send_ring_ack_later [of "s\<lparr>thread_arg := a\<rparr>"] by simp
  moreover have "now s \<le> now s'" if "send_ring_ack w ty pod gen st n (s\<lparr>thread_arg := a\<rparr>) = (ok, s')"
    for ty pod gen st n a ok s'
    using send_ring_ack_later [of "s\<lparr>thread_arg := a\<rparr>" w ty pod gen st n] that by simp
  ultimately show ?thesis
    using send_ring_ack_later [of s]
    by (cases "msg_type m") (auto simp: handle_dpu_msg_def Let_def split: prod.splits)
qed

lemma handle_msg_list_later: "now s \<le> now (snd (handle_msg_list w ms s))"
  by (induction w ms s rule: handle_msg_list.induct)
    (auto split: prod.splits intro: le_trans [OF handle_dpu_msg_later])

lemma park_loop_quiet:
  assumes "\<And>t. t \<ge> T \<Longrightarrow> inbound w t = [] \<and> completions w t = 0"
  shows "\<exists>r. park_loop w s = Some r"
proof (induction "T - now s" arbitrary: s rule: less_induct)
  case less
  obtain msgs s1 where m: "handle_msgs w s = (msgs, s1)" by fastforce
  obtain comps s2 where c: "drain_producer_completions w s1 = (comps, s2)" by fastforce
  have "Suc (now s) \<le> now s1"
    using handle_msg_list_later [of "s\<lparr>now := now s + 1\<rparr>" w "inbound w (now s)"] m
    by (simp add: handle_msgs_def)
  with c have later: "now s < now s1" "now s < now s2" by (auto simp: drain_producer_completions_def)
  show ?case
  proof (cases "T \<le> now s")
    case True
    with assms m c later have "msgs = 0" "comps = 0"
      by (auto simp: handle_msgs_def drain_producer_completions_def)
    then show ?thesis by (simp add: park_loop_unfold [OF m c])
  next
    case False
    with less [of s2] later show ?thesis by (auto simp: park_loop_unfold [OF m c])
  qed
qed

lemma park_or_yield_post:
  assumes "park_or_yield w s = Some (e, s')" and "kernel_inv Rs s" and "world_from Rs w"
  shows "kernel_inv Rs s'"
  using assms retry_ok [OF assms(2), of w] park_loop_post [of w "pending_del_retry w s" "(e, s')" Rs]
  by (auto simp: park_or_yield_def park_post_def Let_def split: if_splits)

lemma manager_turn_inv:
  assumes "run_dma_manager_turn w (i, c, s) = Some (e, i', c', s')"
    and "kernel_inv Rs s" and "world_from Rs w"
  shows "kernel_inv Rs s'"
proof -
  define s1 where "s1 = snd (handle_msgs w s)"
  define budget where "budget = unat (dpa_reschedule_budget c (producer_deferred (thread_arg s1)))"
  obtain k s2 where d: "drain_all_rings w budget s1 = (k, s2)" by fastforce
  have "kernel_inv Rs s1" unfolding s1_def by (rule handle_msgs_inv [OF assms(2,3)])
  with drain_loop_inv [of Rs s1 w 0 budget 0] assms(3) d have i2: "kernel_inv Rs s2"
    by (simp add: drain_all_rings_def)
  note p = park_or_yield_post [OF _ i2 assms(3)]
  show ?thesis
    using assms(1) i2 p
    unfolding run_dma_manager_turn_def
    by (auto simp: s1_def [symmetric] budget_def [symmetric] d Let_def drain_completions_inv
        split: if_splits option.splits prod.splits)
qed

text \<open>
  C1. Memory safety against the workload. Whatever the host process writes into its descriptors,
  and however those change between reads, every copy the thread posts in a turn of its loop lies
  within the host buffer and the DPU staging buffer of a ring that the ARM side installed, starts
  on a 128-byte boundary, has a positive whole number of 128-byte lines of at most 8 KiB, and
  covers the bytes that its completion message announces.
\<close>

theorem manager_turn_copies_in_bounds:
  assumes "thread_ok (thread_arg s)" and "\<forall>r < num_rings (thread_arg s). rings (thread_arg s) ! r \<in> Rs"
    and "unat (producer_deferred (thread_arg s)) < 512" and "events s = []"
    and "\<forall>t m. Some m \<in> set (inbound w t) \<longrightarrow> msg_ring m \<in> Rs"
    and "run_dma_manager_turn w (idle_spins, completed, s) = Some (e, idle', completed', s')"
  shows "thread_ok (thread_arg s')
    \<and> (\<forall>cp. Dma_Copy cp \<in> set (events s') \<longrightarrow> (\<exists>ring \<in> Rs. copy_in_bounds ring cp))"
proof -
  have "kernel_inv Rs s" using assms by (simp add: kernel_inv_def rings_in_nth)
  with manager_turn_inv [OF assms(6)] assms(5) show ?thesis
    by (auto simp: world_from_def kernel_inv_def)
qed

lemma demo_world_answers:
  "handle_msgs demo_world s = (0, s\<lparr>now := now s + 1\<rparr>)"
  "drain_producer_completions demo_world s = (0, s\<lparr>now := now s + 1\<rparr>)"
  "host_desc demo_world t b j = demo_desc"
  "consumer_empty demo_world t = False"
  by (simp_all add: handle_msgs_def drain_producer_completions_def demo_world_def)

lemma demo_desc_accepted:
  "desc_publish_seq demo_desc = 1" "\<not> DPA_DMA_COPY_MAX < desc_size demo_desc"
  "\<not> fwd_span_refused demo_ring (desc_addr demo_desc) (desc_size demo_desc)"
  by (simp_all add: fwd_span_refused_def fwd_chunk_def dpa_dma_aligned_copy_len_def
      dpa_dma_copy_prefix_def Let_def dmesh_const demo_ring_def demo_desc_def)

lemma demo_turn:
  "\<exists>s'. run_dma_manager_turn demo_world (0, 65535, demo_state) = Some (None, 0, 65536, s')
   \<and> events s' = [Dma_Copy (fwd_copy demo_ring 5 True demo_desc)]"
  unfolding run_dma_manager_turn_def demo_state_def demo_arg_def
  by (simp add: demo_world_answers demo_desc_accepted drain_all_rings_def drain_loop.simps
      dpa_reschedule_budget_def DPA_RESCHEDULE_DMA_QUANTUM_def HANDLE_MSGS_EVERY_def RING_BATCH_CAP_def process_fwd_ring_def
      post_fwd_copy_def advance_head_def dpa_producer_report_due_def dpa_reschedule_due_def DPA_PRODUCER_REPORT_BATCH_def Let_def)

theorem manager_turn_copies_in_bounds_witness:
  "\<exists>s' cp. run_dma_manager_turn demo_world (0, 65535, demo_state) = Some (None, 0, 65536, s')
     \<and> Dma_Copy cp \<in> set (events s') \<and> copy_in_bounds demo_ring cp"
proof -
  obtain s' where t: "run_dma_manager_turn demo_world (0, 65535, demo_state) = Some (None, 0, 65536, s')"
    and e: "events s' = [Dma_Copy (fwd_copy demo_ring 5 True demo_desc)]"
    using demo_turn by blast
  have h: "thread_ok (thread_arg demo_state)"
    "\<forall>r < num_rings (thread_arg demo_state). rings (thread_arg demo_state) ! r \<in> {demo_ring}"
    "unat (producer_deferred (thread_arg demo_state)) < 512" "events demo_state = []"
    "\<forall>t m. Some m \<in> set (inbound demo_world t) \<longrightarrow> msg_ring m \<in> {demo_ring}"
    by (auto simp: demo_state_def demo_arg_ok) (simp_all add: demo_arg_def demo_world_def)
  from manager_turn_copies_in_bounds [OF h t] t e show ?thesis by auto
qed

text \<open>
  C16. A drain ends, and within its budget: \<open>drain_all_rings\<close> is total, takes at most \<open>budget\<close>
  descriptors over all rings and keeps the thread's invariant, whatever messages arrive meanwhile.
\<close>

theorem drain_all_rings_within_budget:
  assumes "kernel_inv Rs s" and "world_from Rs w"
  shows "fst (drain_all_rings w budget s) \<le> budget \<and> kernel_inv Rs (snd (drain_all_rings w budget s))"
  using drain_loop_inv [OF assms, of 0 budget 0] by (simp add: drain_all_rings_def)

theorem drain_all_rings_within_budget_witness:
  "kernel_inv {demo_ring} demo_state \<and> world_from {demo_ring} demo_world
    \<and> fst (drain_all_rings demo_world 1 demo_state) \<le> 1"
proof -
  have "kernel_inv {demo_ring} demo_state"
    by (simp add: kernel_inv_def demo_state_def demo_arg_ok rings_in_nth [OF demo_arg_ok])
      (simp add: demo_arg_def)
  moreover have "world_from {demo_ring} demo_world" by (simp add: world_from_def demo_world_def)
  ultimately show ?thesis using drain_all_rings_within_budget by blast
qed

text \<open>
  C17. No lost wake-up: the thread releases its unit without a pending wake-up only after arming
  its notifications and then finding, in one full rescan, no control message, no completion, no
  ring and no unacknowledged removal.
\<close>

theorem park_only_when_idle:
  assumes "park_or_yield w s = Some (Parked, s')"
  shows "num_rings (thread_arg s') = 0 \<and> pending_del_n (thread_arg s') = 0
    \<and> (\<exists>t. fst (handle_msgs w t) = 0 \<and> drain_producer_completions w (snd (handle_msgs w t)) = (0, s'))"
proof -
  from assms have "park_loop w (pending_del_retry w s) = Some (Parked, s')"
    by (auto simp: park_or_yield_def Let_def split: if_splits)
  from park_loop_post [OF this, of UNIV] show ?thesis
    by (auto simp: park_post_def idle_rescan_def has_work_def)
qed

definition idle_state :: dpa_state where
  "idle_state = demo_state\<lparr>thread_arg := demo_arg\<lparr>num_rings := 0\<rparr>\<rparr>"

theorem park_only_when_idle_witness:
  "\<exists>s'. park_or_yield demo_world idle_state = Some (Parked, s') \<and> num_rings (thread_arg s') = 0"
proof -
  have "\<exists>s'. park_or_yield demo_world idle_state = Some (Parked, s')"
    by (simp add: park_or_yield_def pending_del_retry_def idle_state_def demo_state_def demo_arg_def
        has_work_def park_loop.simps demo_world_answers Let_def)
  with park_only_when_idle show ?thesis by blast
qed

text \<open>
  C18. The decision to release the unit is always reached once the outside goes quiet: if from some
  access on no message and no completion arrives, \<open>park_or_yield\<close> returns.
\<close>

theorem park_or_yield_returns:
  assumes "\<forall>t \<ge> T. inbound w t = [] \<and> completions w t = 0"
  shows "\<exists>r. park_or_yield w s = Some r"
  using park_loop_quiet [of T w "pending_del_retry w s"] assms
  by (auto simp: park_or_yield_def Let_def)

theorem park_or_yield_returns_witness:
  "inbound demo_world = (\<lambda>_. []) \<and> completions demo_world = (\<lambda>_. 0)
     \<and> (\<exists>r. park_or_yield demo_world demo_state = Some r)"
proof -
  have q: "\<forall>t \<ge> 0. inbound demo_world t = [] \<and> completions demo_world t = 0"
    by (simp add: demo_world_def)
  from park_or_yield_returns [OF q] show ?thesis by (simp add: demo_world_def)
qed

section \<open>Dropped descriptors and the reschedule quantum\<close>

text \<open>The log only grows, and the deferred-report count changes only together with it.\<close>

definition log_step :: "dpa_state \<Rightarrow> dpa_state \<Rightarrow> bool" where
  "log_step s s' \<longleftrightarrow>
     (\<exists>ev. events s' = events s @ ev
        \<and> (ev = [] \<longrightarrow> producer_deferred (thread_arg s') = producer_deferred (thread_arg s)))"

lemma log_step_refl: "events s' = events s \<Longrightarrow> thread_arg s' = thread_arg s \<Longrightarrow> log_step s s'"
  by (simp add: log_step_def)

lemma log_step_trans: "log_step s t \<Longrightarrow> log_step t u \<Longrightarrow> log_step s u"
  unfolding log_step_def by (metis append_assoc append_is_Nil_conv)

lemma log_step_same:
  assumes "log_step s t" and "log_step t u" and "events u = events s"
  shows "events t = events s \<and> producer_deferred (thread_arg t) = producer_deferred (thread_arg s)"
proof -
  from assms(1) obtain e1 where e1: "events t = events s @ e1"
    "e1 = [] \<longrightarrow> producer_deferred (thread_arg t) = producer_deferred (thread_arg s)"
    unfolding log_step_def by blast
  from assms(2) obtain e2 where "events u = events t @ e2" unfolding log_step_def by blast
  with e1 assms(3) show ?thesis by simp
qed

lemma handle_dpu_msg_log_step: "log_step s (handle_dpu_msg w m s)"
  using handle_dpu_msg_log [of w m s] unfolding log_step_def by auto

lemma handle_msg_list_log_step: "log_step s (snd (handle_msg_list w ms s))"
proof (induction w ms s rule: handle_msg_list.induct)
  case (3 w m ms s)
  then show ?case
    using log_step_trans [OF handle_dpu_msg_log_step [of s w m]] by (auto split: prod.splits)
qed (simp_all add: log_step_refl)

lemma handle_msgs_log_step: "log_step s (snd (handle_msgs w s))"
  using handle_msg_list_log_step [of "s\<lparr>now := now s + 1\<rparr>"] by (simp add: handle_msgs_def log_step_def)

lemma fwd_effect_log_step:
  assumes "fwd_effect r k s s'"
  shows "log_step s s'"
proof -
  from assms obtain d cps where "events s' = events s @ map Dma_Copy cps"
    "producer_deferred (thread_arg s') = d" "cps = [] \<longrightarrow> d = producer_deferred (thread_arg s)"
    by (auto simp: fwd_effect_def)
  then show ?thesis by (simp add: log_step_def)
qed

lemma drain_pass_log_step:
  assumes "drain_pass w budget rs calls found s = (calls', found', s')"
    and "kernel_inv Rs s" and "\<forall>r \<in> set rs. r < num_rings (thread_arg s)"
  shows "log_step s s'"
  using assms
proof (induction rs arbitrary: calls found s)
  case Nil
  then show ?case by (simp add: log_step_refl)
next
  case (Cons r rs)
  show ?case
  proof (cases "budget - calls = 0")
    case True
    with Cons.prems show ?thesis by (simp add: log_step_refl)
  next
    case False
    obtain k s1 where p: "process_fwd_ring w r (budget - calls) s = (k, s1)" by fastforce
    have "r < length (consumer_head (thread_arg s))"
      using Cons.prems(2,3) by (auto simp: kernel_inv_def thread_ok_def)
    with process_fwd_ring_effect [OF p] have f: "fwd_effect r k s s1" by auto
    from fwd_effect_inv [OF f Cons.prems(2)] Cons.prems(3)
    have i: "kernel_inv Rs s1" and n: "num_rings (thread_arg s1) = num_rings (thread_arg s)" by auto
    define s2 where "s2 = (if k > 0 then s1\<lparr>ctrl_heads := (ctrl_heads s1)
        (buf_arr (rings (thread_arg s1) ! r) := consumer_head (thread_arg s1) ! r)\<rparr> else s1)"
    have "drain_pass w budget rs (calls + k) (if k > 0 then found + 1 else found) s2 = (calls', found', s')"
      using Cons.prems(1) False p by (simp add: s2_def Let_def split: if_splits)
    from Cons.IH [OF this] i n Cons.prems(3) have "log_step s2 s'" by (auto simp: s2_def)
    then have "log_step s1 s'" by (simp add: s2_def log_step_def split: if_splits)
    with fwd_effect_log_step [OF f] show ?thesis by (rule log_step_trans)
  qed
qed

lemma drain_loop_log_step:
  "kernel_inv Rs s \<Longrightarrow> world_from Rs w \<Longrightarrow> calls \<le> budget \<Longrightarrow>
     log_step s (snd (drain_loop w budget iter calls s))"
proof (induction w budget iter calls s rule: drain_loop.induct)
  case (1 w budget iter calls s)
  define s1 where "s1 = (if iter mod HANDLE_MSGS_EVERY = 0 then snd (handle_msgs w s) else s)"
  define s2 where "s2 = snd (drain_producer_completions w s1)"
  obtain calls' found s3 where
    d: "drain_pass w budget [0..<num_rings (thread_arg s2)] calls 0 s2 = (calls', found, s3)"
    by (metis prod_cases3)
  have i2: "kernel_inv Rs s2"
    using 1 by (auto simp: s2_def s1_def intro: drain_completions_inv handle_msgs_inv)
  have "log_step s s2"
    using handle_msgs_log_step [of s w]
    by (auto simp: s2_def s1_def drain_producer_completions_def log_step_def)
  with drain_pass_log_step [OF d i2] have l: "log_step s s3" by (auto intro: log_step_trans)
  from drain_pass_inv [OF d i2] 1(4) have i: "kernel_inv Rs s3" "calls' \<le> budget" by auto
  show ?case
  proof (cases "calls' \<ge> budget \<or> found = 0")
    case True
    then have "drain_loop w budget iter calls s = (calls', s3)"
      using d by (subst drain_loop.simps) (auto simp: s1_def [symmetric] s2_def [symmetric] Let_def)
    with l show ?thesis by simp
  next
    case False
    have "drain_loop w budget iter calls s = drain_loop w budget (iter + 1) calls' s3"
      using False d by (subst drain_loop.simps) (auto simp: s1_def [symmetric] s2_def [symmetric] Let_def)
    with 1(1) [OF s1_def s2_def d [symmetric] refl refl] False i 1(3) l show ?thesis
      by (auto intro: log_step_trans)
  qed
qed

text \<open>
  C21. Dropped descriptors do not count towards the batch whose report lets the unit go: while one
  completion report is deferred, a turn in which the drain takes descriptors but posts nothing,
  because each of them is refused, never releases the unit, however large the completed count is,
  and leaves the deferred count as it was, so the next turn starts from the same situation.
\<close>

theorem dropped_only_turn_keeps_unit:
  assumes "kernel_inv Rs s" and "world_from Rs w" and "producer_deferred (thread_arg s) \<noteq> 0"
    and "s1 = snd (handle_msgs w s)"
    and "drain_all_rings w (unat (dpa_reschedule_budget completed (producer_deferred (thread_arg s1)))) s1 = (k, s2)"
    and "0 < k" and "events s2 = events s"
  shows "\<exists>completed' s'. run_dma_manager_turn w (idle_spins, completed, s) = Some (None, 0, completed', s')
    \<and> producer_deferred (thread_arg s') = producer_deferred (thread_arg s) \<and> events s' = events s"
proof -
  have i1: "kernel_inv Rs s1" using handle_msgs_inv assms by simp
  have "log_step s s1" using handle_msgs_log_step assms(4) by simp
  moreover have "log_step s1 s2"
    using drain_loop_log_step [OF i1 assms(2), of 0 _ 0] assms(5) by (metis drain_all_rings_def le0 snd_conv)
  ultimately have "log_step s s2" by (rule log_step_trans)
  then have d: "producer_deferred (thread_arg s2) = producer_deferred (thread_arg s)"
    using assms(7) log_step_same [of s s2 s2] log_step_refl by blast
  then have "fst (dpa_reschedule_due completed (of_nat k) (producer_deferred (thread_arg s2))) = False"
    using assms(3) by (simp add: dpa_reschedule_due_def Let_def)
  with assms d show ?thesis
    by (auto simp: run_dma_manager_turn_def drain_producer_completions_def Let_def split: prod.splits)
qed

definition drop_world :: dpa_world where
  "drop_world = demo_world\<lparr>host_desc := \<lambda>_ _ _. demo_desc\<lparr>desc_size := 9000\<rparr>\<rparr>"

definition drop_state :: dpa_state where
  "drop_state = demo_state\<lparr>thread_arg := demo_arg\<lparr>producer_deferred := 511\<rparr>\<rparr>"

lemma drop_world_answers:
  "handle_msgs drop_world s = (0, s\<lparr>now := now s + 1\<rparr>)"
  "drain_producer_completions drop_world s = (0, s\<lparr>now := now s + 1\<rparr>)"
  "desc_publish_seq (host_desc drop_world t b j) = 1"
  "DPA_DMA_COPY_MAX < desc_size (host_desc drop_world t b j)"
  by (simp_all add: handle_msgs_def drain_producer_completions_def drop_world_def demo_world_def
      demo_desc_def dmesh_const)

lemma drop_drain:
  "\<exists>s2. drain_all_rings drop_world 1 (drop_state\<lparr>now := 1\<rparr>) = (1, s2) \<and> events s2 = []"
  unfolding drop_state_def demo_state_def demo_arg_def
  by (simp add: drop_world_answers drain_all_rings_def drain_loop.simps process_fwd_ring_def
      HANDLE_MSGS_EVERY_def RING_BATCH_CAP_def advance_head_def Let_def)

theorem dropped_only_turn_keeps_unit_witness:
  "\<exists>completed' s'. run_dma_manager_turn drop_world (0, 65536, drop_state) = Some (None, 0, completed', s')
     \<and> producer_deferred (thread_arg s') = 511 \<and> events s' = []"
proof -
  have a: "thread_arg drop_state = demo_arg\<lparr>producer_deferred := 511\<rparr>" "events drop_state = []"
    "now drop_state = 0" by (simp_all add: drop_state_def demo_state_def)
  have ok: "thread_ok (thread_arg drop_state)" by (simp add: a demo_arg_ok)
  have i: "kernel_inv {demo_ring} drop_state"
    by (simp add: kernel_inv_def rings_in_nth [OF ok] ok) (simp add: a demo_arg_def)
  have w: "world_from {demo_ring} drop_world"
    by (simp add: world_from_def drop_world_def demo_world_def)
  have s1: "drop_state\<lparr>now := 1\<rparr> = snd (handle_msgs drop_world drop_state)"
    by (simp add: drop_world_answers a)
  obtain s2 where "drain_all_rings drop_world 1 (drop_state\<lparr>now := 1\<rparr>) = (1, s2)" "events s2 = []"
    using drop_drain by blast
  with dropped_only_turn_keeps_unit [OF i w _ s1, of 65536 1 s2 0] show ?thesis
    by (simp add: a dpa_reschedule_budget_def dmesh_const)
qed

end
