(* ===== verification/Block_Pool.thy ===== *)
theory Block_Pool
  imports Interfaces
begin

text \<open>
  The shared pool of TX blocks of \<^verbatim>\<open>src/core/dmesh_core.c\<close>: a Treiber stack whose 64-bit top word
  packs a tag and the index of the first free block. First the operations as one thread runs them,
  with the packed word, as an instance of the index-pool interface; then the compare-and-exchange
  loops of many threads as interleaved atomic steps, where the tag rules out that a block is handed
  out twice.
\<close>

unbundle bit_operations_syntax

section \<open>The pool\<close>

record block_pool =
  n_blocks :: nat
  block_free :: u64
  block_next :: "u32 list"

definition pack_top :: "u64 \<Rightarrow> u32 \<Rightarrow> u64" where
  "pack_top old head = push_bit 32 (drop_bit 32 old + 1) OR ucast head"

definition top_head :: "u64 \<Rightarrow> u32" where
  "top_head old = ucast (old AND 0xFFFFFFFF)"

definition block_pool_grab :: "block_pool \<Rightarrow> (nat \<times> block_pool) option" where
  "block_pool_grab p =
     (let old = block_free p; head = top_head old
      in if unat head \<ge> n_blocks p then None
         else Some (unat head, p\<lparr>block_free := pack_top old (block_next p ! unat head)\<rparr>))"

definition block_pool_push :: "nat \<Rightarrow> block_pool \<Rightarrow> block_pool" where
  "block_pool_push i p =
     (if i \<ge> n_blocks p then p
      else let old = block_free p
           in p\<lparr>block_next := (block_next p)[i := top_head old],
                block_free := pack_top old (of_nat i)\<rparr>)"

definition block_pool_init :: "nat \<Rightarrow> block_pool" where
  "block_pool_init n = \<lparr>n_blocks = n, block_free = 0, block_next = map (\<lambda>i. of_nat (i + 1)) [0..<n]\<rparr>"

section \<open>The pool as an index pool\<close>

definition pool_links :: "block_pool \<Rightarrow> nat \<Rightarrow> nat" where
  "pool_links p i = unat (block_next p ! i)"

definition pool_nil :: "block_pool \<Rightarrow> nat \<Rightarrow> bool" where
  "pool_nil p i \<longleftrightarrow> i \<ge> n_blocks p"

definition free_blocks :: "block_pool \<Rightarrow> nat list" where
  "free_blocks p = chain (pool_links p) (pool_nil p) (n_blocks p) (unat (top_head (block_free p)))"

definition pool_ok :: "block_pool \<Rightarrow> bool" where
  "pool_ok p \<longleftrightarrow>
     length (block_next p) = n_blocks p \<and> n_blocks p < 2 ^ 32 \<and>
     distinct (free_blocks p) \<and> set (free_blocks p) \<subseteq> {..<n_blocks p} \<and>
     linked (pool_links p) (pool_nil p) (unat (top_head (block_free p))) (free_blocks p)"

lemma top_head_pack: "top_head (pack_top old h) = h"
proof -
  have "(push_bit 32 t OR ucast h :: u64) AND mask 32 = ucast h" for t
    by (rule bit_eqI) (auto simp: bit_simps dest: bit_imp_le_length)
  moreover have "(0xFFFFFFFF :: u64) = mask 32" by (simp add: mask_eq_exp_minus_1)
  ultimately show ?thesis by (simp add: top_head_def pack_top_def)
qed

lemma free_blocks_unique:
  assumes "linked (pool_links p) (pool_nil p) (unat (top_head (block_free p))) xs"
    and "distinct xs" and "set xs \<subseteq> {..<n_blocks p}"
  shows "free_blocks p = xs"
  unfolding free_blocks_def by (rule linked_bounded [OF assms])

lemma pool_init_linked:
  assumes "n < 2 ^ 32" and "i \<le> n"
  shows "linked (pool_links (block_pool_init n)) (pool_nil (block_pool_init n)) i [i..<n]"
  using assms(2)
proof (induction "n - i" arbitrary: i)
  case 0
  then show ?case by (simp add: pool_nil_def block_pool_init_def)
next
  case (Suc k)
  then have i: "i < n" and u: "[i..<n] = i # [Suc i..<n]" by (auto simp: upt_conv_Cons)
  have "pool_links (block_pool_init n) i = Suc i"
    using i assms(1)
    by (simp add: pool_links_def block_pool_init_def unat_of_nat_mod del: of_nat_Suc of_nat_add)
  with Suc i u show ?case by (simp add: pool_nil_def) (simp add: block_pool_init_def)
qed

lemma pool_init_ok:
  assumes "n < 2 ^ 32"
  shows "pool_ok (block_pool_init n) \<and> free_blocks (block_pool_init n) = [0..<n]"
proof -
  have h: "unat (top_head (block_free (block_pool_init n))) = 0"
    by (simp add: block_pool_init_def top_head_def)
  from pool_init_linked [OF assms, of 0] have l:
    "linked (pool_links (block_pool_init n)) (pool_nil (block_pool_init n)) 0 [0..<n]" by simp
  have f: "free_blocks (block_pool_init n) = [0..<n]"
    by (rule free_blocks_unique) (use l h in \<open>auto simp: block_pool_init_def\<close>)
  show ?thesis using f l h assms by (auto simp: pool_ok_def) (simp_all add: block_pool_init_def)
qed

lemma pool_grab_ok:
  assumes "pool_ok p" and "block_pool_grab p = Some (i, p')"
  shows "free_blocks p = i # free_blocks p' \<and> pool_ok p' \<and> n_blocks p' = n_blocks p"
proof -
  let ?h = "top_head (block_free p)"
  from assms(2) have i: "i = unat ?h" "\<not> pool_nil p i" and
    p': "p' = p\<lparr>block_free := pack_top (block_free p) (block_next p ! i)\<rparr>"
    by (auto simp: block_pool_grab_def pool_nil_def Let_def split: if_splits)
  have fr: "pool_links p' = pool_links p" "pool_nil p' = pool_nil p" "n_blocks p' = n_blocks p"
    by (simp_all add: p' fun_eq_iff pool_links_def pool_nil_def)
  from assms(1) have l: "linked (pool_links p) (pool_nil p) (unat ?h) (free_blocks p)"
    by (simp add: pool_ok_def)
  from linked_pop [OF l] i obtain ys where y: "free_blocks p = i # ys"
    "linked (pool_links p) (pool_nil p) (pool_links p i) ys" by auto
  have h': "unat (top_head (block_free p')) = pool_links p i"
    by (simp add: p' top_head_pack pool_links_def)
  have f: "free_blocks p' = ys"
    by (rule free_blocks_unique) (use y h' fr assms(1) in \<open>auto simp: pool_ok_def\<close>)
  with y h' fr assms(1) show ?thesis by (auto simp: pool_ok_def) (simp add: p')
qed

lemma pool_push_ok:
  assumes "pool_ok p" and "i < n_blocks p" and "i \<notin> set (free_blocks p)"
  shows "free_blocks (block_pool_push i p) = i # free_blocks p
    \<and> pool_ok (block_pool_push i p) \<and> n_blocks (block_pool_push i p) = n_blocks p"
proof -
  define p' where "p' = block_pool_push i p"
  have p'e: "p' = p\<lparr>block_next := (block_next p)[i := top_head (block_free p)],
      block_free := pack_top (block_free p) (of_nat i)\<rparr>"
    using assms(2) by (simp add: p'_def block_pool_push_def Let_def)
  have n: "n_blocks p' = n_blocks p" "pool_nil p' = pool_nil p" "length (block_next p') = length (block_next p)"
    by (simp_all add: p'e fun_eq_iff pool_nil_def)
  have h': "unat (top_head (block_free p')) = i"
    using assms by (simp add: p'e top_head_pack unat_of_nat_mod pool_ok_def)
  have l: "linked (pool_links p) (pool_nil p) (unat (top_head (block_free p))) (free_blocks p)"
    using assms(1) by (simp add: pool_ok_def)
  have l': "linked (pool_links p') (pool_nil p) i (i # free_blocks p)"
    using l assms by (intro linked_push [OF l]) (auto simp: pool_nil_def pool_links_def p'e pool_ok_def)
  have f: "free_blocks p' = i # free_blocks p"
    by (rule free_blocks_unique) (use l' h' n assms in \<open>auto simp: pool_ok_def\<close>)
  with l' h' n assms show ?thesis
    unfolding p'_def [symmetric] by (auto simp: pool_ok_def)
qed

interpretation bp: index_pool block_pool_grab block_pool_push free_blocks n_blocks pool_ok
proof
  fix p i p'
  show "pool_ok p \<Longrightarrow> distinct (free_blocks p) \<and> set (free_blocks p) \<subseteq> {..<n_blocks p}"
    by (simp add: pool_ok_def)
  show "pool_ok p \<Longrightarrow> block_pool_grab p = None \<longleftrightarrow> free_blocks p = []"
    using linked_Nil_iff [of "pool_links p" "pool_nil p" "unat (top_head (block_free p))" "free_blocks p"]
    by (auto simp: pool_ok_def block_pool_grab_def pool_nil_def Let_def)
  show "pool_ok p \<Longrightarrow> block_pool_grab p = Some (i, p') \<Longrightarrow> free_blocks p = i # free_blocks p'"
    using pool_grab_ok by blast
  show "pool_ok p \<Longrightarrow> block_pool_grab p = Some (i, p') \<Longrightarrow> pool_ok p' \<and> n_blocks p' = n_blocks p"
    using pool_grab_ok by blast
  show "pool_ok p \<Longrightarrow> i < n_blocks p \<Longrightarrow> i \<notin> set (free_blocks p) \<Longrightarrow>
      free_blocks (block_pool_push i p) = i # free_blocks p"
    using pool_push_ok by blast
  show "pool_ok p \<Longrightarrow> i < n_blocks p \<Longrightarrow> i \<notin> set (free_blocks p) \<Longrightarrow>
      pool_ok (block_pool_push i p) \<and> n_blocks (block_pool_push i p) = n_blocks p"
    using pool_push_ok by blast
qed

section \<open>Many threads\<close>

text \<open>
  Where a thread stands in the two compare-and-exchange loops. A loaded top word is its tag and its
  head; the tag is a natural number here, since the 32-bit tag repeats only after as many exchanges
  within one thread's window between load and exchange.
\<close>

datatype pool_pc =
    PIdle
  | Grab_Loaded nat nat
  | Grab_Next nat nat nat
  | Ret_Loaded nat nat nat
  | Ret_Linked nat nat nat

record pool_conc =
  pool_size :: nat
  top_tag :: nat
  top_index :: nat
  links :: "nat \<Rightarrow> nat"
  threads :: "nat \<Rightarrow> pool_pc"
  out :: "nat set"

definition pool_conc_init :: "nat \<Rightarrow> pool_conc" where
  "pool_conc_init n = \<lparr>pool_size = n, top_tag = 0, top_index = 0, links = Suc,
     threads = (\<lambda>_. PIdle), out = {}\<rparr>"

definition goto :: "nat \<Rightarrow> pool_pc \<Rightarrow> pool_conc \<Rightarrow> pool_conc" where
  "goto p c s = s\<lparr>threads := (threads s)(p := c)\<rparr>"

definition grab_load :: "nat \<Rightarrow> pool_conc \<Rightarrow> pool_conc option" where
  "grab_load p s =
     (if threads s p = PIdle then Some (goto p (Grab_Loaded (top_tag s) (top_index s)) s) else None)"

definition grab_next :: "nat \<Rightarrow> pool_conc \<Rightarrow> pool_conc option" where
  "grab_next p s =
     (case threads s p of
        Grab_Loaded t h \<Rightarrow>
          Some (if h \<ge> pool_size s then goto p PIdle s else goto p (Grab_Next t h (links s h)) s)
      | _ \<Rightarrow> None)"

definition grab_cas :: "nat \<Rightarrow> bool \<Rightarrow> pool_conc \<Rightarrow> pool_conc option" where
  "grab_cas p spurious s =
     (case threads s p of
        Grab_Next t h nx \<Rightarrow>
          Some (if (t, h) = (top_tag s, top_index s) \<and> \<not> spurious
                then goto p PIdle (s\<lparr>top_tag := t + 1, top_index := nx, out := insert h (out s)\<rparr>)
                else goto p (Grab_Loaded (top_tag s) (top_index s)) s)
      | _ \<Rightarrow> None)"

definition ret_load :: "nat \<Rightarrow> nat \<Rightarrow> pool_conc \<Rightarrow> pool_conc option" where
  "ret_load p i s =
     (if threads s p = PIdle \<and> i \<in> out s
      then Some (goto p (Ret_Loaded i (top_tag s) (top_index s)) (s\<lparr>out := out s - {i}\<rparr>))
      else None)"

definition ret_link :: "nat \<Rightarrow> pool_conc \<Rightarrow> pool_conc option" where
  "ret_link p s =
     (case threads s p of
        Ret_Loaded i t h \<Rightarrow> Some (goto p (Ret_Linked i t h) (s\<lparr>links := (links s)(i := h)\<rparr>))
      | _ \<Rightarrow> None)"

definition ret_cas :: "nat \<Rightarrow> bool \<Rightarrow> pool_conc \<Rightarrow> pool_conc option" where
  "ret_cas p spurious s =
     (case threads s p of
        Ret_Linked i t h \<Rightarrow>
          Some (if (t, h) = (top_tag s, top_index s) \<and> \<not> spurious
                then goto p PIdle (s\<lparr>top_tag := t + 1, top_index := i\<rparr>)
                else goto p (Ret_Loaded i (top_tag s) (top_index s)) s)
      | _ \<Rightarrow> None)"

datatype pool_action =
    Grab_Load nat | Grab_Link nat | Grab_Cas nat bool | Ret_Load nat nat | Ret_Link nat | Ret_Cas nat bool

fun pool_step :: "pool_action \<Rightarrow> pool_conc \<Rightarrow> pool_conc option" where
  "pool_step (Grab_Load p) s = grab_load p s"
| "pool_step (Grab_Link p) s = grab_next p s"
| "pool_step (Grab_Cas p sp) s = grab_cas p sp s"
| "pool_step (Ret_Load p i) s = ret_load p i s"
| "pool_step (Ret_Link p) s = ret_link p s"
| "pool_step (Ret_Cas p sp) s = ret_cas p sp s"

fun pool_run :: "pool_action list \<Rightarrow> pool_conc \<Rightarrow> pool_conc option" where
  "pool_run [] s = Some s"
| "pool_run (a # as) s = (case pool_step a s of None \<Rightarrow> None | Some t \<Rightarrow> pool_run as t)"

section \<open>No block is handed out twice\<close>

definition free_now :: "pool_conc \<Rightarrow> nat list" where
  "free_now s = chain (links s) (\<lambda>i. i \<ge> pool_size s) (pool_size s) (top_index s)"

fun block_of :: "pool_pc \<Rightarrow> nat option" where
  "block_of (Ret_Loaded i t h) = Some i"
| "block_of (Ret_Linked i t h) = Some i"
| "block_of _ = None"

definition returning :: "pool_conc \<Rightarrow> nat set" where
  "returning s = {i. \<exists>p. block_of (threads s p) = Some i}"

fun pc_ok :: "pool_conc \<Rightarrow> pool_pc \<Rightarrow> bool" where
  "pc_ok s PIdle = True"
| "pc_ok s (Grab_Loaded t h) = (t \<le> top_tag s \<and> (t = top_tag s \<longrightarrow> h = top_index s))"
| "pc_ok s (Grab_Next t h nx) =
     (t \<le> top_tag s \<and> (t = top_tag s \<longrightarrow> h = top_index s \<and> nx = links s h \<and> h < pool_size s))"
| "pc_ok s (Ret_Loaded i t h) = (t \<le> top_tag s \<and> (t = top_tag s \<longrightarrow> h = top_index s))"
| "pc_ok s (Ret_Linked i t h) =
     (t \<le> top_tag s \<and> (t = top_tag s \<longrightarrow> h = top_index s) \<and> links s i = h)"

definition partition_ok :: "pool_conc \<Rightarrow> bool" where
  "partition_ok s \<longleftrightarrow>
     distinct (free_now s) \<and> set (free_now s) \<union> out s \<union> returning s = {..<pool_size s} \<and>
     set (free_now s) \<inter> out s = {} \<and> set (free_now s) \<inter> returning s = {} \<and> out s \<inter> returning s = {}"

definition conc_inv :: "pool_conc \<Rightarrow> bool" where
  "conc_inv s \<longleftrightarrow>
     linked (links s) (\<lambda>i. i \<ge> pool_size s) (top_index s) (free_now s) \<and> partition_ok s \<and>
     (\<forall>p. pc_ok s (threads s p)) \<and>
     (\<forall>p q i. block_of (threads s p) = Some i \<longrightarrow> block_of (threads s q) = Some i \<longrightarrow> p = q)"

lemma free_now_eqI:
  assumes "linked (links s) (\<lambda>i. i \<ge> pool_size s) (top_index s) xs"
    and "distinct xs" and "set xs \<subseteq> {..<pool_size s}"
  shows "free_now s = xs"
  unfolding free_now_def by (rule linked_bounded [OF assms])

lemma goto_sel [simp]:
  "pool_size (goto p c s) = pool_size s" "top_tag (goto p c s) = top_tag s"
  "top_index (goto p c s) = top_index s" "links (goto p c s) = links s" "out (goto p c s) = out s"
  "threads (goto p c s) = (threads s)(p := c)" "free_now (goto p c s) = free_now s"
  by (simp_all add: goto_def free_now_def)

lemma pc_ok_goto [simp]: "pc_ok (goto p c s) d = pc_ok s d"
  by (cases d) simp_all

lemma goto_inv:
  assumes "conc_inv s" and "pc_ok s c" and "block_of c = block_of (threads s p)"
  shows "conc_inv (goto p c s)"
proof -
  have b: "block_of (threads (goto p c s) q) = block_of (threads s q)" for q using assms(3) by simp
  have r: "returning (goto p c s) = returning s" unfolding returning_def b ..
  show ?thesis
    using assms(1,2) unfolding conc_inv_def partition_ok_def r b by simp
qed

lemma conc_initial: "conc_inv (pool_conc_init n)"
proof -
  have l: "linked Suc (\<lambda>i. i \<ge> n) i [i..<n]" if "i \<le> n" for i
    using that by (induction "n - i" arbitrary: i) (auto simp: upt_conv_Cons)
  have f: "free_now (pool_conc_init n) = [0..<n]"
    by (rule free_now_eqI) (use l [of 0] in \<open>auto simp: pool_conc_init_def\<close>)
  show ?thesis
    using l [of 0] unfolding conc_inv_def partition_ok_def f
    by (auto simp: pool_conc_init_def returning_def)
qed

lemma pc_ok_new_tag:
  assumes "pc_ok s c" and "top_tag s' = Suc (top_tag s)" and "links s' = links s"
  shows "pc_ok s' c"
  using assms by (cases c) auto

lemma grab_cas_inv:
  assumes "conc_inv s" and "threads s p = Grab_Next t h nx" and "t = top_tag s" and "h = top_index s"
    and s': "s' = goto p PIdle (s\<lparr>top_tag := t + 1, top_index := nx, out := insert h (out s)\<rparr>)"
  shows "conc_inv s' \<and> h \<in> set (free_now s)"
proof -
  from assms have pc: "nx = links s h" "h < pool_size s"
    unfolding conc_inv_def by (metis pc_ok.simps(3))+
  from assms(1) have l: "linked (links s) (\<lambda>i. i \<ge> pool_size s) h (free_now s)"
    and part: "partition_ok s" by (auto simp: conc_inv_def assms(4))
  from linked_pop [OF l] pc obtain ys where y: "free_now s = h # ys"
    "linked (links s) (\<lambda>i. i \<ge> pool_size s) nx ys" by auto
  have f: "free_now s' = ys"
    by (rule free_now_eqI) (use y part in \<open>auto simp: s' partition_ok_def\<close>)
  have b: "block_of (threads s' q) = block_of (threads s q)" for q using assms(2) by (simp add: s')
  have r: "returning s' = returning s" unfolding returning_def b ..
  have "pc_ok s' (threads s' q)" for q
  proof (cases "q = p")
    case False
    with assms(1) have "pc_ok s (threads s q)" by (simp add: conc_inv_def)
    then show ?thesis using False by (simp add: s' pc_ok_new_tag assms(3))
  qed (simp add: s')
  moreover have "partition_ok s'" using part y unfolding partition_ok_def r f by (auto simp: s')
  moreover have "linked (links s') (\<lambda>i. i \<ge> pool_size s') (top_index s') (free_now s')"
    unfolding f using y(2) by (simp add: s')
  ultimately show ?thesis using assms(1) y unfolding conc_inv_def b by auto
qed

lemma returningI: "block_of (threads s p) = Some i \<Longrightarrow> i \<in> returning s"
  by (auto simp: returning_def)

lemma ex_upd: "(\<exists>q. (if q = p then x else g q) = Some j) \<longleftrightarrow> x = Some j \<or> (\<exists>q. q \<noteq> p \<and> g q = Some j)"
  by metis

lemma ret_load_inv:
  assumes "conc_inv s" and "threads s p = PIdle" and "i \<in> out s"
    and s': "s' = goto p (Ret_Loaded i (top_tag s) (top_index s)) (s\<lparr>out := out s - {i}\<rparr>)"
  shows "conc_inv s'"
proof -
  have f: "free_now s' = free_now s" by (simp add: s' free_now_def)
  have b: "block_of (threads s' q) = (if q = p then Some i else block_of (threads s q))" for q
    by (simp add: s')
  have bp: "block_of (threads s p) = None" using assms(2) by simp
  then have "(\<exists>q. q \<noteq> p \<and> block_of (threads s q) = Some j) \<longleftrightarrow> (\<exists>q. block_of (threads s q) = Some j)" for j
    by (metis option.distinct(1))
  then have r: "returning s' = insert i (returning s)"
    unfolding returning_def b ex_upd by auto
  have i: "i \<notin> returning s" using assms(1,3) by (auto simp: conc_inv_def partition_ok_def)
  have "pc_ok s' c = pc_ok s c" for c by (cases c) (simp_all add: s')
  then have "pc_ok s' (threads s' q)" for q using assms(1) by (simp add: s' conc_inv_def)
  moreover have "partition_ok s'"
    using assms(1,3) unfolding conc_inv_def partition_ok_def r f by (auto simp: s')
  moreover have "\<forall>q u j. block_of (threads s' q) = Some j \<longrightarrow> block_of (threads s' u) = Some j \<longrightarrow> q = u"
  proof (intro allI impI)
    fix q u j
    assume "block_of (threads s' q) = Some j" and "block_of (threads s' u) = Some j"
    moreover have "block_of (threads s v) \<noteq> Some i" for v using i by (auto simp: returning_def)
    ultimately show "q = u" using assms(1) unfolding b conc_inv_def by (metis option.inject)
  qed
  moreover from assms(1) have "linked (links s) (\<lambda>i. i \<ge> pool_size s) (top_index s) (free_now s)"
    by (simp add: conc_inv_def)
  then have "linked (links s') (\<lambda>i. i \<ge> pool_size s') (top_index s') (free_now s')"
    unfolding f by (simp add: s')
  ultimately show ?thesis unfolding conc_inv_def by blast
qed

lemma ret_link_inv:
  assumes "conc_inv s" and "threads s p = Ret_Loaded i t h"
    and s': "s' = goto p (Ret_Linked i t h) (s\<lparr>links := (links s)(i := h)\<rparr>)"
  shows "conc_inv s'"
proof -
  have i: "i \<in> returning s" using returningI [of s p i] assms(2) by simp
  then have nf: "i \<notin> set (free_now s)" using assms(1) by (auto simp: conc_inv_def partition_ok_def)
  have "linked ((links s)(i := h)) (\<lambda>i. i \<ge> pool_size s) (top_index s) (free_now s)
      = linked (links s) (\<lambda>i. i \<ge> pool_size s) (top_index s) (free_now s)"
    by (rule linked_cong) (use nf in auto)
  then have l: "linked (links s') (\<lambda>i. i \<ge> pool_size s') (top_index s') (free_now s)"
    using assms(1) by (simp add: conc_inv_def s')
  have f: "free_now s' = free_now s"
    by (rule free_now_eqI [OF l]) (use assms(1) in \<open>auto simp: conc_inv_def partition_ok_def s'\<close>)
  have b: "block_of (threads s' q) = block_of (threads s q)" for q using assms(2) by (simp add: s')
  have r: "returning s' = returning s" unfolding returning_def b ..
  have top: "top_index s < pool_size s \<Longrightarrow> top_index s \<in> set (free_now s)"
    using assms(1) by (cases "free_now s") (auto simp: conc_inv_def)
  have bp: "block_of (threads s p) = Some i" by (simp add: assms(2))
  have uniq: "block_of (threads s q) = Some i \<Longrightarrow> q = p" for q
    using assms(1) bp unfolding conc_inv_def by blast
  have "pc_ok s' (threads s' q)" for q
  proof (cases "q = p")
    case True
    from assms(1) have "pc_ok s (threads s p)" by (simp add: conc_inv_def)
    with True assms(2) show ?thesis by (simp add: s')
  next
    case False
    from assms(1) have "pc_ok s (threads s q)" by (simp add: conc_inv_def)
    with False uniq [of q] nf top show ?thesis by (cases "threads s q") (auto simp: s')
  qed
  moreover from assms(1) have "partition_ok s'"
    unfolding conc_inv_def partition_ok_def r f by (simp add: s')
  ultimately show ?thesis using l assms(1) unfolding conc_inv_def f b by blast
qed

lemma ret_cas_inv:
  assumes "conc_inv s" and "threads s p = Ret_Linked i t h" and "t = top_tag s" and "h = top_index s"
    and s': "s' = goto p PIdle (s\<lparr>top_tag := t + 1, top_index := i\<rparr>)"
  shows "conc_inv s'"
proof -
  from assms have li: "links s i = h" unfolding conc_inv_def by (metis pc_ok.simps(5))
  have i: "i \<in> returning s" using returningI [of s p i] assms(2) by simp
  then have nf: "i \<notin> set (free_now s)" "i < pool_size s" "i \<notin> out s"
    using assms(1) by (auto simp: conc_inv_def partition_ok_def)
  have l: "linked (links s') (\<lambda>i. i \<ge> pool_size s') (top_index s') (i # free_now s)"
    using assms(1,4) li nf by (simp add: conc_inv_def s')
  have f: "free_now s' = i # free_now s"
    by (rule free_now_eqI [OF l]) (use assms(1) nf in \<open>auto simp: conc_inv_def partition_ok_def s'\<close>)
  have b: "block_of (threads s' q) = (if q = p then None else block_of (threads s q))" for q
    by (simp add: s')
  have bp: "block_of (threads s p) = Some i" by (simp add: assms(2))
  have uniq: "block_of (threads s q) = Some i \<Longrightarrow> q = p" for q
    using assms(1) bp unfolding conc_inv_def by blast
  have r: "returning s' = returning s - {i}"
  proof (rule set_eqI)
    fix j
    show "j \<in> returning s' \<longleftrightarrow> j \<in> returning s - {i}"
      unfolding returning_def b mem_Collect_eq Diff_iff ex_upd using bp uniq by (metis option.distinct(1) option.inject singleton_iff)
  qed
  have "pc_ok s' (threads s' q)" for q
  proof (cases "q = p")
    case False
    with assms(1) have "pc_ok s (threads s q)" by (simp add: conc_inv_def)
    then show ?thesis using False by (simp add: s' pc_ok_new_tag assms(3))
  qed (simp add: s')
  moreover have "partition_ok s'"
    using assms(1) nf i unfolding conc_inv_def partition_ok_def r f by (auto simp: s')
  moreover have "\<forall>q u j. block_of (threads s' q) = Some j \<longrightarrow> block_of (threads s' u) = Some j \<longrightarrow> q = u"
    using assms(1) unfolding conc_inv_def b by (metis option.distinct(1))
  ultimately show ?thesis using l unfolding conc_inv_def f by blast
qed

lemma pool_step_inv:
  assumes "conc_inv s" and "pool_step a s = Some s'"
  shows "conc_inv s'"
proof (cases a)
  case (Grab_Load p)
  with assms show ?thesis by (auto simp: grab_load_def intro!: goto_inv split: if_splits)
next
  case (Grab_Link p)
  with assms(2) obtain t h where c: "threads s p = Grab_Loaded t h"
    by (auto simp: grab_next_def split: pool_pc.splits)
  have "pc_ok s (threads s p)" using assms(1) by (simp add: conc_inv_def)
  with Grab_Link assms c show ?thesis
    by (auto simp: grab_next_def intro!: goto_inv split: if_splits)
next
  case (Grab_Cas p sp)
  with assms(2) obtain t h nx where c: "threads s p = Grab_Next t h nx"
    by (auto simp: grab_cas_def split: pool_pc.splits)
  show ?thesis
  proof (cases "(t, h) = (top_tag s, top_index s) \<and> \<not> sp")
    case True
    with Grab_Cas assms(2) c have "s' = goto p PIdle (s\<lparr>top_tag := t + 1, top_index := nx, out := insert h (out s)\<rparr>)"
      by (simp add: grab_cas_def)
    with grab_cas_inv [OF assms(1) c] True show ?thesis by blast
  next
    case False
    with Grab_Cas assms c show ?thesis by (auto simp: grab_cas_def intro!: goto_inv)
  qed
next
  case (Ret_Load p i)
  with assms(2) have "threads s p = PIdle" "i \<in> out s"
    and "s' = goto p (Ret_Loaded i (top_tag s) (top_index s)) (s\<lparr>out := out s - {i}\<rparr>)"
    by (auto simp: ret_load_def split: if_splits)
  with ret_load_inv [OF assms(1)] show ?thesis by blast
next
  case (Ret_Link p)
  with assms(2) obtain i t h where "threads s p = Ret_Loaded i t h"
    "s' = goto p (Ret_Linked i t h) (s\<lparr>links := (links s)(i := h)\<rparr>)"
    by (auto simp: ret_link_def split: pool_pc.splits)
  with ret_link_inv [OF assms(1)] show ?thesis by blast
next
  case (Ret_Cas p sp)
  with assms(2) obtain i t h where c: "threads s p = Ret_Linked i t h"
    by (auto simp: ret_cas_def split: pool_pc.splits)
  show ?thesis
  proof (cases "(t, h) = (top_tag s, top_index s) \<and> \<not> sp")
    case True
    with Ret_Cas assms(2) c have "s' = goto p PIdle (s\<lparr>top_tag := t + 1, top_index := i\<rparr>)"
      by (simp add: ret_cas_def)
    with ret_cas_inv [OF assms(1) c] True show ?thesis by blast
  next
    case False
    with Ret_Cas assms c show ?thesis by (auto simp: ret_cas_def intro!: goto_inv)
  qed
qed

interpretation treiber: invariant_system
  "\<lambda>s. \<exists>n. s = pool_conc_init n" "\<lambda>s t. \<exists>a. pool_step a s = Some t" conc_inv
  by unfold_locales (auto intro: conc_initial pool_step_inv)

lemma pool_run_rtranclp:
  "pool_run as s = Some t \<Longrightarrow> (\<lambda>s t. \<exists>a. pool_step a s = Some t)\<^sup>*\<^sup>* s t"
proof (induction as arbitrary: s)
  case (Cons a as)
  then obtain u where u: "pool_step a s = Some u" and r: "pool_run as u = Some t"
    by (auto split: option.splits)
  show ?case
  proof (rule converse_rtranclp_into_rtranclp)
    show "\<exists>a. pool_step a s = Some u" using u by blast
  qed (rule Cons.IH [OF r])
qed simp

lemma pool_run_inv: "pool_run as (pool_conc_init n) = Some s \<Longrightarrow> conc_inv s"
  by (rule treiber.inv_reachable [OF _ pool_run_rtranclp]) auto

lemma pool_run_size: "pool_run as s = Some t \<Longrightarrow> pool_size t = pool_size s"
proof (induction as arbitrary: s)
  case (Cons a as)
  then obtain u where u: "pool_step a s = Some u" and r: "pool_run as u = Some t"
    by (auto split: option.splits)
  from u have "pool_size u = pool_size s"
    by (cases a) (auto simp: grab_load_def grab_next_def grab_cas_def ret_load_def ret_link_def
        ret_cas_def split: if_splits pool_pc.splits)
  with Cons.IH [OF r] show ?case by simp
qed simp


text \<open>The schedule of the classic ABA hazard: thread 0 reads top 0 and its link, then thread 1
  grabs 0 and 1 and returns 0, and thread 0's exchange must fail.\<close>

definition aba_run :: "pool_action list" where
  "aba_run = [Grab_Load 0, Grab_Link 0,
     Grab_Load 1, Grab_Link 1, Grab_Cas 1 False, Grab_Load 1, Grab_Link 1, Grab_Cas 1 False,
     Ret_Load 1 0, Ret_Link 1, Ret_Cas 1 False, Grab_Cas 0 False]"


end
