(* ===== verification/Host_Types.thy ===== *)
theory Host_Types
  imports Dpa_Common Topology_Map Block_Pool
begin

text \<open>
  The state of the host library, \<^verbatim>\<open>src/core/dmesh_core.c\<close> and \<^verbatim>\<open>src/core/dmesh_core.h\<close>: the connection
  slots indexed by local port, the event queues, and the channel context that holds them with the
  block pool, the accept queue and the credit counters. Pointers are indices: a slot names its
  event queue by its number, a handle is the number of its port. The logical 64-bit byte cursors of
  a connection are natural numbers (a stream does not reach \<open>2^64\<close> bytes); the 16-bit counters of
  the send-unit queue and the sequence numbers keep their width. A word bitmap over the ports is
  the predicate of its bits. Every operation runs as one step, so the interleaving of the owner
  thread with the drain side is an interleaving of operations.
\<close>

section \<open>Constants\<close>

definition DMESH_PORT_SPACE :: nat where "DMESH_PORT_SPACE = 65536"
definition DMESH_TX_READY_WORDS :: nat where "DMESH_TX_READY_WORDS = 1024"
definition DMESH_UPORT_BASE :: nat where "DMESH_UPORT_BASE = 32768"
definition RX_QUEUE_SIZE :: nat where "RX_QUEUE_SIZE = 65536"
definition RX_INBOX_MIN_CAPACITY :: nat where "RX_INBOX_MIN_CAPACITY = 256"
definition TX_SU_DEPTH_MIN :: nat where "TX_SU_DEPTH_MIN = 64"
definition TX_SU_DEPTH_MAX :: nat where "TX_SU_DEPTH_MAX = 32768"
definition TX_SU_TRACK_QUANTUM :: nat where "TX_SU_TRACK_QUANTUM = 512"
definition TX_SU_FORWARD_SHARE_MAX :: nat where "TX_SU_FORWARD_SHARE_MAX = 2048"
definition TX_BLOCK_SIZE :: nat where "TX_BLOCK_SIZE = 524288"
definition TX_BLOCKS_PER_CONN :: nat where "TX_BLOCKS_PER_CONN = 8"
definition TX_RECYCLED_CUSHION :: nat where "TX_RECYCLED_CUSHION = 1"
definition TX_TAIL_DELAY_NS :: nat where "TX_TAIL_DELAY_NS = 500000"
definition TX_TIMER_TICK_NS :: nat where "TX_TIMER_TICK_NS = 1000000"
definition TX_TIMER_MIN_WAIT_NS :: nat where "TX_TIMER_MIN_WAIT_NS = 50000"
definition DMESH_POD_BLANK :: int where "DMESH_POD_BLANK = -1"
definition DMESH_POD_ABORT :: int where "DMESH_POD_ABORT = -3"
definition DMESH_SVC_NONE :: int where "DMESH_SVC_NONE = -1"

declare DMESH_PORT_SPACE_def [dmesh_const] DMESH_TX_READY_WORDS_def [dmesh_const]
  DMESH_UPORT_BASE_def [dmesh_const] RX_QUEUE_SIZE_def [dmesh_const]
  RX_INBOX_MIN_CAPACITY_def [dmesh_const] TX_SU_DEPTH_MIN_def [dmesh_const]
  TX_SU_DEPTH_MAX_def [dmesh_const] TX_SU_TRACK_QUANTUM_def [dmesh_const]
  TX_SU_FORWARD_SHARE_MAX_def [dmesh_const] TX_BLOCK_SIZE_def [dmesh_const]
  TX_BLOCKS_PER_CONN_def [dmesh_const] TX_RECYCLED_CUSHION_def [dmesh_const]
  TX_TAIL_DELAY_NS_def [dmesh_const] TX_TIMER_TICK_NS_def [dmesh_const]
  TX_TIMER_MIN_WAIT_NS_def [dmesh_const] DMESH_POD_BLANK_def [dmesh_const]
  DMESH_POD_ABORT_def [dmesh_const] DMESH_SVC_NONE_def [dmesh_const]

section \<open>Structures\<close>

datatype dmesh_role = ROLE_FREE | ROLE_CLIENT | ROLE_SERVER | ROLE_SERVER_PENDING

datatype dmesh_tx_wait_state = TX_WAIT_IDLE | TX_WAIT_ARMED | TX_WAIT_READY

datatype dmesh_tx_wait_reason =
  TX_WAIT_NONE | TX_WAIT_QP_RECLAIM | TX_WAIT_SHARED_POOL | TX_WAIT_SU_RECLAIM

record sw_descriptor =
  body_buf_slot :: int
  body_len :: u32
  src_pod :: int
  src_port :: u16
  src_service :: int
  dst_service :: int
  dst_pod :: int
  dst_port :: u16
  sw_seq :: u16
  valid :: bool

text \<open>The send-unit queue of a connection: the three arrays and the two counters.\<close>

record su_fifo =
  su_alloc :: bool
  su_seq :: "u16 list"
  su_end :: "nat list"
  su_done :: "bool list"
  su_head :: u16
  su_tail :: u16

text \<open>The TX byte ring of a connection over blocks of the shared pool.\<close>

record tx_chain =
  tx_w :: nat
  tx_s :: nat
  tx_c :: nat
  tx_f :: nat
  resv_len :: nat
  resv_moff :: nat
  tail_blk :: nat
  head_blk_next :: nat
  pblk :: "int list"
  recyc :: "int list"
  blk_used :: "nat list"
  nblk_owned :: int
  nrec :: nat

record dmesh_port_slot =
  role :: dmesh_role
  peer_pod :: int
  peer_port :: u16
  user :: "nat option"
  slot_eq :: "nat option"
  inbox :: "sw_descriptor list option"
  inbox_ring :: nat
  in_tail :: nat
  in_head :: nat
  on_ready :: bool
  rx_seq :: u16
  rx_next_pos :: u32
  rx_seq_valid :: bool
  tx :: tx_chain
  su :: su_fifo
  tx_deadline_ns :: nat
  tx_gate :: bool
  tx_error :: "errno option"
  tx_wait_state :: dmesh_tx_wait_state
  tx_wait_reason :: dmesh_tx_wait_reason
  tx_wait_tail_blk :: nat
  tx_wait_tx_w :: nat
  tx_wait_pool_epoch :: nat
  tx_wait_su_tail :: u16

text \<open>
  A bitmap over the ports with its population count and scan cursor. The library keeps four of them:
  the transmit-ready events, the transmit-error events and the retained tails of an event queue,
  and the waiters on the shared block pool.
\<close>

record port_bitmap =
  bm_bits :: "nat \<Rightarrow> bool"
  bm_count :: int
  bm_cursor :: nat

record dmesh_eq =
  accept_spare :: bool
  nqp :: int
  notify_live :: bool
  wants_notify :: bool
  suppress_notify :: int
  efd_writes :: nat
  tx_ready :: port_bitmap
  tx_errors :: port_bitmap
  tx_armed :: port_bitmap
  tx_earliest_ns :: nat
  tx_due_hint :: bool
  ready_head :: nat
  ready_tail :: nat
  ready_ring :: "nat \<Rightarrow> nat"
  drain_cur :: "nat option"

record rxq_cell =
  cell_desc :: sw_descriptor
  cell_seq :: nat

text \<open>A connection handle. \<open>qp_rx_slot\<close> is the landing offset of the message held since accept, if any.\<close>

record dmesh_qp =
  qp_eq :: nat
  qp_role :: dmesh_role
  local_port :: nat
  qp_dst_service :: int
  remote_pod :: int
  remote_port :: u16
  peer_closed :: bool
  fin_sent :: bool
  qp_seq :: u16
  qp_rx_slot :: int
  qp_rx_len :: u32

text \<open>The reverse-completion ring of a landing stripe, which the DPU fills.\<close>

record dmesh_rev_done_entry =
  rd_src_pod_id :: int
  rd_src_service :: int
  rd_dst_service :: int
  rd_src_port :: u16
  rd_dst_port :: u16
  rd_seq :: u16
  rd_length :: u16
  rd_pos :: u32

record dmesh_tx_ack_entry =
  ack_port :: u16
  ack_seq :: u16
  ack_seq_count :: u16

datatype dmesh_rev_ring_entry =
  REV_ENTRY_INVALID | REV_ENTRY_DONE dmesh_rev_done_entry | REV_ENTRY_TX_ACK dmesh_tx_ack_entry

record rev_ring =
  rev_entries :: "nat \<Rightarrow> dmesh_rev_ring_entry"
  rev_publish_seq :: "nat \<Rightarrow> nat"
  rev_size :: nat
  rev_head :: nat
  consumer_head :: nat

record dpumesh_ctx =
  ctx_pod_id :: int
  service_id :: int
  num_slots :: nat
  slot_size :: nat
  k_rings :: nat
  landing_stripes :: nat
  rx_credit_shards :: nat
  ctx_inbox_ring :: nat
  rx_region_size :: nat
  rx_dma_buf_size :: nat
  block_size :: nat
  blocks_per_conn :: nat
  su_depth :: nat
  recycle_reserve :: nat
  pool :: block_pool
  pool_epoch :: nat
  pool_waiters :: port_bitmap
  tx_armed_total :: int
  timer_signals :: nat
  rx_ring :: "nat \<Rightarrow> rxq_cell"
  rx_enq :: nat
  rx_deq :: nat
  credits :: "nat \<Rightarrow> nat"
  ring_dead :: "nat \<Rightarrow> bool"
  fwd_posted :: "nat \<Rightarrow> dma_desc list"
  ports :: "nat \<Rightarrow> dmesh_port_slot"
  eqs :: "nat \<Rightarrow> dmesh_eq option"
  n_eqs :: nat
  qps :: "nat \<Rightarrow> dmesh_qp option"
  next_handle :: nat
  rev_rings :: "nat \<Rightarrow> rev_ring option"
  assist_progress :: nat
  dpa_mmap_handle :: u32
  claim_calls :: nat
  next_port :: nat
  port_span :: nat
  st_rx_inbox_drops :: nat
  st_rx_accept_drops :: nat
  st_rx_credit_drops :: nat

end
