(* ===== verification/Host_Events.thy ===== *)
theory Host_Events
  imports Host_Types
begin

text \<open>
  Readiness in the host library (\<^verbatim>\<open>src/core/dmesh_core.c\<close>): the port bitmaps, the notifications and the
  ready list of an event queue, the retained transmit tails with their deadlines, and the one-shot
  transmit-writable wait of a connection together with the waiters on the shared block pool.
\<close>

section \<open>Port bitmaps\<close>

text \<open>
  Setting and clearing one bit; the first component says whether the bit changed. A pop scans the
  words from the cursor on, and each word from its lowest bit, which visits the ports cyclically
  from \<open>64 * cursor\<close> on.
\<close>

definition bitmap_set :: "nat \<Rightarrow> port_bitmap \<Rightarrow> bool \<times> port_bitmap" where
  "bitmap_set p b =
     (if bm_bits b p then (False, b)
      else (True, b\<lparr>bm_bits := (bm_bits b)(p := True), bm_count := bm_count b + 1\<rparr>))"

definition bitmap_clear :: "nat \<Rightarrow> port_bitmap \<Rightarrow> bool \<times> port_bitmap" where
  "bitmap_clear p b =
     (if bm_bits b p then (True, b\<lparr>bm_bits := (bm_bits b)(p := False), bm_count := bm_count b - 1\<rparr>)
      else (False, b))"

primrec scan_ports :: "(nat \<Rightarrow> bool) \<Rightarrow> nat \<Rightarrow> nat \<Rightarrow> nat option" where
  "scan_ports P p 0 = None"
| "scan_ports P p (Suc n) = (if P p then Some p else scan_ports P ((p + 1) mod DMESH_PORT_SPACE) n)"

definition bitmap_pop :: "port_bitmap \<Rightarrow> (nat \<times> port_bitmap) option" where
  "bitmap_pop b =
     (if bm_count b = 0 then None
      else
        (case scan_ports (bm_bits b) (64 * bm_cursor b) DMESH_PORT_SPACE of
           None \<Rightarrow> None
         | Some p \<Rightarrow>
             Some (p, b\<lparr>bm_bits := (bm_bits b)(p := False), bm_count := bm_count b - 1,
                        bm_cursor := (p div 64 + 1) mod DMESH_TX_READY_WORDS\<rparr>)))"

section \<open>Event queues\<close>

definition upd_port :: "nat \<Rightarrow> (dmesh_port_slot \<Rightarrow> dmesh_port_slot) \<Rightarrow> dpumesh_ctx \<Rightarrow> dpumesh_ctx" where
  "upd_port p f ctx = ctx\<lparr>ports := (ports ctx)(p := f (ports ctx p))\<rparr>"

definition upd_eq :: "nat \<Rightarrow> (dmesh_eq \<Rightarrow> dmesh_eq) \<Rightarrow> dpumesh_ctx \<Rightarrow> dpumesh_ctx" where
  "upd_eq e f ctx = ctx\<lparr>eqs := (eqs ctx)(e := map_option f (eqs ctx e))\<rparr>"

lemma upd_port_simps [simp]:
  "ports (upd_port p f ctx) q = (if q = p then f (ports ctx p) else ports ctx q)"
  "eqs (upd_port p f ctx) = eqs ctx" "pool_waiters (upd_port p f ctx) = pool_waiters ctx"
  "pool (upd_port p f ctx) = pool ctx" "pool_epoch (upd_port p f ctx) = pool_epoch ctx"
  "block_size (upd_port p f ctx) = block_size ctx" "blocks_per_conn (upd_port p f ctx) = blocks_per_conn ctx"
  "slot_size (upd_port p f ctx) = slot_size ctx" "num_slots (upd_port p f ctx) = num_slots ctx"
  "su_depth (upd_port p f ctx) = su_depth ctx" "recycle_reserve (upd_port p f ctx) = recycle_reserve ctx"
  "qps (upd_port p f ctx) = qps ctx" "k_rings (upd_port p f ctx) = k_rings ctx"
  "ring_dead (upd_port p f ctx) = ring_dead ctx" "fwd_posted (upd_port p f ctx) = fwd_posted ctx"
  "claim_calls (upd_port p f ctx) = claim_calls ctx" "credits (upd_port p f ctx) = credits ctx"
  "next_handle (upd_port p f ctx) = next_handle ctx"
  by (simp_all add: upd_port_def)

lemma upd_eq_simps [simp]:
  "eqs (upd_eq e f ctx) d = (if d = e then map_option f (eqs ctx e) else eqs ctx d)"
  "ports (upd_eq e f ctx) = ports ctx" "pool_waiters (upd_eq e f ctx) = pool_waiters ctx"
  "pool (upd_eq e f ctx) = pool ctx" "pool_epoch (upd_eq e f ctx) = pool_epoch ctx"
  "block_size (upd_eq e f ctx) = block_size ctx" "blocks_per_conn (upd_eq e f ctx) = blocks_per_conn ctx"
  "slot_size (upd_eq e f ctx) = slot_size ctx" "num_slots (upd_eq e f ctx) = num_slots ctx"
  "su_depth (upd_eq e f ctx) = su_depth ctx" "recycle_reserve (upd_eq e f ctx) = recycle_reserve ctx"
  "qps (upd_eq e f ctx) = qps ctx" "k_rings (upd_eq e f ctx) = k_rings ctx"
  "ring_dead (upd_eq e f ctx) = ring_dead ctx" "fwd_posted (upd_eq e f ctx) = fwd_posted ctx"
  "claim_calls (upd_eq e f ctx) = claim_calls ctx" "credits (upd_eq e f ctx) = credits ctx"
  "next_handle (upd_eq e f ctx) = next_handle ctx"
  by (simp_all add: upd_eq_def)

definition live_role :: "dmesh_role \<Rightarrow> bool" where
  "live_role r \<longleftrightarrow> r = ROLE_CLIENT \<or> r = ROLE_SERVER"

definition eq_notify :: "dmesh_eq \<Rightarrow> dmesh_eq" where
  "eq_notify eq =
     (if notify_live eq \<and> wants_notify eq \<and> suppress_notify eq = 0
      then eq\<lparr>efd_writes := efd_writes eq + 1\<rparr> else eq)"

definition eq_has_pending :: "dpumesh_ctx \<Rightarrow> dmesh_eq \<Rightarrow> bool" where
  "eq_has_pending ctx eq \<longleftrightarrow>
     drain_cur eq \<noteq> None \<or> ready_head eq \<noteq> ready_tail eq \<or> bm_count (tx_ready eq) \<noteq> 0
     \<or> bm_count (tx_errors eq) \<noteq> 0 \<or> rx_enq ctx \<noteq> rx_deq ctx"

definition dmesh_eq_suppress_notify :: "dpumesh_ctx \<Rightarrow> int \<Rightarrow> dmesh_eq \<Rightarrow> dmesh_eq" where
  "dmesh_eq_suppress_notify ctx delta eq =
     (if delta \<noteq> 1 \<and> delta \<noteq> -1 then eq
      else if delta > 0 then eq\<lparr>suppress_notify := suppress_notify eq + 1\<rparr>
      else
        let old = suppress_notify eq; eq1 = eq\<lparr>suppress_notify := old - 1\<rparr>
        in if old \<le> 0 then eq1\<lparr>suppress_notify := suppress_notify eq1 + 1\<rparr>
           else if old = 1 \<and> eq_has_pending ctx eq1 then eq_notify eq1
           else eq1)"

definition notify_all_eqs :: "dpumesh_ctx \<Rightarrow> dpumesh_ctx" where
  "notify_all_eqs ctx = fold (\<lambda>i. upd_eq i eq_notify) [0..<n_eqs ctx] ctx"

definition ready_push :: "nat \<Rightarrow> dmesh_eq \<Rightarrow> dmesh_eq" where
  "ready_push port eq =
     (if ready_tail eq - ready_head eq \<ge> DMESH_PORT_SPACE then eq
      else eq\<lparr>ready_ring := (ready_ring eq)(ready_tail eq mod DMESH_PORT_SPACE := port),
              ready_tail := ready_tail eq + 1\<rparr>)"

definition ready_pop :: "dmesh_eq \<Rightarrow> (nat \<times> dmesh_eq) option" where
  "ready_pop eq =
     (if ready_head eq = ready_tail eq then None
      else
        let i = ready_head eq mod DMESH_PORT_SPACE; slot = ready_ring eq i
        in if slot = 0 then None
           else Some (slot, eq\<lparr>ready_ring := (ready_ring eq)(i := 0), ready_head := ready_head eq + 1\<rparr>))"

definition eq_tx_ready_set :: "nat \<Rightarrow> dmesh_eq \<Rightarrow> dmesh_eq" where
  "eq_tx_ready_set port eq =
     (let (new, b) = bitmap_set port (tx_ready eq); eq1 = eq\<lparr>tx_ready := b\<rparr>
      in if new then eq_notify eq1 else eq1)"

definition eq_tx_ready_clear :: "nat \<Rightarrow> dmesh_eq \<Rightarrow> dmesh_eq" where
  "eq_tx_ready_clear port eq = eq\<lparr>tx_ready := snd (bitmap_clear port (tx_ready eq))\<rparr>"

definition eq_tx_ready_pop :: "dmesh_eq \<Rightarrow> (nat \<times> dmesh_eq) option" where
  "eq_tx_ready_pop eq = map_option (\<lambda>(p, b). (p, eq\<lparr>tx_ready := b\<rparr>)) (bitmap_pop (tx_ready eq))"

definition eq_tx_error_set :: "nat \<Rightarrow> dmesh_eq \<Rightarrow> dmesh_eq" where
  "eq_tx_error_set port eq =
     (let (new, b) = bitmap_set port (tx_errors eq); eq1 = eq\<lparr>tx_errors := b\<rparr>
      in if new then eq_notify eq1 else eq1)"

definition eq_tx_error_clear :: "nat \<Rightarrow> dmesh_eq \<Rightarrow> dmesh_eq" where
  "eq_tx_error_clear port eq = eq\<lparr>tx_errors := snd (bitmap_clear port (tx_errors eq))\<rparr>"

definition eq_tx_error_pop :: "dmesh_eq \<Rightarrow> (nat \<times> dmesh_eq) option" where
  "eq_tx_error_pop eq = map_option (\<lambda>(p, b). (p, eq\<lparr>tx_errors := b\<rparr>)) (bitmap_pop (tx_errors eq))"

text \<open>The sticky transmit error of a connection; only its first publication raises the event.\<close>

definition tx_error_publish :: "nat \<Rightarrow> errno option \<Rightarrow> dpumesh_ctx \<Rightarrow> dpumesh_ctx" where
  "tx_error_publish port error_number ctx =
     (if tx_error (ports ctx port) \<noteq> None then ctx
      else
        let published = (case error_number of Some e \<Rightarrow> e | None \<Rightarrow> EBADMSG);
            ctx1 = upd_port port (\<lambda>psl. psl\<lparr>tx_error := Some published\<rparr>) ctx;
            psl = ports ctx1 port
        in case slot_eq psl of
             Some e \<Rightarrow> if live_role (role psl) then upd_eq e (eq_tx_error_set port) ctx1 else ctx1
           | None \<Rightarrow> ctx1)"

section \<open>Waiting for transmit capacity\<close>

definition pool_waiter_set :: "nat \<Rightarrow> dpumesh_ctx \<Rightarrow> dpumesh_ctx" where
  "pool_waiter_set port ctx = ctx\<lparr>pool_waiters := snd (bitmap_set port (pool_waiters ctx))\<rparr>"

definition pool_waiter_clear :: "nat \<Rightarrow> dpumesh_ctx \<Rightarrow> dpumesh_ctx" where
  "pool_waiter_clear port ctx = ctx\<lparr>pool_waiters := snd (bitmap_clear port (pool_waiters ctx))\<rparr>"

text \<open>The scan cursor of the waiters advances on every call, found or not.\<close>

definition pool_waiter_claim :: "dpumesh_ctx \<Rightarrow> nat option \<times> dpumesh_ctx" where
  "pool_waiter_claim ctx =
     (let w = pool_waiters ctx; start = bm_cursor w mod DMESH_TX_READY_WORDS;
          w1 = w\<lparr>bm_cursor := bm_cursor w + 1\<rparr>
      in case scan_ports (bm_bits w) (64 * start) DMESH_PORT_SPACE of
           None \<Rightarrow> (None, ctx\<lparr>pool_waiters := w1\<rparr>)
         | Some p \<Rightarrow> (Some p, ctx\<lparr>pool_waiters := snd (bitmap_clear p w1)\<rparr>))"

definition tx_wait_make_ready :: "nat \<Rightarrow> dpumesh_ctx \<Rightarrow> bool \<times> dpumesh_ctx" where
  "tx_wait_make_ready port ctx =
     (if tx_wait_state (ports ctx port) \<noteq> TX_WAIT_ARMED then (False, ctx)
      else
        let ctx1 = pool_waiter_clear port (upd_port port (\<lambda>psl. psl\<lparr>tx_wait_state := TX_WAIT_READY\<rparr>) ctx);
            psl = ports ctx1 port
        in case slot_eq psl of
             None \<Rightarrow> (False, upd_port port (\<lambda>psl. psl\<lparr>tx_wait_state := TX_WAIT_IDLE\<rparr>) ctx1)
           | Some e \<Rightarrow>
               if \<not> live_role (role psl)
               then (False, upd_port port (\<lambda>psl. psl\<lparr>tx_wait_state := TX_WAIT_IDLE\<rparr>) ctx1)
               else
                 let ctx2 = upd_eq e (eq_tx_ready_set port) ctx1
                 in if tx_wait_state (ports ctx2 port) \<noteq> TX_WAIT_READY \<or> slot_eq (ports ctx2 port) \<noteq> Some e
                    then (True, upd_eq e (eq_tx_ready_clear port) ctx2)
                    else (True, ctx2))"

definition tx_wait_cancel :: "nat \<Rightarrow> dpumesh_ctx \<Rightarrow> dpumesh_ctx" where
  "tx_wait_cancel port ctx =
     (if tx_wait_state (ports ctx port) = TX_WAIT_IDLE then ctx
      else
        let ctx1 = pool_waiter_clear port (upd_port port (\<lambda>psl. psl\<lparr>tx_wait_state := TX_WAIT_IDLE\<rparr>) ctx)
        in case slot_eq (ports ctx1 port) of
             None \<Rightarrow> ctx1
           | Some e \<Rightarrow> upd_eq e (eq_tx_ready_clear port) ctx1)"

definition tx_wait_qp_retryable :: "dpumesh_ctx \<Rightarrow> dmesh_port_slot \<Rightarrow> bool" where
  "tx_wait_qp_retryable ctx psl \<longleftrightarrow>
     tx_f (tx psl) div block_size ctx > tx_wait_tail_blk psl
     \<or> tx_f (tx psl) = tx_wait_tx_w psl \<and> su_head (su psl) = su_tail (su psl)"

definition tx_wait_su_retryable :: "dmesh_port_slot \<Rightarrow> bool" where
  "tx_wait_su_retryable psl \<longleftrightarrow> su_tail (su psl) \<noteq> tx_wait_su_tail psl"

definition pool_has_free :: "dpumesh_ctx \<Rightarrow> bool" where
  "pool_has_free ctx \<longleftrightarrow> unat (top_head (block_free (pool ctx))) < n_blocks (pool ctx)"

definition tx_wait_arm :: "nat \<Rightarrow> dmesh_tx_wait_reason \<Rightarrow> dpumesh_ctx \<Rightarrow> dpumesh_ctx" where
  "tx_wait_arm port reason ctx =
     (let ctx1 = tx_wait_cancel port ctx;
          epoch = pool_epoch ctx1;
          ctx2 = upd_port port (\<lambda>psl. psl\<lparr>
                   tx_wait_tail_blk := tail_blk (tx psl), tx_wait_tx_w := tx_w (tx psl),
                   tx_wait_pool_epoch := epoch, tx_wait_su_tail := su_tail (su psl),
                   tx_wait_reason := reason, tx_wait_state := TX_WAIT_ARMED\<rparr>) ctx1
      in if reason = TX_WAIT_SHARED_POOL then
           let ctx3 = pool_waiter_set port ctx2
           in if pool_epoch ctx3 \<noteq> epoch \<or> pool_has_free ctx3
              then snd (tx_wait_make_ready port ctx3) else ctx3
         else if reason = TX_WAIT_SU_RECLAIM then
           if tx_wait_su_retryable (ports ctx2 port) then snd (tx_wait_make_ready port ctx2) else ctx2
         else if tx_wait_qp_retryable ctx2 (ports ctx2 port) then snd (tx_wait_make_ready port ctx2)
         else ctx2)"

text \<open>
  A returned block raises the pool epoch and wakes at most one waiter: stale registrations are
  dropped until a live one is found.
\<close>

definition waiting_ports :: "dpumesh_ctx \<Rightarrow> nat set" where
  "waiting_ports ctx = {p. p < DMESH_PORT_SPACE \<and> bm_bits (pool_waiters ctx) p}"

lemma finite_waiting_ports [simp]: "finite (waiting_ports ctx)"
  by (rule finite_subset [of _ "{..<DMESH_PORT_SPACE}"]) (auto simp: waiting_ports_def)

lemma scan_ports_Some:
  assumes "scan_ports P p n = Some q" and "p < DMESH_PORT_SPACE"
  shows "P q \<and> q < DMESH_PORT_SPACE"
  using assms by (induction n arbitrary: p) (auto simp: dmesh_const split: if_splits)

lemma pool_waiter_claim_Some:
  assumes "pool_waiter_claim ctx = (Some p, ctx')"
  shows "p \<in> waiting_ports ctx \<and> waiting_ports ctx' = waiting_ports ctx - {p}"
proof -
  let ?w = "pool_waiters ctx" and ?c = "bm_cursor (pool_waiters ctx) mod DMESH_TX_READY_WORDS"
  from assms have sc: "scan_ports (bm_bits ?w) (64 * ?c) DMESH_PORT_SPACE = Some p"
    and c: "ctx' = ctx\<lparr>pool_waiters := snd (bitmap_clear p (?w\<lparr>bm_cursor := bm_cursor ?w + 1\<rparr>))\<rparr>"
    by (auto simp: pool_waiter_claim_def Let_def split: option.splits)
  have "64 * ?c < DMESH_PORT_SPACE" by (simp add: dmesh_const)
  from scan_ports_Some [OF sc this] c show ?thesis
    by (auto simp: waiting_ports_def bitmap_clear_def)
qed

lemma waiting_ports_upd_port [simp]: "waiting_ports (upd_port p f ctx) = waiting_ports ctx"
  by (simp add: waiting_ports_def upd_port_def)

lemma waiting_ports_upd_eq [simp]: "waiting_ports (upd_eq e f ctx) = waiting_ports ctx"
  by (simp add: waiting_ports_def upd_eq_def)

lemma waiting_ports_clear [simp]: "waiting_ports (pool_waiter_clear p ctx) = waiting_ports ctx - {p}"
  by (auto simp: waiting_ports_def pool_waiter_clear_def bitmap_clear_def)

lemma waiting_ports_make_ready: "waiting_ports (snd (tx_wait_make_ready p ctx)) \<subseteq> waiting_ports ctx"
  by (auto simp: tx_wait_make_ready_def Let_def split: option.splits)

function wake_waiter :: "dpumesh_ctx \<Rightarrow> dpumesh_ctx" where
  "wake_waiter ctx =
     (case pool_waiter_claim ctx of
        (None, ctx1) \<Rightarrow> ctx1
      | (Some port, ctx1) \<Rightarrow>
          let (woken, ctx2) = tx_wait_make_ready port ctx1
          in if woken then ctx2 else wake_waiter ctx2)"
  by pat_completeness auto

termination wake_waiter
proof (relation "measure (\<lambda>ctx. card (waiting_ports ctx))", goal_cases)
  case (2 ctx r ctx1 port x woken ctx2)
  then have "pool_waiter_claim ctx = (Some port, ctx1)" "ctx2 = snd (tx_wait_make_ready port ctx1)"
    by (metis snd_conv)+
  with waiting_ports_make_ready [of port ctx1] pool_waiter_claim_Some [of ctx port ctx1]
  have "waiting_ports ctx2 \<subseteq> waiting_ports ctx - {port}" "port \<in> waiting_ports ctx" by simp_all
  then have "waiting_ports ctx2 \<subset> waiting_ports ctx" by blast
  then show ?case by (simp add: psubset_card_mono)
qed simp

declare wake_waiter.simps [simp del]

definition block_pool_return :: "int \<Rightarrow> dpumesh_ctx \<Rightarrow> dpumesh_ctx" where
  "block_pool_return bid ctx =
     (if bid < 0 \<or> bid \<ge> int (n_blocks (pool ctx)) then ctx
      else wake_waiter (ctx\<lparr>pool := block_pool_push (nat bid) (pool ctx), pool_epoch := pool_epoch ctx + 1\<rparr>))"

section \<open>Retained transmit tails\<close>

definition eq_tx_armed_set :: "nat \<Rightarrow> nat \<Rightarrow> nat \<Rightarrow> dpumesh_ctx \<Rightarrow> dpumesh_ctx" where
  "eq_tx_armed_set e port deadline ctx =
     (case eqs ctx e of
        None \<Rightarrow> ctx
      | Some eq \<Rightarrow>
          let seen = tx_earliest_ns eq;
              eq1 = (if seen = 0 \<or> deadline < seen then eq\<lparr>tx_earliest_ns := deadline\<rparr> else eq);
              (new, b) = bitmap_set port (tx_armed eq1);
              ctx1 = upd_eq e (\<lambda>_. eq1\<lparr>tx_armed := b\<rparr>) ctx
          in if \<not> new then ctx1
             else ctx1\<lparr>tx_armed_total := tx_armed_total ctx + 1,
                       timer_signals := timer_signals ctx + (if tx_armed_total ctx = 0 then 1 else 0)\<rparr>)"

definition eq_tx_armed_clear :: "nat \<Rightarrow> nat \<Rightarrow> dpumesh_ctx \<Rightarrow> dpumesh_ctx" where
  "eq_tx_armed_clear e port ctx =
     (case eqs ctx e of
        None \<Rightarrow> ctx
      | Some eq \<Rightarrow>
          let (was, b) = bitmap_clear port (tx_armed eq)
          in if \<not> was then ctx
             else (upd_eq e (\<lambda>eq. eq\<lparr>tx_armed := b,
                     tx_earliest_ns := (if bm_count (tx_armed eq) = 1 then 0 else tx_earliest_ns eq)\<rparr>) ctx)
                  \<lparr>tx_armed_total := tx_armed_total ctx - 1\<rparr>)"

text \<open>The gate of a connection: \<open>tx_gate_try\<close> takes it when it is free; a spinning caller waits for that.\<close>

definition tx_gate_try :: "dmesh_port_slot \<Rightarrow> dmesh_port_slot option" where
  "tx_gate_try psl = (if tx_gate psl then None else Some (psl\<lparr>tx_gate := True\<rparr>))"

definition tx_gate_release :: "dmesh_port_slot \<Rightarrow> dmesh_port_slot" where
  "tx_gate_release psl = psl\<lparr>tx_gate := False\<rparr>"

definition tx_call_open :: "dmesh_port_slot \<Rightarrow> bool" where
  "tx_call_open psl \<longleftrightarrow> resv_len (tx psl) \<noteq> 0"

definition tx_arm_tail :: "nat \<Rightarrow> nat \<Rightarrow> dpumesh_ctx \<Rightarrow> dpumesh_ctx" where
  "tx_arm_tail now port ctx =
     (case slot_eq (ports ctx port) of
        None \<Rightarrow> ctx
      | Some e \<Rightarrow>
          (case eqs ctx e of
             None \<Rightarrow> ctx
           | Some eq \<Rightarrow>
               if bm_bits (tx_armed eq) port then ctx
               else
                 let deadline = now + TX_TAIL_DELAY_NS
                 in eq_tx_armed_set e port deadline
                      (upd_port port (\<lambda>psl. psl\<lparr>tx_deadline_ns := deadline\<rparr>) ctx)))"

definition tx_disarm_tail :: "nat \<Rightarrow> dpumesh_ctx \<Rightarrow> dpumesh_ctx" where
  "tx_disarm_tail port ctx =
     upd_port port (\<lambda>psl. psl\<lparr>tx_deadline_ns := 0\<rparr>)
       (case slot_eq (ports ctx port) of None \<Rightarrow> ctx | Some e \<Rightarrow> eq_tx_armed_clear e port ctx)"

text \<open>
  The pass over the armed bits: it visits at most \<open>remaining\<close> of them and takes the first whose
  deadline has passed and whose gate is free.
\<close>

primrec armed_scan :: "(nat \<Rightarrow> bool) \<Rightarrow> (nat \<Rightarrow> bool) \<Rightarrow> nat \<Rightarrow> int \<Rightarrow> nat \<Rightarrow> nat option" where
  "armed_scan bits due p remaining 0 = None"
| "armed_scan bits due p remaining (Suc n) =
     (if remaining = 0 then None
      else if bits p then
        if due p then Some p else armed_scan bits due ((p + 1) mod DMESH_PORT_SPACE) (remaining - 1) n
      else armed_scan bits due ((p + 1) mod DMESH_PORT_SPACE) remaining n)"

definition eq_tx_armed_pop_due :: "nat \<Rightarrow> nat \<Rightarrow> dpumesh_ctx \<Rightarrow> (nat \<times> dpumesh_ctx) option" where
  "eq_tx_armed_pop_due e now ctx =
     (case eqs ctx e of
        None \<Rightarrow> None
      | Some eq \<Rightarrow>
          (case armed_scan (bm_bits (tx_armed eq))
                  (\<lambda>p. tx_deadline_ns (ports ctx p) \<le> now \<and> tx_gate_try (ports ctx p) \<noteq> None)
                  (64 * bm_cursor (tx_armed eq)) (bm_count (tx_armed eq)) DMESH_PORT_SPACE of
             None \<Rightarrow> None
           | Some p \<Rightarrow>
               let b = snd (bitmap_clear p (tx_armed eq));
                   ctx1 = upd_eq e (\<lambda>eq. eq\<lparr>tx_armed := b\<lparr>bm_cursor := p div 64\<rparr>\<rparr>) ctx
               in Some (p, upd_port p (\<lambda>psl. psl\<lparr>tx_gate := True, tx_deadline_ns := 0\<rparr>)
                             (ctx1\<lparr>tx_armed_total := tx_armed_total ctx - 1\<rparr>))))"

primrec earliest_scan :: "(nat \<Rightarrow> bool) \<Rightarrow> (nat \<Rightarrow> nat) \<Rightarrow> nat \<Rightarrow> int \<Rightarrow> nat option \<Rightarrow> nat \<Rightarrow> nat option" where
  "earliest_scan bits dl p remaining best 0 = best"
| "earliest_scan bits dl p remaining best (Suc n) =
     (if remaining = 0 then best
      else if bits p then
        earliest_scan bits dl (p + 1) (remaining - 1)
          (case best of None \<Rightarrow> Some (dl p) | Some d \<Rightarrow> if dl p < d then Some (dl p) else best) n
      else earliest_scan bits dl (p + 1) remaining best n)"

definition eq_tx_armed_refresh :: "nat \<Rightarrow> dpumesh_ctx \<Rightarrow> dpumesh_ctx" where
  "eq_tx_armed_refresh e ctx =
     upd_eq e (\<lambda>eq. eq\<lparr>tx_earliest_ns :=
       (if bm_count (tx_armed eq) = 0 then 0
        else case earliest_scan (bm_bits (tx_armed eq)) (\<lambda>p. tx_deadline_ns (ports ctx p)) 0
                    (bm_count (tx_armed eq)) None DMESH_PORT_SPACE of
               None \<Rightarrow> 0 | Some d \<Rightarrow> d)\<rparr>) ctx"

definition eq_tx_armed_wait_ns :: "dmesh_eq \<Rightarrow> nat \<Rightarrow> int" where
  "eq_tx_armed_wait_ns eq now =
     (let earliest = tx_earliest_ns eq
      in if earliest = 0 then if bm_count (tx_armed eq) \<noteq> 0 then 0 else -1
         else if earliest \<le> now then 0 else int earliest - int now)"

definition tx_timer_wait_ns :: "dpumesh_ctx \<Rightarrow> nat \<Rightarrow> nat" where
  "tx_timer_wait_ns ctx now =
     (let wait = fold (\<lambda>i w. case eqs ctx i of
                     None \<Rightarrow> w
                   | Some eq \<Rightarrow> let due = eq_tx_armed_wait_ns eq now
                               in if due \<ge> 0 \<and> nat due < w then nat due else w)
                   [0..<n_eqs ctx] TX_TIMER_TICK_NS
      in if wait < TX_TIMER_MIN_WAIT_NS then TX_TIMER_MIN_WAIT_NS else wait)"

text \<open>What the timer thread does on waking at time \<open>now\<close>.\<close>

definition tx_timer_fire :: "nat \<Rightarrow> dpumesh_ctx \<Rightarrow> dpumesh_ctx" where
  "tx_timer_fire now ctx =
     fold (\<lambda>i. upd_eq i (\<lambda>eq. if eq_tx_armed_wait_ns eq now = 0
                               then eq_notify (eq\<lparr>tx_due_hint := True\<rparr>) else eq))
       [0..<n_eqs ctx] ctx"

definition tx_inflight :: "dmesh_port_slot \<Rightarrow> bool" where
  "tx_inflight psl \<longleftrightarrow> su_head (su psl) \<noteq> su_tail (su psl)"

text \<open>An acknowledgement that leaves the connection idle arms a tail retained without a bit.\<close>

definition tx_arm_idle_tail :: "nat \<Rightarrow> dpumesh_ctx \<Rightarrow> dpumesh_ctx" where
  "tx_arm_idle_tail port ctx =
     (let psl = ports ctx port
      in if tx_inflight psl then ctx
         else if tx_deadline_ns psl = 0 then ctx
         else if tx_s (tx psl) \<ge> tx_c (tx psl) then ctx
         else
           (case slot_eq psl of
              None \<Rightarrow> ctx
            | Some e \<Rightarrow>
                if \<not> live_role (role psl) then ctx
                else
                  (case eqs ctx e of
                     None \<Rightarrow> ctx
                   | Some eq \<Rightarrow>
                       if bm_bits (tx_armed eq) port then ctx
                       else eq_tx_armed_set e port (tx_deadline_ns psl) ctx)))"

end
