(* ===== verification/Tx_Fifo.thy ===== *)
theory Tx_Fifo
  imports Host_Types
begin

text \<open>
  The send-unit queue of a connection (\<^verbatim>\<open>src/core/dmesh_core.c\<close>, \<open>dpumesh_tx_track\<close>,
  \<open>dpumesh_tx_untrack\<close> and the queue part of \<open>tx_reclaim_ack\<close>): a ring of power-of-two depth
  addressed by free-running 16-bit counters, that records each posted unit's sequence number and
  the logical cursor at its end. Acknowledgements arrive in any order; the queue releases only the
  longest acknowledged prefix. The lemmas refine the ring to a list of units.
\<close>

unbundle bit_operations_syntax

section \<open>Operations\<close>

definition su_idx :: "nat \<Rightarrow> u16 \<Rightarrow> nat" where
  "su_idx depth c = unat (c AND (of_nat depth - 1))"

text \<open>Lazy allocation of the arrays; \<open>ok\<close> says whether \<open>malloc\<close> succeeds.\<close>

definition tx_tracking_ensure :: "bool \<Rightarrow> nat \<Rightarrow> su_fifo \<Rightarrow> errno + su_fifo" where
  "tx_tracking_ensure ok depth q =
     (if su_alloc q then Inr q
      else if \<not> ok then Inl ENOMEM
      else Inr (q\<lparr>su_alloc := True, su_seq := replicate depth 0, su_end := replicate depth 0,
                  su_done := replicate depth False\<rparr>))"

text \<open>\<open>dpumesh_tx_track\<close>, with the send cursor it advances by \<open>len\<close>.\<close>

definition fifo_track :: "nat \<Rightarrow> u16 \<Rightarrow> nat \<Rightarrow> nat \<Rightarrow> su_fifo \<Rightarrow> errno + nat \<times> su_fifo" where
  "fifo_track depth seq len s q =
     (if \<not> su_alloc q \<or> depth = 0 then Inl EINVAL
      else if unat (su_head q - su_tail q) \<ge> depth then Inl EAGAIN
      else
        let i = su_idx depth (su_head q); sent = s + len
        in Inr (sent, q\<lparr>su_seq := (su_seq q)[i := seq], su_end := (su_end q)[i := sent],
                        su_done := (su_done q)[i := False], su_head := su_head q + 1\<rparr>))"

definition fifo_untrack :: "nat \<Rightarrow> u16 \<Rightarrow> nat \<Rightarrow> nat \<Rightarrow> su_fifo \<Rightarrow> (nat \<times> su_fifo) option" where
  "fifo_untrack depth seq len s q =
     (if su_head q = su_tail q then None
      else
        let previous = su_head q - 1; i = su_idx depth previous
        in if su_seq q ! i \<noteq> seq \<or> su_end q ! i \<noteq> s \<or> s < len then None
           else Some (s - len, q\<lparr>su_done := (su_done q)[i := False], su_head := previous\<rparr>))"

text \<open>
  The release loop: \<open>n\<close> units are outstanding from \<open>tail\<close> on; the result is the new tail, the
  flags and the end cursor of the last released unit, if any.
\<close>

fun fifo_release :: "nat \<Rightarrow> su_fifo \<Rightarrow> nat \<Rightarrow> u16 \<Rightarrow> bool list \<Rightarrow> nat option \<Rightarrow> u16 \<times> bool list \<times> nat option" where
  "fifo_release depth q 0 tail done newf = (tail, done, newf)"
| "fifo_release depth q (Suc n) tail done newf =
     (let i = su_idx depth tail
      in if \<not> done ! i then (tail, done, newf)
         else fifo_release depth q n (tail + 1) (done[i := False]) (Some (su_end q ! i)))"

definition fifo_ack :: "nat \<Rightarrow> u16 \<Rightarrow> su_fifo \<Rightarrow> nat option \<times> su_fifo" where
  "fifo_ack depth seq q =
     (let tail = su_tail q; head = su_head q
      in if tail = head then (None, q)
         else
           let outstanding = head - tail;
               rel = seq - su_seq q ! su_idx depth tail
           in if rel \<ge> outstanding then (None, q)
              else
                let ack_idx = su_idx depth (tail + rel)
                in if su_seq q ! ack_idx \<noteq> seq then (None, q)
                   else
                     let (tail', done', newf) =
                           fifo_release depth q (unat outstanding) tail ((su_done q)[ack_idx := True]) None
                     in (newf, q\<lparr>su_done := done', su_tail := tail'\<rparr>))"

section \<open>The ring as a list of units\<close>

type_synonym unit_rec = "u16 \<times> nat \<times> bool"

definition unit_at :: "nat \<Rightarrow> su_fifo \<Rightarrow> nat \<Rightarrow> unit_rec" where
  "unit_at depth q j =
     (let i = su_idx depth (su_tail q + of_nat j) in (su_seq q ! i, su_end q ! i, su_done q ! i))"

definition units :: "nat \<Rightarrow> su_fifo \<Rightarrow> unit_rec list" where
  "units depth q = map (unit_at depth q) [0..<unat (su_head q - su_tail q)]"

definition depth_ok :: "nat \<Rightarrow> bool" where
  "depth_ok depth \<longleftrightarrow> (\<exists>d \<le> 15. depth = 2 ^ d)"

definition fifo_ok :: "nat \<Rightarrow> su_fifo \<Rightarrow> bool" where
  "fifo_ok depth q \<longleftrightarrow>
     depth_ok depth \<and> unat (su_head q - su_tail q) \<le> depth \<and>
     (su_alloc q \<longrightarrow> length (su_seq q) = depth \<and> length (su_end q) = depth \<and> length (su_done q) = depth) \<and>
     (\<not> su_alloc q \<longrightarrow> su_head q = su_tail q)"

lemma depth_okD: "depth_ok depth \<Longrightarrow> 0 < depth \<and> depth \<le> 32768 \<and> depth dvd 65536"
proof -
  assume "depth_ok depth"
  then obtain d where d: "d \<le> 15" "depth = 2 ^ d" by (auto simp: depth_ok_def)
  then have "(2 :: nat) ^ d \<le> 2 ^ 15" by (intro power_increasing) auto
  moreover have "(2 :: nat) ^ d dvd 2 ^ 16" using d by (intro le_imp_power_dvd) auto
  ultimately show ?thesis using d by simp
qed

lemma su_idx_mod:
  assumes "depth_ok depth"
  shows "su_idx depth c = unat c mod depth"
proof -
  obtain d where d: "d \<le> 15" "depth = 2 ^ d" using assms by (auto simp: depth_ok_def)
  have "(of_nat depth - 1 :: u16) = mask d" by (simp add: d mask_eq_exp_minus_1)
  then show ?thesis by (simp add: su_idx_def unat_and_mask d)
qed

lemma su_idx_lt: "depth_ok depth \<Longrightarrow> su_idx depth c < depth"
  using depth_okD by (simp add: su_idx_mod)

lemma su_idx_add:
  assumes "depth_ok depth"
  shows "su_idx depth (c + of_nat j) = (unat c + j) mod depth"
proof -
  have "unat (c + of_nat j) = (unat c + j) mod 65536"
    by (simp add: unat_word_ariths unat_of_nat_mod mod_simps)
  then show ?thesis using depth_okD [OF assms] by (simp add: su_idx_mod [OF assms] mod_mod_cancel)
qed

lemma su_idx_inj:
  assumes "depth_ok depth" and "j < depth" and "k < depth"
    and "su_idx depth (c + of_nat j) = su_idx depth (c + of_nat k)"
  shows "j = k"
proof -
  have e: "(unat c + j) mod depth = (unat c + k) mod depth" using assms by (simp add: su_idx_add)
  have *: "x = y" if "(a + x) mod n = (a + y) mod n" "x < n" "y < n" "x \<le> y" for a x y n :: nat
  proof -
    from that(1,4) have "n dvd (a + y) - (a + x)" by (metis mod_eq_dvd_iff_nat nat_add_left_cancel_le)
    with that show ?thesis by (auto dest: dvd_imp_le)
  qed
  from * [OF e] * [OF e [symmetric]] assms(2,3) show ?thesis by (cases "j \<le> k") auto
qed

lemma length_units [simp]: "length (units depth q) = unat (su_head q - su_tail q)"
  by (simp add: units_def)

lemma units_nth: "j < unat (su_head q - su_tail q) \<Longrightarrow> units depth q ! j = unit_at depth q j"
  by (simp add: units_def)

lemma head_is_tail_plus: "su_head q = su_tail q + of_nat (unat (su_head q - su_tail q))"
  by simp

lemma outstanding_step:
  assumes "unat (su_head q - su_tail q) < depth" and "depth \<le> 32768"
  shows "unat (su_head q + 1 - su_tail q) = Suc (unat (su_head q - su_tail q))"
proof -
  have "unat (su_head q - su_tail q + 1) = unat (su_head q - su_tail q) + 1"
    using assms by (subst unat_add_word) auto
  then show ?thesis by (simp add: algebra_simps)
qed

lemma su_idx_before_head:
  assumes "depth_ok depth" and "unat (su_head q - su_tail q) < depth" and "j < unat (su_head q - su_tail q)"
  shows "su_idx depth (su_tail q + of_nat j) \<noteq> su_idx depth (su_head q)"
proof
  assume "su_idx depth (su_tail q + of_nat j) = su_idx depth (su_head q)"
  also have "\<dots> = su_idx depth (su_tail q + of_nat (unat (su_head q - su_tail q)))"
    by (simp only: head_is_tail_plus [symmetric])
  finally have e: "su_idx depth (su_tail q + of_nat j)
      = su_idx depth (su_tail q + of_nat (unat (su_head q - su_tail q)))" .
  have "j < depth" using assms(2,3) by (rule less_trans [rotated])
  from su_idx_inj [OF assms(1) this assms(2) e] assms(3) show False by (simp only: less_irrefl)
qed

section \<open>Posting and undoing\<close>

lemma fifo_track_ok:
  assumes "fifo_ok depth q" and "fifo_track depth seq len s q = Inr (sent, q')"
  shows "sent = s + len \<and> fifo_ok depth q' \<and> su_tail q' = su_tail q
    \<and> units depth q' = units depth q @ [(seq, s + len, False)]"
proof -
  let ?n = "unat (su_head q - su_tail q)"
  have D: "depth_ok depth" using assms(1) by (simp add: fifo_ok_def)
  note d = depth_okD [OF D]
  let ?i = "su_idx depth (su_head q)"
  from assms(2) have al: "su_alloc q" and n: "?n < depth" and sent: "sent = s + len"
    and q': "q' = q\<lparr>su_seq := (su_seq q)[?i := seq], su_end := (su_end q)[?i := s + len],
        su_done := (su_done q)[?i := False], su_head := su_head q + 1\<rparr>"
    by (auto simp: fifo_track_def Let_def split: if_splits)
  have len: "length (su_seq q) = depth" "length (su_end q) = depth" "length (su_done q) = depth"
    using assms(1) al by (auto simp: fifo_ok_def)
  have out: "unat (su_head q' - su_tail q') = Suc ?n"
    using outstanding_step [OF n] d by (simp add: q')
  have i: "?i = su_idx depth (su_tail q + of_nat ?n)" using head_is_tail_plus [of q] by simp
  note other = su_idx_before_head [OF D n]
  have "unit_at depth q' j = unit_at depth q j" if "j < ?n" for j
    using other [OF that] by (simp add: unit_at_def Let_def q')
  moreover have "unit_at depth q' ?n = (seq, s + len, False)"
    using i len su_idx_lt [OF D] by (simp add: unit_at_def Let_def q')
  ultimately have "units depth q' = units depth q @ [(seq, s + len, False)]"
    unfolding units_def out by simp
  with sent assms(1) al out n d len show ?thesis by (auto simp: fifo_ok_def q')
qed

lemma fifo_track_error:
  assumes "fifo_ok depth q" and "su_alloc q"
  shows "fifo_track depth seq len s q = Inl e \<longleftrightarrow> e = EAGAIN \<and> length (units depth q) = depth"
  using assms depth_okD [of depth] by (auto simp: fifo_track_def fifo_ok_def Let_def)

lemma fifo_untrack_track:
  assumes "fifo_ok depth q" and "fifo_track depth seq len s q = Inr (sent, q')"
  shows "\<exists>q''. fifo_untrack depth seq len sent q' = Some (s, q'') \<and> fifo_ok depth q''
    \<and> units depth q'' = units depth q \<and> su_tail q'' = su_tail q"
proof -
  let ?n = "unat (su_head q - su_tail q)" and ?i = "su_idx depth (su_head q)"
  have D: "depth_ok depth" using assms(1) by (simp add: fifo_ok_def)
  from assms(2) have al: "su_alloc q" and n: "?n < depth" and sent: "sent = s + len"
    and q': "q' = q\<lparr>su_seq := (su_seq q)[?i := seq], su_end := (su_end q)[?i := s + len],
        su_done := (su_done q)[?i := False], su_head := su_head q + 1\<rparr>"
    by (auto simp: fifo_track_def Let_def split: if_splits)
  have len: "length (su_seq q) = depth" "length (su_end q) = depth" "length (su_done q) = depth"
    using assms(1) al by (auto simp: fifo_ok_def)
  have ne: "su_head q + 1 \<noteq> su_tail q"
    using outstanding_step [OF n] depth_okD [OF D] by auto
  define q'' where "q'' = q'\<lparr>su_done := (su_done q')[?i := False], su_head := su_head q\<rparr>"
  have u: "fifo_untrack depth seq len sent q' = Some (s, q'')"
    using ne len su_idx_lt [OF D] by (simp add: fifo_untrack_def q''_def q' sent Let_def)
  note other = su_idx_before_head [OF D n]
  have "unit_at depth q'' j = unit_at depth q j" if "j < ?n" for j
    using other [OF that] by (simp add: unit_at_def Let_def q''_def q')
  then have "units depth q'' = units depth q" unfolding units_def by (simp add: q''_def q')
  moreover have "fifo_ok depth q''" using assms(1) al len n by (auto simp: fifo_ok_def q''_def q')
  ultimately show ?thesis using u by (auto simp: q''_def q')
qed

section \<open>Acknowledging\<close>

lemma fifo_release_spec:
  assumes "depth_ok depth" and "n \<le> depth" and "length dn = depth"
    and "fifo_release depth q n tail dn newf = (tail', dn', newf')"
  shows "\<exists>k \<le> n. tail' = tail + of_nat k \<and> length dn' = depth
    \<and> (\<forall>j < k. dn ! su_idx depth (tail + of_nat j))
    \<and> (k < n \<longrightarrow> \<not> dn ! su_idx depth (tail + of_nat k))
    \<and> (\<forall>j. k \<le> j \<longrightarrow> j < depth \<longrightarrow> dn' ! su_idx depth (tail + of_nat j) = dn ! su_idx depth (tail + of_nat j))
    \<and> newf' = (if k = 0 then newf else Some (su_end q ! su_idx depth (tail + of_nat (k - 1))))"
  using assms(2-)
proof (induction n arbitrary: tail dn newf)
  case 0
  then show ?case by (intro exI [of _ 0]) simp
next
  case (Suc n)
  let ?i = "su_idx depth tail"
  show ?case
  proof (cases "dn ! ?i")
    case False
    with Suc.prems show ?thesis by (intro exI [of _ 0]) (simp add: Let_def)
  next
    case True
    with Suc.prems have r: "fifo_release depth q n (tail + 1) (dn[?i := False]) (Some (su_end q ! ?i)) = (tail', dn', newf')"
      by (simp add: Let_def)
    have sh: "tail + 1 + of_nat j = tail + of_nat (Suc j)" for j by (simp add: algebra_simps)
    have ne: "su_idx depth (tail + of_nat (Suc j)) \<noteq> ?i" if "Suc j < depth" for j
      using su_idx_inj [OF assms(1), of "Suc j" 0 tail] that by auto
    from Suc.IH [OF _ _ r] Suc.prems(1,2) obtain k where k: "k \<le> n" "tail' = tail + of_nat (Suc k)"
      "length dn' = depth"
      "\<forall>j < k. dn[?i := False] ! su_idx depth (tail + of_nat (Suc j))"
      "k < n \<longrightarrow> \<not> dn[?i := False] ! su_idx depth (tail + of_nat (Suc k))"
      "\<forall>j. k \<le> j \<longrightarrow> j < depth \<longrightarrow> dn' ! su_idx depth (tail + of_nat (Suc j))
         = dn[?i := False] ! su_idx depth (tail + of_nat (Suc j))"
      "newf' = (if k = 0 then Some (su_end q ! ?i) else Some (su_end q ! su_idx depth (tail + of_nat (Suc (k - 1)))))"
      unfolding sh by auto
    show ?thesis
    proof (intro exI [of _ "Suc k"] conjI allI impI)
      fix j assume j: "j < Suc k"
      show "dn ! su_idx depth (tail + of_nat j)"
      proof (cases j)
        case (Suc m)
        with j k(1) Suc.prems(1) have "Suc m < depth" by simp
        moreover from j Suc k(4) have "dn[?i := False] ! su_idx depth (tail + of_nat (Suc m))" by blast
        ultimately show ?thesis using ne [of m] Suc by (simp del: of_nat_Suc)
      qed (use True in simp)
    next
      assume "Suc k < Suc n"
      with k(5) ne [of k] Suc.prems(1) show "\<not> dn ! su_idx depth (tail + of_nat (Suc k))"
        by (simp del: of_nat_Suc)
    next
      fix j assume j: "Suc k \<le> j" "j < depth"
      then obtain m where m: "j = Suc m" by (cases j) auto
      with ne [of m] k(6) j show "dn' ! su_idx depth (tail + of_nat j) = dn ! su_idx depth (tail + of_nat j)"
        by (simp del: of_nat_Suc)
    qed (use k in \<open>auto simp del: of_nat_Suc\<close>)
  qed
qed

text \<open>
  The specification: the acknowledged unit is marked, then the longest marked prefix is released.
\<close>

definition unit_done :: "unit_rec \<Rightarrow> bool" where
  "unit_done u = snd (snd u)"

definition ack_units :: "u16 \<Rightarrow> unit_rec list \<Rightarrow> unit_rec list" where
  "ack_units seq us =
     (if us = [] then us
      else let j = unat (seq - fst (us ! 0))
           in if j < length us \<and> fst (us ! j) = seq then us[j := (seq, fst (snd (us ! j)), True)] else us)"

definition fifo_clean :: "nat \<Rightarrow> su_fifo \<Rightarrow> bool" where
  "fifo_clean depth q \<longleftrightarrow> units depth q = [] \<or> \<not> unit_done (units depth q ! 0)"

lemma prefix_while:
  assumes "k \<le> length xs" and "\<And>i. i < k \<Longrightarrow> P (xs ! i)" and "k < length xs \<Longrightarrow> \<not> P (xs ! k)"
  shows "takeWhile P xs = take k xs" "dropWhile P xs = drop k xs"
proof -
  show t: "takeWhile P xs = take k xs" by (rule takeWhile_eq_take_P_nth) (use assms in auto)
  show "dropWhile P xs = drop k xs" using dropWhile_eq_drop [of P xs] t assms(1) by simp
qed

lemma fifo_ack_accepted:
  assumes "fifo_ok depth q" and "su_alloc q" and "rel < su_head q - su_tail q"
    and dn: "dn = (su_done q)[su_idx depth (su_tail q + rel) := True]"
    and seq: "su_seq q ! su_idx depth (su_tail q + rel) = seq"
    and r: "fifo_release depth q (unat (su_head q - su_tail q)) (su_tail q) dn None = (tail', dn', newf)"
  defines "us \<equiv> (units depth q)[unat rel := (seq, fst (snd (units depth q ! unat rel)), True)]"
    and "q' \<equiv> q\<lparr>su_done := dn', su_tail := tail'\<rparr>"
  shows "fifo_ok depth q' \<and> units depth q' = dropWhile unit_done us
    \<and> newf = (if takeWhile unit_done us = [] then None else Some (fst (snd (last (takeWhile unit_done us)))))"
proof -
  let ?n = "unat (su_head q - su_tail q)"
  have D: "depth_ok depth" and n: "?n \<le> depth" and len: "length (su_done q) = depth"
    using assms(1,2) by (auto simp: fifo_ok_def)
  have j: "unat rel < ?n" using assms(3) by (simp add: word_less_nat_alt)
  have us: "us ! m = (fst (unit_at depth q m), fst (snd (unit_at depth q m)), dn ! su_idx depth (su_tail q + of_nat m))"
    if m: "m < ?n" for m
  proof (cases "m = unat rel")
    case True
    then show ?thesis
      using j seq len su_idx_lt [OF D] by (simp add: us_def units_nth dn unit_at_def Let_def)
  next
    case False
    have "su_idx depth (su_tail q + of_nat m) \<noteq> su_idx depth (su_tail q + rel)"
      using su_idx_inj [OF D, of m "unat rel" "su_tail q"] False m j n by auto
    with False m show ?thesis by (simp add: us_def units_nth dn unit_at_def Let_def)
  qed
  obtain k where k: "k \<le> ?n" "tail' = su_tail q + of_nat k" "length dn' = depth"
    "\<forall>j < k. dn ! su_idx depth (su_tail q + of_nat j)"
    "k < ?n \<longrightarrow> \<not> dn ! su_idx depth (su_tail q + of_nat k)"
    "\<forall>j. k \<le> j \<longrightarrow> j < depth \<longrightarrow> dn' ! su_idx depth (su_tail q + of_nat j) = dn ! su_idx depth (su_tail q + of_nat j)"
    "newf = (if k = 0 then None else Some (su_end q ! su_idx depth (su_tail q + of_nat (k - 1))))"
    using fifo_release_spec [OF D n _ r] len dn by auto
  have lus: "length us = ?n" by (simp add: us_def)
  have w: "takeWhile unit_done us = take k us" "dropWhile unit_done us = drop k us"
    using prefix_while [of k us unit_done] k(1,4,5) us lus by (auto simp: unit_done_def)
  have out: "unat (su_head q - tail') = ?n - k"
  proof -
    have e: "su_head q - tail' = (su_head q - su_tail q) - of_nat k" by (simp add: k(2))
    have "unat (of_nat k :: u16) = k" using k(1) n depth_okD [OF D] by (simp add: unat_of_nat_mod)
    then show ?thesis unfolding e using k(1) by (subst unat_sub_word) simp_all
  qed
  have "units depth q' = drop k us"
  proof (rule nth_equalityI)
    show "length (units depth q') = length (drop k us)" by (simp add: q'_def out lus)
    fix m assume "m < length (units depth q')"
    then have m: "m < ?n - k" by (simp add: q'_def out)
    have "units depth q' ! m = unit_at depth q' m" using m by (simp add: units_nth q'_def out)
    also have "\<dots> = us ! (k + m)"
      using us [of "k + m"] m k(6) [rule_format, of "k + m"] n
      by (simp add: unit_at_def q'_def k(2) Let_def add.assoc)
    finally show "units depth q' ! m = drop k us ! m" using m lus by simp
  qed
  moreover have "newf = (if take k us = [] then None else Some (fst (snd (last (take k us)))))"
  proof (cases k)
    case (Suc k')
    then have "last (take k us) = us ! k'" using k(1) lus by (simp add: last_conv_nth take_Suc_conv_app_nth)
    with us [of k'] Suc k(1,7) lus show ?thesis by (auto simp: unit_at_def Let_def)
  qed (use k in simp)
  moreover have "fifo_ok depth q'" using assms(1,2) k(1,3) out n by (auto simp: fifo_ok_def q'_def)
  ultimately show ?thesis by (simp add: w)
qed

lemma dropWhile_clean: "dropWhile P xs = [] \<or> \<not> P (dropWhile P xs ! 0)"
  using hd_dropWhile [of P xs] by (cases "dropWhile P xs") auto

lemma clean_while: "xs = [] \<or> \<not> P (xs ! 0) \<Longrightarrow> dropWhile P xs = xs \<and> takeWhile P xs = []"
  by (cases xs) auto

definition ack_hits :: "nat \<Rightarrow> u16 \<Rightarrow> su_fifo \<Rightarrow> bool" where
  "ack_hits depth seq q \<longleftrightarrow>
     (let rel = seq - su_seq q ! su_idx depth (su_tail q)
      in rel < su_head q - su_tail q \<and> su_seq q ! su_idx depth (su_tail q + rel) = seq)"

lemma fifo_ack_miss: "\<not> ack_hits depth seq q \<Longrightarrow> fifo_ack depth seq q = (None, q)"
  by (auto simp: fifo_ack_def ack_hits_def Let_def)

lemma fifo_ack_hit:
  assumes "ack_hits depth seq q"
  defines "rel \<equiv> seq - su_seq q ! su_idx depth (su_tail q)"
  shows "fifo_ack depth seq q =
    (case fifo_release depth q (unat (su_head q - su_tail q)) (su_tail q)
            ((su_done q)[su_idx depth (su_tail q + rel) := True]) None of
       (tail', done', newf) \<Rightarrow> (newf, q\<lparr>su_done := done', su_tail := tail'\<rparr>))"
proof -
  have "rel < su_head q - su_tail q" "su_seq q ! su_idx depth (su_tail q + rel) = seq"
    using assms by (simp_all add: ack_hits_def Let_def)
  moreover from this(1) have "su_tail q \<noteq> su_head q" by auto
  ultimately show ?thesis unfolding fifo_ack_def Let_def rel_def [symmetric] by auto
qed

lemma units_first:
  assumes "0 < unat (su_head q - su_tail q)"
  shows "fst (units depth q ! 0) = su_seq q ! su_idx depth (su_tail q)"
  using assms by (simp add: units_nth unit_at_def Let_def)

lemma units_fst_nth:
  assumes "rel < su_head q - su_tail q"
  shows "fst (units depth q ! unat rel) = su_seq q ! su_idx depth (su_tail q + rel)"
  using assms by (simp add: units_nth unit_at_def Let_def word_less_nat_alt)

lemma ack_units_miss:
  assumes "\<not> ack_hits depth seq q"
  shows "ack_units seq (units depth q) = units depth q"
proof (cases "units depth q = []")
  case False
  then have pos: "0 < unat (su_head q - su_tail q)" by (metis length_units length_greater_0_conv)
  show ?thesis
    using assms units_fst_nth [of "seq - su_seq q ! su_idx depth (su_tail q)" q depth]
    by (auto simp: ack_units_def ack_hits_def Let_def units_first [OF pos] word_less_nat_alt)
qed (simp add: ack_units_def)

lemma ack_units_hit:
  assumes "ack_hits depth seq q"
  defines "rel \<equiv> seq - su_seq q ! su_idx depth (su_tail q)"
  shows "ack_units seq (units depth q)
    = (units depth q)[unat rel := (seq, fst (snd (units depth q ! unat rel)), True)]"
proof -
  have r: "rel < su_head q - su_tail q" and e: "su_seq q ! su_idx depth (su_tail q + rel) = seq"
    using assms by (simp_all add: ack_hits_def Let_def)
  from r have lt: "unat rel < unat (su_head q - su_tail q)" by (simp add: word_less_nat_alt)
  then have pos: "0 < unat (su_head q - su_tail q)" by simp
  then have "units depth q \<noteq> []" by (metis length_units length_greater_0_conv)
  with lt units_fst_nth [OF r, of depth] e show ?thesis
    unfolding ack_units_def Let_def units_first [OF pos] rel_def [symmetric] by simp
qed

lemma fifo_ack_spec:
  assumes "fifo_ok depth q" and "fifo_clean depth q" and a: "fifo_ack depth seq q = (newf, q')"
  shows "fifo_ok depth q' \<and> fifo_clean depth q'
    \<and> units depth q' = dropWhile unit_done (ack_units seq (units depth q))
    \<and> newf = (let rel = takeWhile unit_done (ack_units seq (units depth q))
              in if rel = [] then None else Some (fst (snd (last rel))))
    \<and> su_head q' = su_head q \<and> su_alloc q' = su_alloc q"
proof (cases "ack_hits depth seq q")
  case False
  with a assms(1,2) clean_while [of "units depth q" unit_done] show ?thesis
    by (simp add: fifo_ack_miss ack_units_miss fifo_clean_def)
next
  case True
  let ?rel = "seq - su_seq q ! su_idx depth (su_tail q)"
  obtain tail' dn' nf where r: "fifo_release depth q (unat (su_head q - su_tail q)) (su_tail q)
      ((su_done q)[su_idx depth (su_tail q + ?rel) := True]) None = (tail', dn', nf)"
    by (metis prod_cases3)
  from fifo_ack_hit [OF True] a r have q': "newf = nf" "q' = q\<lparr>su_done := dn', su_tail := tail'\<rparr>" by simp_all
  from True have h: "?rel < su_head q - su_tail q" "su_seq q ! su_idx depth (su_tail q + ?rel) = seq"
    by (simp_all add: ack_hits_def Let_def)
  then have "su_alloc q" using assms(1) by (cases "su_alloc q") (simp_all add: fifo_ok_def)
  from fifo_ack_accepted [OF assms(1) this h(1) refl h(2) r, folded ack_units_hit [OF True] q']
  have acc: "fifo_ok depth q'" "units depth q' = dropWhile unit_done (ack_units seq (units depth q))"
    "newf = (let rel = takeWhile unit_done (ack_units seq (units depth q))
       in if rel = [] then None else Some (fst (snd (last rel))))"
    by (simp_all add: Let_def)
  have "fifo_clean depth q'"
    using dropWhile_clean [of unit_done "ack_units seq (units depth q)"] by (simp add: fifo_clean_def acc(2))
  with acc show ?thesis by (simp add: q')
qed

section \<open>Properties\<close>

text \<open>
  C8. Acknowledgements may arrive in any order: one marks exactly the unit with its sequence number
  (a stale, duplicate or unknown one changes nothing), and the queue then releases precisely the
  longest acknowledged prefix, with the end of the last released unit as the new free cursor. A
  unit that is still being read is never released by a later unit's acknowledgement.
\<close>

theorem ack_releases_acknowledged_prefix:
  assumes "fifo_ok depth q" and "fifo_clean depth q" and "fifo_ack depth seq q = (newf, q')"
  shows "fifo_ok depth q' \<and> fifo_clean depth q'
    \<and> units depth q' = dropWhile unit_done (ack_units seq (units depth q))
    \<and> newf = (let rel = takeWhile unit_done (ack_units seq (units depth q))
              in if rel = [] then None else Some (fst (snd (last rel))))"
  using fifo_ack_spec [OF assms] by blast

definition demo_fifo :: su_fifo where
  "demo_fifo = \<lparr>su_alloc = True, su_seq = [65535, 0, 1, 7], su_end = [100, 250, 300, 0],
     su_done = [False, True, False, False], su_head = 3, su_tail = 0\<rparr>"

lemma demo_fifo_ok: "fifo_ok 4 demo_fifo"
proof -
  have "depth_ok 4" unfolding depth_ok_def by (rule exI [of _ 2]) simp
  then show ?thesis by (simp add: fifo_ok_def demo_fifo_def)
qed

theorem ack_releases_acknowledged_prefix_witness:
  "fifo_ok 4 demo_fifo \<and> fifo_clean 4 demo_fifo
    \<and> fst (fifo_ack 4 65535 demo_fifo) = Some 250
    \<and> units 4 (snd (fifo_ack 4 65535 demo_fifo)) = [(1, 300, False)]"
proof -
  have u: "units 4 demo_fifo = [(65535, 100, False), (0, 250, True), (1, 300, False)]"
    by (simp add: units_def unit_at_def demo_fifo_def su_idx_def upt_rec Let_def)
  then have c: "fifo_clean 4 demo_fifo" by (simp add: fifo_clean_def unit_done_def)
  obtain newf q' where a: "fifo_ack 4 65535 demo_fifo = (newf, q')" by fastforce
  from ack_releases_acknowledged_prefix [OF demo_fifo_ok c a] demo_fifo_ok c a show ?thesis
    by (simp add: u ack_units_def unit_done_def)
qed

text \<open>
  C22. A unit is recorded before its descriptor is posted, and when the post fails the record is
  taken back: undoing the newest unit restores the send cursor and the queue exactly.
\<close>

theorem untrack_undoes_track:
  assumes "fifo_ok depth q" and "fifo_track depth seq len s q = Inr (sent, q')"
  shows "units depth q' = units depth q @ [(seq, s + len, False)]
    \<and> (\<exists>q''. fifo_untrack depth seq len sent q' = Some (s, q'') \<and> fifo_ok depth q''
         \<and> units depth q'' = units depth q)"
  using fifo_track_ok [OF assms] fifo_untrack_track [OF assms] by blast

theorem untrack_undoes_track_witness:
  "\<exists>sent q'. fifo_track 4 2 50 300 demo_fifo = Inr (sent, q')
     \<and> (\<exists>q''. fifo_untrack 4 2 50 sent q' = Some (300, q'') \<and> units 4 q'' = units 4 demo_fifo)"
proof -
  obtain sent q' where t: "fifo_track 4 2 50 300 demo_fifo = Inr (sent, q')"
    by (simp add: fifo_track_def demo_fifo_def Let_def)
  from untrack_undoes_track [OF demo_fifo_ok t] t show ?thesis by blast
qed

end
