(* ===== verification/Host_Tx.thy ===== *)
theory Host_Tx
  imports Host_Events Tx_Fifo
begin

text \<open>
  The transmit byte ring of a connection (\<^verbatim>\<open>src/core/dmesh_core.c\<close>): logical blocks backed by blocks of
  the shared pool, the reserve, commit and send cursors over them, recycling and return of drained
  blocks, acknowledgement, and the descriptor post. The send-unit queue is the one of \<open>Tx_Fifo\<close>.
  The counters that only feed statistics are left out.
\<close>

section \<open>Blocks of a connection\<close>

definition upd_tx :: "nat \<Rightarrow> (tx_chain \<Rightarrow> tx_chain) \<Rightarrow> dpumesh_ctx \<Rightarrow> dpumesh_ctx" where
  "upd_tx port f = upd_port port (\<lambda>psl. psl\<lparr>tx := f (tx psl)\<rparr>)"

definition port_reset_tx :: "dmesh_port_slot \<Rightarrow> dmesh_port_slot" where
  "port_reset_tx psl = psl\<lparr>
     tx_deadline_ns := 0, tx_error := None,
     tx := (tx psl)\<lparr>tx_w := 0, tx_s := 0, tx_c := 0, resv_len := 0, resv_moff := 0, tx_f := 0,
                    tail_blk := 0, head_blk_next := 0, nblk_owned := 0, nrec := 0,
                    pblk := replicate TX_BLOCKS_PER_CONN (-1),
                    blk_used := replicate TX_BLOCKS_PER_CONN 0\<rparr>,
     su := (su psl)\<lparr>su_head := 0, su_tail := 0\<rparr>,
     tx_wait_state := TX_WAIT_IDLE, tx_wait_reason := TX_WAIT_NONE, tx_wait_su_tail := 0\<rparr>"

text \<open>Move the block in slot \<open>s\<close>, if there is one, to the recycled stack.\<close>

definition recycle_slot :: "nat \<Rightarrow> tx_chain \<Rightarrow> tx_chain" where
  "recycle_slot s tc =
     (if pblk tc ! s \<ge> 0
      then tc\<lparr>recyc := (recyc tc)[nrec tc := pblk tc ! s], nrec := nrec tc + 1, pblk := (pblk tc)[s := -1]\<rparr>
      else tc)"

text \<open>The loop over the fully freed blocks at the tail; \<open>n\<close> of them remain.\<close>

primrec recycle_tail :: "nat \<Rightarrow> nat \<Rightarrow> tx_chain \<Rightarrow> tx_chain" where
  "recycle_tail block_slots 0 tc = tc"
| "recycle_tail block_slots (Suc n) tc =
     recycle_tail block_slots n
       ((recycle_slot (tail_blk tc mod block_slots) tc)\<lparr>tail_blk := tail_blk tc + 1\<rparr>)"

definition refresh_chain :: "nat \<Rightarrow> nat \<Rightarrow> su_fifo \<Rightarrow> tx_chain \<Rightarrow> tx_chain" where
  "refresh_chain bs block_slots q tc =
     (let f = tx_f tc; f_blk = f div bs;
          tc1 = recycle_tail block_slots (f_blk - tail_blk tc) tc
      in if f = tx_w tc1 \<and> su_head q = su_tail q
         then (recycle_slot (f_blk mod block_slots) tc1)
                \<lparr>tx_w := 0, tx_s := 0, tx_c := 0, tx_f := 0, tail_blk := 0, head_blk_next := 0\<rparr>
         else tc1)"

text \<open>Pop the recycled stack.\<close>

definition pop_recycled :: "tx_chain \<Rightarrow> int \<times> tx_chain" where
  "pop_recycled tc = (recyc tc ! (nrec tc - 1), tc\<lparr>nrec := nrec tc - 1\<rparr>)"

primrec return_surplus :: "nat \<Rightarrow> nat \<Rightarrow> dpumesh_ctx \<Rightarrow> dpumesh_ctx" where
  "return_surplus port 0 ctx = ctx"
| "return_surplus port (Suc n) ctx =
     (let (b, tc) = pop_recycled (tx (ports ctx port))
      in return_surplus port n
           (upd_tx port (\<lambda>tc. tc\<lparr>nblk_owned := nblk_owned tc - 1\<rparr>)
             (block_pool_return b (upd_tx port (\<lambda>_. tc) ctx))))"

definition tx_refresh_blocks :: "nat \<Rightarrow> dpumesh_ctx \<Rightarrow> dpumesh_ctx" where
  "tx_refresh_blocks port ctx =
     (let psl = ports ctx port;
          tc = refresh_chain (block_size ctx) (blocks_per_conn ctx) (su psl) (tx psl)
      in return_surplus port (nrec tc - recycle_reserve ctx) (upd_tx port (\<lambda>_. tc) ctx))"

text \<open>Return of everything a closed and drained connection holds.\<close>

primrec return_assigned :: "nat \<Rightarrow> nat list \<Rightarrow> dpumesh_ctx \<Rightarrow> dpumesh_ctx" where
  "return_assigned port [] ctx = ctx"
| "return_assigned port (k # ks) ctx =
     (let s = k mod blocks_per_conn ctx; b = pblk (tx (ports ctx port)) ! s
      in return_assigned port ks
           (if b \<ge> 0
            then upd_tx port (\<lambda>tc. tc\<lparr>pblk := (pblk tc)[s := -1]\<rparr>) (block_pool_return b ctx)
            else ctx))"

primrec return_recycled :: "nat \<Rightarrow> nat \<Rightarrow> dpumesh_ctx \<Rightarrow> dpumesh_ctx" where
  "return_recycled port 0 ctx = ctx"
| "return_recycled port (Suc n) ctx =
     (let (b, tc) = pop_recycled (tx (ports ctx port))
      in return_recycled port n (block_pool_return b (upd_tx port (\<lambda>_. tc) ctx)))"

definition try_return_blocks :: "nat \<Rightarrow> dpumesh_ctx \<Rightarrow> dpumesh_ctx" where
  "try_return_blocks port ctx =
     (let psl = ports ctx port; tc = tx psl
      in if role psl \<noteq> ROLE_FREE \<or> nblk_owned tc \<le> 0 \<or> tx_w tc \<noteq> tx_f tc then ctx
         else
           let ctx1 = return_assigned port [tail_blk tc..<head_blk_next tc] ctx
           in upd_tx port (\<lambda>tc. tc\<lparr>nblk_owned := 0\<rparr>)
                (return_recycled port (nrec (tx (ports ctx1 port))) ctx1))"

section \<open>Reserve, commit, discard\<close>

definition tx_tracking_slots_needed :: "dpumesh_ctx \<Rightarrow> tx_chain \<Rightarrow> nat \<Rightarrow> nat" where
  "tx_tracking_slots_needed ctx tc len =
     (let pending = tx_w tc - tx_s tc;
          min_payload = min (slot_size ctx) (unat (DPA_DMA_COPY_MAX - (DPA_DMA_COPY_ALIGN - 1)))
      in if min_payload = 0 then su_depth ctx
         else
           let bytes = pending + len;
               needed = (bytes + min_payload - 1) div min_payload;
               off = tx_w tc mod block_size ctx;
               needed1 = (if off + len > block_size ctx then needed + 1 else needed);
               needed2 = (if needed1 = 0 then 1 else needed1)
           in min needed2 (2 ^ 32 - 1))"

definition tx_tracking_reserve_room :: "dpumesh_ctx \<Rightarrow> dmesh_port_slot \<Rightarrow> nat \<Rightarrow> bool" where
  "tx_tracking_reserve_room ctx psl len \<longleftrightarrow>
     (let outstanding = unat (su_head (su psl) - su_tail (su psl));
          capacity = (if su_depth ctx > 0 then su_depth ctx - 1 else 0);
          needed = tx_tracking_slots_needed ctx (tx psl) len
      in outstanding \<le> capacity \<and> needed \<le> capacity - outstanding)"

text \<open>Where the next message of \<open>len\<close> bytes goes: its logical block, the offset in it, and whether the
  current block has to be sealed first.\<close>

definition probe_head :: "nat \<Rightarrow> nat \<Rightarrow> tx_chain \<Rightarrow> nat \<times> nat \<times> bool \<times> nat" where
  "probe_head bs len tc =
     (let k = tx_w tc div bs; off = tx_w tc mod bs; pad = (off + len > bs)
      in (k, off, pad, if pad then k + 1 else k))"

text \<open>The loop that backs the logical blocks up to \<open>k\<close>; \<open>n\<close> of them are missing.\<close>

primrec back_blocks :: "nat \<Rightarrow> nat \<Rightarrow> int \<Rightarrow> tx_chain \<Rightarrow> tx_chain" where
  "back_blocks block_slots 0 phys tc = tc"
| "back_blocks block_slots (Suc n) phys tc =
     (let b = head_blk_next tc; bslot = b mod block_slots;
          (phys1, tc1) =
            (if nrec tc > 0
             then let (r, tc') = pop_recycled tc in (phys, tc'\<lparr>pblk := (pblk tc')[bslot := r]\<rparr>)
             else (-1, tc\<lparr>pblk := (pblk tc)[bslot := phys], nblk_owned := nblk_owned tc + 1\<rparr>))
      in back_blocks block_slots n phys1
           (tc1\<lparr>blk_used := (blk_used tc1)[bslot := 0], head_blk_next := b + 1\<rparr>))"

definition place_message :: "nat \<Rightarrow> nat \<Rightarrow> nat \<Rightarrow> int \<Rightarrow> tx_chain \<Rightarrow> nat \<times> tx_chain" where
  "place_message bs block_slots len phys tc =
     (let (k, off, pad, need_k) = probe_head bs len tc;
          tc1 = (if pad then tc\<lparr>blk_used := (blk_used tc)[k mod block_slots := off], tx_w := (k + 1) * bs\<rparr> else tc);
          off1 = (if pad then 0 else off);
          tc2 = back_blocks block_slots (need_k + 1 - head_blk_next tc1) phys tc1;
          moff = nat (pblk tc2 ! (need_k mod block_slots)) * bs + off1
      in (moff, tc2\<lparr>resv_len := len, resv_moff := moff\<rparr>))"

text \<open>
  \<open>dpumesh_tx_reserve\<close>. The result is the offset of the reserved bytes in the TX mapping, or the
  \<open>errno\<close>; \<open>mem\<close> says whether the lazy allocation of the send-unit queue succeeds.
\<close>

definition dpumesh_tx_reserve :: "bool \<Rightarrow> nat \<Rightarrow> nat \<Rightarrow> dpumesh_ctx \<Rightarrow> (errno + nat) \<times> dpumesh_ctx" where
  "dpumesh_tx_reserve mem port len ctx =
     (let bs = block_size ctx; n = blocks_per_conn ctx; psl = ports ctx port
      in if port = 0 \<or> len = 0 \<or> len > bs \<or> \<not> live_role (role psl) then (Inl EINVAL, ctx)
         else if tx_error psl \<noteq> None then (Inl (the (tx_error psl)), ctx)
         else if resv_len (tx psl) \<noteq> 0 then (Inl EINVAL, ctx)
         else
           (case tx_tracking_ensure mem (su_depth ctx) (su psl) of
              Inl e \<Rightarrow> (Inl e, ctx)
            | Inr q \<Rightarrow>
                let ctx = upd_port port (\<lambda>psl. psl\<lparr>su := q\<rparr>) ctx
                in if \<not> tx_tracking_reserve_room ctx (ports ctx port) len
                   then (Inl EAGAIN, tx_wait_arm port TX_WAIT_SU_RECLAIM ctx)
                   else
                     let (k, off, pad, need_k) = probe_head bs len (tx (ports ctx port));
                         ctx = (if head_blk_next (tx (ports ctx port)) \<le> need_k
                                then tx_refresh_blocks port ctx else ctx);
                         tc = tx (ports ctx port);
                         (k, off, pad, need_k) = probe_head bs len tc
                     in if head_blk_next tc > need_k then
                          let ctx = tx_wait_cancel port ctx;
                              (moff, tc') = place_message bs n len (-1) (tx (ports ctx port))
                          in (Inr moff, upd_tx port (\<lambda>_. tc') ctx)
                        else if \<not> (head_blk_next tc - tail_blk tc < n
                                   \<and> (nrec tc > 0 \<or> nblk_owned tc < int n))
                        then (Inl EAGAIN, tx_wait_arm port TX_WAIT_QP_RECLAIM ctx)
                        else if nrec tc > 0 then
                          let ctx = tx_wait_cancel port ctx;
                              (moff, tc') = place_message bs n len (-1) (tx (ports ctx port))
                          in (Inr moff, upd_tx port (\<lambda>_. tc') ctx)
                        else
                          (case block_pool_grab (pool ctx) of
                             None \<Rightarrow> (Inl EAGAIN, tx_wait_arm port TX_WAIT_SHARED_POOL ctx)
                           | Some (phys, pl) \<Rightarrow>
                               let ctx = tx_wait_cancel port (ctx\<lparr>pool := pl\<rparr>);
                                   (moff, tc') = place_message bs n len (int phys) (tx (ports ctx port))
                               in (Inr moff, upd_tx port (\<lambda>_. tc') ctx))))"

text \<open>\<open>buf\<close> is the caller's pointer as an offset in the TX mapping, \<open>None\<close> for a null pointer.\<close>

definition commit_chain :: "nat \<Rightarrow> nat \<Rightarrow> nat \<Rightarrow> tx_chain \<Rightarrow> tx_chain" where
  "commit_chain bs block_slots len tc =
     (let k = tx_w tc div bs; w = tx_w tc + len
      in tc\<lparr>tx_w := w, blk_used := (blk_used tc)[k mod block_slots := w - k * bs], tx_c := w,
            resv_len := 0, resv_moff := 0\<rparr>)"

definition dpumesh_tx_commit :: "nat \<Rightarrow> nat option \<Rightarrow> nat \<Rightarrow> dpumesh_ctx \<Rightarrow> (errno + unit) \<times> dpumesh_ctx" where
  "dpumesh_tx_commit port buf len ctx =
     (let psl = ports ctx port; tc = tx psl
      in if port = 0 \<or> buf = None then (Inl EINVAL, ctx)
         else if tx_error psl \<noteq> None then (Inl (the (tx_error psl)), ctx)
         else if nblk_owned tc \<le> 0 then (Inl EINVAL, ctx)
         else if resv_len tc = 0 \<or> len = 0 \<or> len > resv_len tc \<or> buf \<noteq> Some (resv_moff tc)
         then (Inl EINVAL, ctx)
         else (Inr (), upd_tx port (commit_chain (block_size ctx) (blocks_per_conn ctx) len) ctx))"

definition dpumesh_tx_discard_unsent :: "nat \<Rightarrow> dpumesh_ctx \<Rightarrow> dpumesh_ctx" where
  "dpumesh_tx_discard_unsent port ctx =
     (let tc = tx (ports ctx port); sent = tx_s tc; k = sent div block_size ctx
      in if nblk_owned tc \<le> 0 then ctx
         else upd_tx port (\<lambda>tc. tc\<lparr>tx_c := sent, tx_w := sent, resv_len := 0, resv_moff := 0,
                blk_used := (blk_used tc)[k mod blocks_per_conn ctx := sent - k * block_size ctx]\<rparr>) ctx)"

section \<open>Selecting the next unit\<close>

text \<open>
  \<open>dpumesh_tx_next_send_upto\<close>: the next unit as an offset in the TX mapping and a length, and the
  chain with the send cursor moved past exhausted block tails. \<open>limit\<close> bounds the committed bytes
  considered (\<open>None\<close> for \<open>UINT64_MAX\<close>). A block size of zero is a division by zero in the code.
\<close>

function next_send_upto :: "nat \<Rightarrow> nat \<Rightarrow> nat \<Rightarrow> bool \<Rightarrow> nat option \<Rightarrow> tx_chain \<Rightarrow> (nat \<times> nat) option \<times> tx_chain" where
  "next_send_upto bs block_slots slot_sz flush_partial lim tc =
     (let committed = (case lim of None \<Rightarrow> tx_c tc | Some l \<Rightarrow> min (tx_c tc) l); sent = tx_s tc
      in if bs = 0 \<or> sent \<ge> committed then (None, tc)
         else
           let k = sent div bs; off = sent mod bs; used = blk_used tc ! (k mod block_slots)
           in if off \<ge> used then
                next_send_upto bs block_slots slot_sz flush_partial lim (tc\<lparr>tx_s := (k + 1) * bs\<rparr>)
              else
                let content_end = k * bs + used;
                    avail = min committed content_end - sent;
                    moff = nat (pblk tc ! (k mod block_slots)) * bs + off;
                    payload_cap = unat (dpa_dma_payload_cap (of_nat moff) (of_nat slot_sz))
                in if \<not> flush_partial \<and> avail < payload_cap \<and> committed \<le> content_end then (None, tc)
                   else (Some (moff, min avail payload_cap), tc))"
  by pat_completeness auto

lemma next_block_gt: "0 < bs \<Longrightarrow> (s :: nat) < (s div bs + 1) * bs"
  by (metis Suc_eq_plus1 dividend_less_div_times mult.commute mult_Suc)

termination next_send_upto
proof (relation "measure (\<lambda>(bs, n, sz, fl, lim, tc). tx_c tc - tx_s tc)", goal_cases)
  case (2 bs n sz fl lim tc)
  then have "tx_s tc < tx_c tc" "0 < bs" by (auto split: option.splits)
  with next_block_gt [of bs "tx_s tc"] 2 show ?case by simp
qed simp

declare next_send_upto.simps [simp del]

definition dpumesh_tx_next_send_upto ::
  "nat \<Rightarrow> bool \<Rightarrow> nat option \<Rightarrow> dpumesh_ctx \<Rightarrow> (nat \<times> nat) option \<times> dpumesh_ctx" where
  "dpumesh_tx_next_send_upto port flush_partial lim ctx =
     (let (u, tc) = next_send_upto (block_size ctx) (blocks_per_conn ctx) (slot_size ctx) flush_partial lim
                      (tx (ports ctx port))
      in (u, upd_tx port (\<lambda>_. tc) ctx))"

section \<open>Tracking, posting, acknowledging\<close>

definition dpumesh_tx_track :: "nat \<Rightarrow> u16 \<Rightarrow> nat \<Rightarrow> dpumesh_ctx \<Rightarrow> errno + dpumesh_ctx" where
  "dpumesh_tx_track port seq len ctx =
     (case fifo_track (su_depth ctx) seq len (tx_s (tx (ports ctx port))) (su (ports ctx port)) of
        Inl e \<Rightarrow> Inl e
      | Inr (sent, q) \<Rightarrow>
          Inr (upd_port port (\<lambda>psl. psl\<lparr>tx := (tx psl)\<lparr>tx_s := sent\<rparr>, su := q\<rparr>) ctx))"

definition dpumesh_tx_untrack :: "nat \<Rightarrow> u16 \<Rightarrow> nat \<Rightarrow> dpumesh_ctx \<Rightarrow> dpumesh_ctx" where
  "dpumesh_tx_untrack port seq len ctx =
     (case fifo_untrack (su_depth ctx) seq len (tx_s (tx (ports ctx port))) (su (ports ctx port)) of
        None \<Rightarrow> ctx
      | Some (sent, q) \<Rightarrow>
          upd_port port (\<lambda>psl. psl\<lparr>tx := (tx psl)\<lparr>tx_s := sent\<rparr>, su := q\<rparr>) ctx)"

text \<open>
  The post of one descriptor. The claim of a ring cell is the interleaved protocol of
  \<open>Fwd_Ring\<close>; here its outcome is an input per call: a cell was claimed, the ring was seen dead, or
  the stall deadline passed. An error value \<open>None\<close> is a rejection that leaves \<open>errno\<close> untouched.
\<close>

datatype ring_claim = Claim_Ok | Claim_Dead | Claim_Stalled

definition fill_dma_desc :: "dpumesh_ctx \<Rightarrow> sw_descriptor \<Rightarrow> dma_desc" where
  "fill_dma_desc ctx d =
     \<lparr>desc_mmap = dpa_mmap_handle ctx, desc_addr = of_int (body_buf_slot d), desc_size = body_len d,
      desc_seq = sw_seq d, desc_src_port = src_port d, desc_dst_port = dst_port d,
      desc_src_service = int8 (service_id ctx), desc_dst_service = int8 (dst_service d),
      desc_dst_pod_id = dst_pod d, desc_src_pod_id = ctx_pod_id ctx, desc_publish_seq = 0\<rparr>"

definition enqueue_rejects :: "dpumesh_ctx \<Rightarrow> sw_descriptor \<Rightarrow> bool" where
  "enqueue_rejects ctx d \<longleftrightarrow>
     body_buf_slot d < 0
     \<or> body_buf_slot d + int (unat (body_len d)) > int (num_slots ctx * slot_size ctx)
     \<or> unat (body_len d) > slot_size ctx
     \<or> body_len d \<noteq> 0 \<and> body_len d > dpa_dma_payload_cap (of_int (body_buf_slot d)) (of_nat (slot_size ctx))"

definition dpumesh_enqueue ::
  "(nat \<Rightarrow> ring_claim) \<Rightarrow> sw_descriptor \<Rightarrow> dpumesh_ctx \<Rightarrow> (errno option + unit) \<times> dpumesh_ctx" where
  "dpumesh_enqueue claims d ctx =
     (if enqueue_rejects ctx d then (Inl None, ctx)
      else
        let ridx = nat (dmesh_forward_ring (src_port d) (int (k_rings ctx)))
        in if ring_dead ctx ridx then (Inl (Some EIO), ctx)
           else
             let ctx1 = ctx\<lparr>claim_calls := claim_calls ctx + 1\<rparr>
             in case claims (claim_calls ctx) of
                  Claim_Ok \<Rightarrow>
                    (Inr (), ctx1\<lparr>fwd_posted := (fwd_posted ctx)
                       (ridx := fwd_posted ctx ridx @ [fill_dma_desc ctx d])\<rparr>)
                | Claim_Dead \<Rightarrow> (Inl (Some EIO), ctx1\<lparr>ring_dead := (ring_dead ctx)(ridx := True)\<rparr>)
                | Claim_Stalled \<Rightarrow> (Inl (Some EIO), ctx1\<lparr>ring_dead := (ring_dead ctx)(ridx := True)\<rparr>))"

definition tx_reclaim_ack :: "nat \<Rightarrow> u16 \<Rightarrow> dpumesh_ctx \<Rightarrow> dpumesh_ctx" where
  "tx_reclaim_ack port seq ctx =
     (if port = 0 then ctx
      else
        let psl = ports ctx port; (newf, q) = fifo_ack (su_depth ctx) seq (su psl);
            ctx1 = upd_port port (\<lambda>psl. psl\<lparr>su := q\<rparr>) ctx
        in case newf of
             None \<Rightarrow> ctx1
           | Some f \<Rightarrow>
               let ctx2 = upd_tx port (\<lambda>tc. tc\<lparr>tx_f := f\<rparr>) ctx1;
                   psl2 = ports ctx2 port;
                   ctx3 = (if tx_wait_state psl2 = TX_WAIT_ARMED
                               \<and> (tx_wait_reason psl2 = TX_WAIT_SU_RECLAIM
                                  \<or> tx_wait_reason psl2 = TX_WAIT_QP_RECLAIM \<and> tx_wait_qp_retryable ctx2 psl2)
                           then snd (tx_wait_make_ready port ctx2) else ctx2)
               in try_return_blocks port (tx_arm_idle_tail port ctx3))"

end
