(* ===== verification/Host_Rx.thy ===== *)
theory Host_Rx
  imports Host_Tx
begin

text \<open>
  The receive side of the host library (\<^verbatim>\<open>src/core/dmesh_core.c\<close>): admission credits of the landing
  buffer, the inbox of a connection, the accept ring, delivery of a landed message by destination
  port, and the drain of the reverse-completion rings.
\<close>

section \<open>Landing credits\<close>

definition RX_SLOT_SIZE :: nat where "RX_SLOT_SIZE = 8192"

declare RX_SLOT_SIZE_def [dmesh_const]

definition rx_credit_shard_index :: "dpumesh_ctx \<Rightarrow> int \<Rightarrow> nat option" where
  "rx_credit_shard_index ctx pos =
     (if pos < 0 \<or> nat pos \<ge> rx_dma_buf_size ctx then None
      else
        let absolute = nat pos;
            stripe = absolute div rx_region_size ctx;
            stripe_pos = absolute - stripe * rx_region_size ctx;
            shard = (stripe_pos div RX_SLOT_SIZE) mod rx_credit_shards ctx
        in Some (stripe + shard * landing_stripes ctx))"

definition rx_credit_return :: "int \<Rightarrow> dpumesh_ctx \<Rightarrow> dpumesh_ctx" where
  "rx_credit_return pos ctx =
     (case rx_credit_shard_index ctx pos of
        None \<Rightarrow> ctx\<lparr>st_rx_credit_drops := st_rx_credit_drops ctx + 1\<rparr>
      | Some idx \<Rightarrow> ctx\<lparr>credits := (credits ctx)(idx := credits ctx idx + 1)\<rparr>)"

definition dpumesh_rx_buf :: "dpumesh_ctx \<Rightarrow> int \<Rightarrow> nat option" where
  "dpumesh_rx_buf ctx slot = (if slot < 0 \<or> nat slot \<ge> rx_dma_buf_size ctx then None else Some (nat slot))"

definition dpumesh_rx_free :: "int \<Rightarrow> dpumesh_ctx \<Rightarrow> dpumesh_ctx" where
  "dpumesh_rx_free slot = rx_credit_return slot"

section \<open>The inbox of a connection\<close>

datatype inbox_result = Inbox_Full | Inbox_More | Inbox_Edge

definition inbox_push :: "sw_descriptor \<Rightarrow> dmesh_port_slot \<Rightarrow> inbox_result \<times> dmesh_port_slot" where
  "inbox_push d psl =
     (let t = in_tail psl; h = in_head psl
      in if t - h \<ge> inbox_ring psl then (Inbox_Full, psl)
         else
           (if t = h then Inbox_Edge else Inbox_More,
            psl\<lparr>inbox := map_option (\<lambda>ring. ring[t mod inbox_ring psl := d]) (inbox psl), in_tail := t + 1\<rparr>))"

definition inbox_pop :: "dmesh_port_slot \<Rightarrow> (sw_descriptor \<times> dmesh_port_slot) option" where
  "inbox_pop psl =
     (let h = in_head psl; t = in_tail psl
      in if h = t then None
         else Some (the (inbox psl) ! (h mod inbox_ring psl), psl\<lparr>in_head := h + 1\<rparr>))"

text \<open>The loop that returns the credits of everything left in an inbox; \<open>n\<close> messages are queued.\<close>

primrec inbox_drain_credits :: "nat \<Rightarrow> nat \<Rightarrow> dpumesh_ctx \<Rightarrow> dpumesh_ctx" where
  "inbox_drain_credits port 0 ctx = ctx"
| "inbox_drain_credits port (Suc n) ctx =
     (case inbox_pop (ports ctx port) of
        None \<Rightarrow> ctx
      | Some (d, psl) \<Rightarrow>
          inbox_drain_credits port n (rx_credit_return (body_buf_slot d) (upd_port port (\<lambda>_. psl) ctx)))"

definition inbox_drain :: "nat \<Rightarrow> dpumesh_ctx \<Rightarrow> dpumesh_ctx" where
  "inbox_drain port ctx =
     inbox_drain_credits port (in_tail (ports ctx port) - in_head (ports ctx port)) ctx"

definition empty_sw_descriptor :: sw_descriptor where
  "empty_sw_descriptor = \<lparr>body_buf_slot = 0, body_len = 0, src_pod = 0, src_port = 0, src_service = 0,
     dst_service = 0, dst_pod = 0, dst_port = 0, sw_seq = 0, valid = False\<rparr>"

section \<open>The accept ring\<close>

text \<open>
  At the granularity of whole operations a claim never loses its compare-and-swap: the stamp of the
  cell says at once whether the ring is empty or full.
\<close>

definition rxq_try_pop :: "dpumesh_ctx \<Rightarrow> (sw_descriptor \<times> dpumesh_ctx) option" where
  "rxq_try_pop ctx =
     (let pos = rx_deq ctx; i = pos mod RX_QUEUE_SIZE; c = rx_ring ctx i
      in if cell_seq c = pos + 1
         then Some (cell_desc c, ctx\<lparr>rx_deq := pos + 1,
                rx_ring := (rx_ring ctx)(i := c\<lparr>cell_seq := pos + RX_QUEUE_SIZE\<rparr>)\<rparr>)
         else None)"

definition rxq_try_push :: "sw_descriptor \<Rightarrow> dpumesh_ctx \<Rightarrow> dpumesh_ctx option" where
  "rxq_try_push d ctx =
     (let pos = rx_enq ctx; i = pos mod RX_QUEUE_SIZE; c = rx_ring ctx i
      in if cell_seq c = pos
         then Some (ctx\<lparr>rx_enq := pos + 1,
                rx_ring := (rx_ring ctx)(i := \<lparr>cell_desc = d, cell_seq = pos + 1\<rparr>)\<rparr>)
         else None)"

definition dpumesh_dequeue :: "dpumesh_ctx \<Rightarrow> (sw_descriptor \<times> dpumesh_ctx) option" where
  "dpumesh_dequeue ctx = rxq_try_pop ctx"

section \<open>Delivery\<close>

definition arm_ready_after_push :: "nat \<Rightarrow> dpumesh_ctx \<Rightarrow> dpumesh_ctx" where
  "arm_ready_after_push dport ctx =
     (let psl = ports ctx dport
      in if role psl = ROLE_SERVER_PENDING then ctx
         else
           (case slot_eq psl of
              None \<Rightarrow> ctx
            | Some e \<Rightarrow>
                if on_ready psl then ctx
                else upd_eq e (\<lambda>eq. eq_notify (ready_push dport eq))
                       (upd_port dport (\<lambda>psl. psl\<lparr>on_ready := True\<rparr>) ctx)))"

definition rx_seq_accept :: "sw_descriptor \<Rightarrow> dmesh_port_slot \<Rightarrow> bool \<times> dmesh_port_slot" where
  "rx_seq_accept d psl =
     (let next = of_int (body_buf_slot d) + body_len d
      in if \<not> rx_seq_valid psl
         then (True, psl\<lparr>rx_seq := sw_seq d, rx_next_pos := next, rx_seq_valid := True\<rparr>)
         else
           let delta = sw_seq d - rx_seq psl
           in if delta = 0 then
                if body_len d = 0 then (False, psl)
                else if of_int (body_buf_slot d) \<noteq> rx_next_pos psl then (False, psl)
                else (True, psl\<lparr>rx_next_pos := rx_next_pos psl + body_len d\<rparr>)
              else if delta \<ge> 0x8000 then (False, psl)
              else (True, psl\<lparr>rx_seq := sw_seq d, rx_next_pos := next\<rparr>))"

text \<open>A live or pending connection takes the message into its inbox.\<close>

definition rx_deliver_inbox :: "sw_descriptor \<Rightarrow> int \<Rightarrow> dpumesh_ctx \<Rightarrow> dpumesh_ctx" where
  "rx_deliver_inbox d slot ctx =
     (let dport = unat (dst_port d); (ok, psl) = rx_seq_accept d (ports ctx dport);
          ctx1 = upd_port dport (\<lambda>_. psl) ctx
      in if \<not> ok then rx_credit_return slot ctx1
         else
           let (r, psl2) = inbox_push d psl; ctx2 = upd_port dport (\<lambda>_. psl2) ctx1
           in if r = Inbox_Full
              then rx_credit_return slot (ctx2\<lparr>st_rx_inbox_drops := st_rx_inbox_drops ctx2 + 1\<rparr>)
              else arm_ready_after_push dport ctx2)"

text \<open>The slot of a new server connection, pending until an event queue accepts it.\<close>

definition pending_slot :: "sw_descriptor \<Rightarrow> dmesh_port_slot \<Rightarrow> dmesh_port_slot" where
  "pending_slot d psl =
     (port_reset_tx (psl\<lparr>in_head := 0, in_tail := 0, peer_pod := src_pod d, peer_port := src_port d,
        rx_seq := sw_seq d, rx_next_pos := of_int (body_buf_slot d) + body_len d, rx_seq_valid := True,
        user := None, slot_eq := None\<rparr>))\<lparr>role := ROLE_SERVER_PENDING\<rparr>"

text \<open>The inbox of a port that is taken into use: allocated on first use, else emptied.\<close>

definition inbox_prepare :: "bool \<Rightarrow> nat \<Rightarrow> dpumesh_ctx \<Rightarrow> dpumesh_ctx option" where
  "inbox_prepare mem port ctx =
     (case inbox (ports ctx port) of
        None \<Rightarrow>
          if mem
          then Some (upd_port port (\<lambda>psl. psl\<lparr>inbox := Some (replicate (ctx_inbox_ring ctx) empty_sw_descriptor),
                 inbox_ring := ctx_inbox_ring ctx\<rparr>) ctx)
          else None
      | Some _ \<Rightarrow> Some (inbox_drain port ctx))"

definition rx_deliver_new :: "bool \<Rightarrow> sw_descriptor \<Rightarrow> int \<Rightarrow> dpumesh_ctx \<Rightarrow> dpumesh_ctx" where
  "rx_deliver_new mem d slot ctx =
     (let dport = unat (dst_port d); psl = ports ctx dport
      in if nblk_owned (tx psl) > 0 \<or> tx_inflight psl then rx_credit_return slot ctx
         else
           (case inbox_prepare mem dport ctx of
              None \<Rightarrow> rx_credit_return slot ctx
            | Some ctx1 \<Rightarrow>
                let ctx2 = upd_port dport (pending_slot d) ctx1
                in case rxq_try_push d ctx2 of
                     Some ctx3 \<Rightarrow> notify_all_eqs ctx3
                   | None \<Rightarrow>
                       rx_credit_return slot
                         ((upd_port dport (\<lambda>psl. psl\<lparr>role := ROLE_FREE\<rparr>) ctx2)
                            \<lparr>st_rx_accept_drops := st_rx_accept_drops ctx2 + 1\<rparr>)))"

definition rx_deliver_desc :: "bool \<Rightarrow> sw_descriptor \<Rightarrow> int \<Rightarrow> dpumesh_ctx \<Rightarrow> dpumesh_ctx" where
  "rx_deliver_desc mem d slot ctx =
     (let dport = unat (dst_port d)
      in if role (ports ctx dport) \<noteq> ROLE_FREE then rx_deliver_inbox d slot ctx
         else if dport \<ge> DMESH_UPORT_BASE then rx_deliver_new mem d slot ctx
         else rx_credit_return slot ctx)"

definition rx_entry_desc :: "dpumesh_ctx \<Rightarrow> dmesh_rev_done_entry \<Rightarrow> sw_descriptor" where
  "rx_entry_desc ctx e =
     \<lparr>body_buf_slot = sint (rd_pos e), body_len = ucast (rd_length e), src_pod = rd_src_pod_id e,
      src_port = rd_src_port e, src_service = rd_src_service e, dst_service = rd_dst_service e,
      dst_pod = ctx_pod_id ctx, dst_port = rd_dst_port e, sw_seq = rd_seq e, valid = True\<rparr>"

definition process_rx_dma_entry :: "bool \<Rightarrow> dmesh_rev_done_entry \<Rightarrow> dpumesh_ctx \<Rightarrow> bool \<times> dpumesh_ctx" where
  "process_rx_dma_entry mem e ctx =
     (if unat (rd_pos e) + unat (rd_length e) > rx_dma_buf_size ctx then (False, ctx)
      else if unat (rd_length e) > slot_size ctx then (False, ctx)
      else (True, rx_deliver_desc mem (rx_entry_desc ctx e) (sint (rd_pos e)) ctx))"

definition process_rev_entry :: "bool \<Rightarrow> dmesh_rev_ring_entry \<Rightarrow> dpumesh_ctx \<Rightarrow> dpumesh_ctx" where
  "process_rev_entry mem entry ctx =
     (case entry of
        REV_ENTRY_DONE e \<Rightarrow> snd (process_rx_dma_entry mem e ctx)
      | REV_ENTRY_TX_ACK a \<Rightarrow>
          let count = (if ack_seq_count a = 0 then 1 else unat (ack_seq_count a))
          in fold (\<lambda>i. tx_reclaim_ack (unat (ack_port a)) (ack_seq a + of_nat i)) [0..<count] ctx
      | REV_ENTRY_INVALID \<Rightarrow> ctx)"

text \<open>One stripe: consume published entries until the budget is used or an unpublished one is met.\<close>

primrec drain_stripe :: "bool \<Rightarrow> rev_ring \<Rightarrow> nat \<Rightarrow> nat \<Rightarrow> dpumesh_ctx \<Rightarrow> nat \<times> dpumesh_ctx" where
  "drain_stripe mem ring head 0 ctx = (head, ctx)"
| "drain_stripe mem ring head (Suc budget) ctx =
     (let i = head mod rev_size ring
      in if rev_publish_seq ring i \<noteq> head + 1 then (head, ctx)
         else drain_stripe mem ring (head + 1) budget (process_rev_entry mem (rev_entries ring i) ctx))"

primrec drain_stripes :: "bool \<Rightarrow> nat \<Rightarrow> nat \<Rightarrow> nat list \<Rightarrow> nat \<Rightarrow> dpumesh_ctx \<Rightarrow> nat \<times> dpumesh_ctx" where
  "drain_stripes mem shard nshards [] budget ctx = (0, ctx)"
| "drain_stripes mem shard nshards (r # rs) budget ctx =
     (if budget = 0 then (0, ctx)
      else if r mod nshards \<noteq> shard then drain_stripes mem shard nshards rs budget ctx
      else
        (case rev_rings ctx r of
           None \<Rightarrow> drain_stripes mem shard nshards rs budget ctx
         | Some ring \<Rightarrow>
             let (head, ctx1) = drain_stripe mem ring (rev_head ring) budget ctx;
                 used = head - rev_head ring;
                 ctx2 = (if head \<noteq> rev_head ring
                         then ctx1\<lparr>rev_rings := (rev_rings ctx1)(r := Some (ring\<lparr>rev_head := head, consumer_head := head\<rparr>))\<rparr>
                         else ctx1);
                 (d, ctx3) = drain_stripes mem shard nshards rs (budget - used) ctx2
             in (used + d, ctx3)))"

definition drain_rev_rings_span :: "bool \<Rightarrow> nat \<Rightarrow> nat \<Rightarrow> nat \<Rightarrow> dpumesh_ctx \<Rightarrow> nat \<times> dpumesh_ctx" where
  "drain_rev_rings_span mem shard nshards budget ctx =
     drain_stripes mem shard nshards [0..<landing_stripes ctx] budget ctx"

definition dpumesh_drain_assist :: "bool \<Rightarrow> nat \<Rightarrow> dpumesh_ctx \<Rightarrow> nat \<times> dpumesh_ctx" where
  "dpumesh_drain_assist mem e ctx =
     (let ctx1 = upd_eq e (dmesh_eq_suppress_notify ctx 1) ctx;
          (drained, ctx2) = drain_rev_rings_span mem 0 1 256 ctx1;
          ctx3 = upd_eq e (dmesh_eq_suppress_notify ctx2 (-1)) ctx2
      in (drained, if drained > 0 then ctx3\<lparr>assist_progress := assist_progress ctx3 + 1\<rparr> else ctx3))"

end
