(* ===== verification/Host_Conn.thy ===== *)
theory Host_Conn
  imports Host_Rx
begin

text \<open>
  Connections of the host library (\<^verbatim>\<open>src/core/dmesh_core.c\<close>): allocation, acceptance and release of
  ports, receive from an inbox, the events of a queue, publication of committed bytes with the
  policy for partial units, and the close of a connection. A handle is a number; the store \<open>qps\<close> of
  the context holds the handle objects. \<open>now\<close> is the monotonic clock read by the operation, \<open>mem\<close> whether
  an allocation it makes succeeds, \<open>claims\<close> the outcome of each ring claim.
\<close>

section \<open>Ports\<close>

definition port_busy :: "dmesh_port_slot \<Rightarrow> bool" where
  "port_busy psl \<longleftrightarrow> role psl \<noteq> ROLE_FREE \<or> nblk_owned (tx psl) > 0 \<or> tx_inflight psl"

text \<open>One sweep of the window: \<open>n\<close> ports are left to look at.\<close>

primrec alloc_scan :: "nat \<Rightarrow> nat \<Rightarrow> dpumesh_ctx \<Rightarrow> nat option \<times> dpumesh_ctx" where
  "alloc_scan span 0 ctx = (None, ctx)"
| "alloc_scan span (Suc n) ctx =
     (let p = next_port ctx; ctx1 = ctx\<lparr>next_port := (if p + 1 \<ge> span then 1 else p + 1)\<rparr>
      in if port_busy (ports ctx1 p) then alloc_scan span n ctx1 else (Some p, ctx1))"

lemma alloc_scan_span [simp]: "port_span (snd (alloc_scan span n ctx)) = port_span ctx"
  by (induction n arbitrary: ctx) (auto simp: Let_def)

text \<open>
  The sweeps, with the window doubled after each one that finds nothing. A window of no ports is
  never configured (it would be swept for ever).
\<close>

function alloc_sweep :: "dpumesh_ctx \<Rightarrow> nat option \<times> dpumesh_ctx" where
  "alloc_sweep ctx =
     (let span = port_span ctx;
          ctx1 = (if next_port ctx = 0 \<or> next_port ctx \<ge> span then ctx\<lparr>next_port := 1\<rparr> else ctx)
      in case alloc_scan span (span - 1) ctx1 of
           (Some p, ctx2) \<Rightarrow> (Some p, ctx2)
         | (None, ctx2) \<Rightarrow>
             if span \<ge> DMESH_UPORT_BASE \<or> span = 0 then (None, ctx2)
             else alloc_sweep (ctx2\<lparr>port_span := min (span * 2) DMESH_UPORT_BASE, next_port := span\<rparr>))"
  by pat_completeness auto

termination alloc_sweep
  by (relation "measure (\<lambda>ctx. DMESH_UPORT_BASE - port_span ctx)") (auto simp: min_def)

declare alloc_sweep.simps [simp del]

definition open_slot :: "dmesh_role \<Rightarrow> nat \<Rightarrow> nat \<Rightarrow> dmesh_port_slot \<Rightarrow> dmesh_port_slot" where
  "open_slot r h e psl =
     (port_reset_tx (psl\<lparr>in_head := 0, in_tail := 0, peer_pod := DMESH_POD_BLANK, peer_port := 0,
        rx_seq := 0, rx_next_pos := 0, rx_seq_valid := False, user := Some h, slot_eq := Some e\<rparr>))\<lparr>role := r\<rparr>"

definition dpumesh_alloc_port :: "bool \<Rightarrow> dmesh_role \<Rightarrow> nat \<Rightarrow> nat \<Rightarrow> dpumesh_ctx \<Rightarrow> nat \<times> dpumesh_ctx" where
  "dpumesh_alloc_port mem r h e ctx =
     (case alloc_sweep ctx of
        (None, ctx1) \<Rightarrow> (0, ctx1)
      | (Some p, ctx1) \<Rightarrow>
          (case inbox_prepare mem p ctx1 of
             None \<Rightarrow> (0, ctx1)
           | Some ctx2 \<Rightarrow> (p, upd_port p (open_slot r h e) ctx2)))"

definition dpumesh_accept_port :: "nat \<Rightarrow> nat \<Rightarrow> nat \<Rightarrow> dpumesh_ctx \<Rightarrow> nat \<times> dpumesh_ctx" where
  "dpumesh_accept_port port h e ctx =
     (if port = 0 \<or> role (ports ctx port) \<noteq> ROLE_SERVER_PENDING then (0, ctx)
      else (port, upd_port port (\<lambda>psl. psl\<lparr>user := Some h, slot_eq := Some e, role := ROLE_SERVER\<rparr>) ctx))"

definition dpumesh_free_port :: "nat \<Rightarrow> dpumesh_ctx \<Rightarrow> dpumesh_ctx" where
  "dpumesh_free_port port ctx =
     (if port = 0 then ctx
      else
        let ctx1 = tx_wait_cancel port (upd_port port (\<lambda>psl. psl\<lparr>role := ROLE_FREE\<rparr>) ctx);
            ctx2 = (case slot_eq (ports ctx1 port) of
                      None \<Rightarrow> ctx1
                    | Some e \<Rightarrow> eq_tx_armed_clear e port (upd_eq e (eq_tx_error_clear port) ctx1));
            ctx3 = upd_port port (\<lambda>psl. psl\<lparr>tx_deadline_ns := 0, tx_error := None, user := None, slot_eq := None\<rparr>) ctx2;
            ctx4 = try_return_blocks port ctx3;
            ctx5 = (if inbox (ports ctx4 port) \<noteq> None then inbox_drain port ctx4 else ctx4)
        in upd_port port (\<lambda>psl. psl\<lparr>on_ready := False\<rparr>) ctx5)"

definition dpumesh_conn_recv :: "nat \<Rightarrow> dpumesh_ctx \<Rightarrow> sw_descriptor option \<times> dpumesh_ctx" where
  "dpumesh_conn_recv port ctx =
     (if port = 0 \<or> inbox (ports ctx port) = None then (None, ctx)
      else
        (case inbox_pop (ports ctx port) of
           Some (d, psl) \<Rightarrow> (Some d, upd_port port (\<lambda>_. psl) ctx)
         | None \<Rightarrow>
             let ctx1 = upd_port port (\<lambda>psl. psl\<lparr>on_ready := False\<rparr>) ctx
             in case inbox_pop (ports ctx1 port) of
                  Some (d, psl) \<Rightarrow> (Some d, upd_port port (\<lambda>_. psl\<lparr>on_ready := True\<rparr>) ctx1)
                | None \<Rightarrow> (None, ctx1)))"

section \<open>Events of a queue\<close>

definition ready_len :: "nat \<Rightarrow> dpumesh_ctx \<Rightarrow> nat" where
  "ready_len e ctx = (case eqs ctx e of None \<Rightarrow> 0 | Some eq \<Rightarrow> ready_tail eq - ready_head eq)"

text \<open>Each loop pops entries until one names a live connection; \<open>n\<close> bounds the entries queued.\<close>

primrec next_ready_loop :: "nat \<Rightarrow> nat \<Rightarrow> dpumesh_ctx \<Rightarrow> nat option \<times> dpumesh_ctx" where
  "next_ready_loop e 0 ctx = (None, ctx)"
| "next_ready_loop e (Suc n) ctx =
     (case Option.bind (eqs ctx e) ready_pop of
        None \<Rightarrow> (None, ctx)
      | Some (port, eq) \<Rightarrow>
          let ctx1 = upd_eq e (\<lambda>_. eq) ctx; psl = ports ctx1 port
          in if live_role (role psl) then (user psl, ctx1) else next_ready_loop e n ctx1)"

definition dpumesh_next_ready :: "nat \<Rightarrow> dpumesh_ctx \<Rightarrow> nat option \<times> dpumesh_ctx" where
  "dpumesh_next_ready e ctx = next_ready_loop e (ready_len e ctx + 1) ctx"

primrec next_tx_ready_loop :: "nat \<Rightarrow> nat \<Rightarrow> dpumesh_ctx \<Rightarrow> nat option \<times> dpumesh_ctx" where
  "next_tx_ready_loop e 0 ctx = (None, ctx)"
| "next_tx_ready_loop e (Suc n) ctx =
     (case Option.bind (eqs ctx e) eq_tx_ready_pop of
        None \<Rightarrow> (None, ctx)
      | Some (port, eq) \<Rightarrow>
          let ctx1 = upd_eq e (\<lambda>_. eq) ctx
          in if tx_wait_state (ports ctx1 port) \<noteq> TX_WAIT_READY then next_tx_ready_loop e n ctx1
             else
               let ctx2 = upd_port port (\<lambda>psl. psl\<lparr>tx_wait_state := TX_WAIT_IDLE\<rparr>) ctx1;
                   psl = ports ctx2 port
               in if live_role (role psl) \<and> slot_eq psl = Some e then (user psl, ctx2)
                  else next_tx_ready_loop e n ctx2)"

definition dpumesh_next_tx_ready :: "nat \<Rightarrow> dpumesh_ctx \<Rightarrow> nat option \<times> dpumesh_ctx" where
  "dpumesh_next_tx_ready e ctx =
     next_tx_ready_loop e (case eqs ctx e of None \<Rightarrow> 0 | Some eq \<Rightarrow> nat (bm_count (tx_ready eq)) + 1) ctx"

primrec next_tx_error_loop :: "nat \<Rightarrow> nat \<Rightarrow> dpumesh_ctx \<Rightarrow> nat option \<times> dpumesh_ctx" where
  "next_tx_error_loop e 0 ctx = (None, ctx)"
| "next_tx_error_loop e (Suc n) ctx =
     (case Option.bind (eqs ctx e) eq_tx_error_pop of
        None \<Rightarrow> (None, ctx)
      | Some (port, eq) \<Rightarrow>
          let ctx1 = upd_eq e (\<lambda>_. eq) ctx; psl = ports ctx1 port
          in if live_role (role psl) \<and> slot_eq psl = Some e \<and> tx_error psl \<noteq> None then (user psl, ctx1)
             else next_tx_error_loop e n ctx1)"

definition dpumesh_next_tx_error :: "nat \<Rightarrow> dpumesh_ctx \<Rightarrow> nat option \<times> dpumesh_ctx" where
  "dpumesh_next_tx_error e ctx =
     next_tx_error_loop e (case eqs ctx e of None \<Rightarrow> 0 | Some eq \<Rightarrow> nat (bm_count (tx_errors eq)) + 1) ctx"

section \<open>Publishing committed bytes\<close>

definition upd_qp :: "nat \<Rightarrow> (dmesh_qp \<Rightarrow> dmesh_qp) \<Rightarrow> dpumesh_ctx \<Rightarrow> dpumesh_ctx" where
  "upd_qp h f ctx = ctx\<lparr>qps := (qps ctx)(h := map_option f (qps ctx h))\<rparr>"

definition post_error :: "errno option \<Rightarrow> errno" where
  "post_error e = (if e = Some EAGAIN then EAGAIN else EBADMSG)"

text \<open>Track, post, and on a failed post take the tracking back; \<open>advance\<close> is what the send cursor moves.\<close>

definition track_and_post ::
  "(nat \<Rightarrow> ring_claim) \<Rightarrow> nat \<Rightarrow> sw_descriptor \<Rightarrow> nat \<Rightarrow> dpumesh_ctx \<Rightarrow> (errno + unit) \<times> dpumesh_ctx" where
  "track_and_post claims port d advance ctx =
     (case dpumesh_tx_track port (sw_seq d) advance ctx of
        Inl e \<Rightarrow> (Inl e, ctx)
      | Inr ctx1 \<Rightarrow>
          (case dpumesh_enqueue claims d ctx1 of
             (Inl e, ctx2) \<Rightarrow> (Inl (post_error e), dpumesh_tx_untrack port (sw_seq d) advance ctx2)
           | (Inr _, ctx2) \<Rightarrow> (Inr (), ctx2)))"

definition data_desc :: "dmesh_qp \<Rightarrow> nat \<Rightarrow> nat \<Rightarrow> sw_descriptor" where
  "data_desc c moff len = empty_sw_descriptor\<lparr>
     body_buf_slot := int moff, body_len := of_nat len, src_port := of_nat (local_port c),
     sw_seq := qp_seq c + 1, dst_service := qp_dst_service c,
     dst_pod := (if qp_role c = ROLE_CLIENT then DMESH_POD_BLANK else remote_pod c),
     dst_port := (if qp_role c = ROLE_CLIENT then 0 else remote_port c), valid := True\<rparr>"

definition emit_desc ::
  "(nat \<Rightarrow> ring_claim) \<Rightarrow> nat \<Rightarrow> nat \<Rightarrow> nat \<Rightarrow> nat \<Rightarrow> dpumesh_ctx \<Rightarrow> (errno + unit) \<times> dpumesh_ctx" where
  "emit_desc claims h moff len advance ctx =
     (case qps ctx h of
        None \<Rightarrow> (Inl EINVAL, ctx)
      | Some c \<Rightarrow>
          (case track_and_post claims (local_port c) (data_desc c moff len) advance ctx of
             (Inl e, ctx1) \<Rightarrow> (Inl e, ctx1)
           | (Inr _, ctx1) \<Rightarrow> (Inr (), upd_qp h (\<lambda>c. c\<lparr>qp_seq := qp_seq c + 1\<rparr>) ctx1)))"

text \<open>
  The last unit of everything written is padded to the DMA alignment, so that the next unit starts
  aligned; the padding is undone when the post fails.
\<close>

definition align128 :: "nat \<Rightarrow> nat" where
  "align128 x = (x + 127) div 128 * 128"

definition set_tail_end :: "nat \<Rightarrow> nat \<Rightarrow> nat \<Rightarrow> nat \<Rightarrow> tx_chain \<Rightarrow> tx_chain" where
  "set_tail_end bs block_slots block e tc =
     tc\<lparr>tx_w := e, blk_used := (blk_used tc)[block mod block_slots := e - block * bs], tx_c := e\<rparr>"

definition drain_step ::
  "(nat \<Rightarrow> ring_claim) \<Rightarrow> nat \<Rightarrow> nat \<Rightarrow> nat option \<Rightarrow> nat \<Rightarrow> nat \<Rightarrow> dpumesh_ctx \<Rightarrow> (errno + unit) \<times> dpumesh_ctx" where
  "drain_step claims h port lim moff len ctx =
     (let tc = tx (ports ctx port); bs = block_size ctx; n = blocks_per_conn ctx;
          sent = tx_s tc; committed = tx_c tc;
          limit = (case lim of None \<Rightarrow> committed | Some l \<Rightarrow> min committed l);
          original_end = sent + len;
          block = (original_end - 1) div bs;
          padded_end = (if original_end = limit \<and> limit = committed \<and> tx_w tc = committed
                        then align128 original_end else original_end);
          padded = (padded_end > original_end);
          ctx1 = (if padded then upd_tx port (set_tail_end bs n block padded_end) ctx else ctx)
      in case emit_desc claims h moff len (padded_end - sent) ctx1 of
           (Inr _, ctx2) \<Rightarrow> (Inr (), ctx2)
         | (Inl e, ctx2) \<Rightarrow>
             (Inl (post_error (Some e)),
              if padded then upd_tx port (set_tail_end bs n block original_end) ctx2 else ctx2))"

text \<open>
  \<open>dmesh_drain_tx_upto_locked\<close>. The loop runs once per unit; with \<open>fuel\<close> at least the number of bytes
  outstanding it always ends by itself.
\<close>

primrec drain_tx_loop ::
  "(nat \<Rightarrow> ring_claim) \<Rightarrow> nat \<Rightarrow> nat \<Rightarrow> bool \<Rightarrow> nat option \<Rightarrow> nat \<Rightarrow> dpumesh_ctx \<Rightarrow> (errno + unit) option \<times> dpumesh_ctx" where
  "drain_tx_loop claims h port flush_partial lim 0 ctx = (None, ctx)"
| "drain_tx_loop claims h port flush_partial lim (Suc fuel) ctx =
     (case dpumesh_tx_next_send_upto port flush_partial lim ctx of
        (None, ctx1) \<Rightarrow> (Some (Inr ()), ctx1)
      | (Some (moff, len), ctx1) \<Rightarrow>
          (case drain_step claims h port lim moff len ctx1 of
             (Inl e, ctx2) \<Rightarrow> (Some (Inl e), ctx2)
           | (Inr _, ctx2) \<Rightarrow> drain_tx_loop claims h port flush_partial lim fuel ctx2))"

definition dmesh_drain_tx_upto_locked ::
  "(nat \<Rightarrow> ring_claim) \<Rightarrow> nat \<Rightarrow> bool \<Rightarrow> nat option \<Rightarrow> dpumesh_ctx \<Rightarrow> (errno + unit) option \<times> dpumesh_ctx" where
  "dmesh_drain_tx_upto_locked claims h flush_partial lim ctx =
     (case qps ctx h of
        None \<Rightarrow> (Some (Inl EINVAL), ctx)
      | Some c \<Rightarrow>
          let tc = tx (ports ctx (local_port c))
          in drain_tx_loop claims h (local_port c) flush_partial lim (tx_c tc - tx_s tc + 1) ctx)"

definition dmesh_drain_tx_locked ::
  "(nat \<Rightarrow> ring_claim) \<Rightarrow> nat \<Rightarrow> bool \<Rightarrow> dpumesh_ctx \<Rightarrow> (errno + unit) option \<times> dpumesh_ctx" where
  "dmesh_drain_tx_locked claims h flush_partial = dmesh_drain_tx_upto_locked claims h flush_partial None"

text \<open>
  Entry check of a public transmit call; on success the gate of the connection is taken (the code
  spins until it is free).
\<close>

definition dmesh_tx_qp_valid :: "nat \<Rightarrow> dpumesh_ctx \<Rightarrow> (errno + nat) \<times> dpumesh_ctx" where
  "dmesh_tx_qp_valid h ctx =
     (case qps ctx h of
        None \<Rightarrow> (Inl EINVAL, ctx)
      | Some c \<Rightarrow>
          let port = local_port c; psl = ports ctx port
          in if port = 0 \<or> \<not> live_role (role psl) \<or> user psl \<noteq> Some h then (Inl EINVAL, ctx)
             else if tx_error psl \<noteq> None then (Inl (the (tx_error psl)), ctx)
             else if tx_call_open psl then (Inl EDEADLK, ctx)
             else (Inr port, upd_port port (\<lambda>psl. psl\<lparr>tx_gate := True\<rparr>) ctx))"

definition dmesh_tx_call_active :: "nat \<Rightarrow> dpumesh_ctx \<Rightarrow> bool" where
  "dmesh_tx_call_active h ctx \<longleftrightarrow>
     (case qps ctx h of
        None \<Rightarrow> False
      | Some c \<Rightarrow> local_port c \<noteq> 0 \<and> tx_call_open (ports ctx (local_port c)))"

definition dmesh_tx_call_done :: "nat \<Rightarrow> dpumesh_ctx \<Rightarrow> dpumesh_ctx" where
  "dmesh_tx_call_done h ctx =
     (case qps ctx h of
        None \<Rightarrow> ctx
      | Some c \<Rightarrow> if local_port c = 0 then ctx else upd_port (local_port c) tx_gate_release ctx)"

text \<open>
  What follows a commit: complete units go out; the newest partial unit is retained while units are
  in flight, and goes out at its deadline or when the connection is idle.
\<close>

definition dmesh_tx_after_commit ::
  "(nat \<Rightarrow> ring_claim) \<Rightarrow> nat \<Rightarrow> nat \<Rightarrow> dpumesh_ctx \<Rightarrow> (errno + unit) option \<times> dpumesh_ctx" where
  "dmesh_tx_after_commit claims now h ctx =
     (case qps ctx h of
        None \<Rightarrow> (Some (Inl EINVAL), ctx)
      | Some c \<Rightarrow>
          let port = local_port c; psl = ports ctx port
          in if tx_deadline_ns psl \<noteq> 0 \<and> tx_w (tx psl) - tx_s (tx psl) < slot_size ctx \<and> tx_inflight psl
             then (Some (Inr ()), ctx)
             else
               (case dmesh_drain_tx_locked claims h False ctx of
                  (None, ctx1) \<Rightarrow> (None, ctx1)
                | (Some (Inl e), ctx1) \<Rightarrow>
                    if e = EAGAIN then (Some (Inr ()), tx_arm_tail now port ctx1)
                    else (Some (Inl e), tx_disarm_tail port ctx1)
                | (Some (Inr _), ctx1) \<Rightarrow>
                    let psl1 = ports ctx1 port
                    in if tx_s (tx psl1) \<ge> tx_w (tx psl1) then
                         let ctx2 = (case slot_eq psl1 of None \<Rightarrow> ctx1 | Some e \<Rightarrow> eq_tx_armed_clear e port ctx1)
                         in (Some (Inr ()),
                             if tx_inflight (ports ctx2 port) then ctx2
                             else upd_port port (\<lambda>psl. psl\<lparr>tx_deadline_ns := 0\<rparr>) ctx2)
                       else if \<not> tx_inflight psl1 then
                         dmesh_drain_tx_locked claims h True (tx_disarm_tail port ctx1)
                       else if tx_deadline_ns psl1 = 0 then (Some (Inr ()), tx_arm_tail now port ctx1)
                       else if now \<ge> tx_deadline_ns psl1 then
                         dmesh_drain_tx_locked claims h True (tx_disarm_tail port ctx1)
                       else (Some (Inr ()), ctx1)))"

text \<open>After a failed flush of a retained tail: a full queue re-arms it, anything else is a sticky error.\<close>

definition retry_or_fail :: "nat \<Rightarrow> nat \<Rightarrow> (errno + unit) option \<times> dpumesh_ctx \<Rightarrow> dpumesh_ctx" where
  "retry_or_fail now port r =
     (case r of
        (Some (Inl e), ctx) \<Rightarrow>
          if e = EAGAIN then tx_arm_tail now port ctx else tx_error_publish port (Some EBADMSG) ctx
      | (_, ctx) \<Rightarrow> ctx)"

definition dmesh_tx_pressure :: "(nat \<Rightarrow> ring_claim) \<Rightarrow> nat \<Rightarrow> nat \<Rightarrow> dpumesh_ctx \<Rightarrow> dpumesh_ctx" where
  "dmesh_tx_pressure claims now h ctx =
     (case qps ctx h of
        None \<Rightarrow> ctx
      | Some c \<Rightarrow>
          let port = local_port c; ctx1 = tx_disarm_tail port ctx; tc = tx (ports ctx1 port)
          in if tx_s tc \<ge> tx_c tc then ctx1
             else retry_or_fail now port (dmesh_drain_tx_locked claims h True ctx1))"

text \<open>
  The deadline pass of an event queue. Each round clears the bit of one due connection, and a
  connection armed again in the pass has a later deadline, so the armed count bounds the rounds.
\<close>

definition publish_tail :: "(nat \<Rightarrow> ring_claim) \<Rightarrow> nat \<Rightarrow> nat \<Rightarrow> nat \<Rightarrow> dpumesh_ctx \<Rightarrow> dpumesh_ctx" where
  "publish_tail claims now e port ctx =
     (let psl = ports ctx port
      in upd_port port tx_gate_release
           (if live_role (role psl) \<and> slot_eq psl = Some e \<and> tx_error psl = None
               \<and> tx_s (tx psl) < tx_c (tx psl)
            then (case user psl of
                    None \<Rightarrow> ctx
                  | Some h \<Rightarrow> retry_or_fail now port (dmesh_drain_tx_locked claims h True ctx))
            else ctx))"

primrec publish_due_loop :: "(nat \<Rightarrow> ring_claim) \<Rightarrow> nat \<Rightarrow> nat \<Rightarrow> nat \<Rightarrow> dpumesh_ctx \<Rightarrow> dpumesh_ctx" where
  "publish_due_loop claims now e 0 ctx = ctx"
| "publish_due_loop claims now e (Suc n) ctx =
     (case eq_tx_armed_pop_due e now ctx of
        None \<Rightarrow> ctx
      | Some (port, ctx1) \<Rightarrow> publish_due_loop claims now e n (publish_tail claims now e port ctx1))"

definition dpumesh_publish_due_tails :: "(nat \<Rightarrow> ring_claim) \<Rightarrow> nat \<Rightarrow> nat \<Rightarrow> dpumesh_ctx \<Rightarrow> dpumesh_ctx" where
  "dpumesh_publish_due_tails claims now e ctx =
     (case eqs ctx e of
        None \<Rightarrow> ctx
      | Some eq \<Rightarrow>
          if bm_count (tx_armed eq) = 0 \<or> \<not> tx_due_hint eq then ctx
          else
            eq_tx_armed_refresh e
              (publish_due_loop claims now e (nat (bm_count (tx_armed eq)) + 1)
                (upd_eq e (\<lambda>eq. eq\<lparr>tx_due_hint := False\<rparr>) ctx)))"

definition dmesh_eq_next_deadline_ns :: "nat \<Rightarrow> nat \<Rightarrow> dpumesh_ctx \<Rightarrow> int" where
  "dmesh_eq_next_deadline_ns now e ctx = (case eqs ctx e of None \<Rightarrow> -1 | Some eq \<Rightarrow> eq_tx_armed_wait_ns eq now)"

definition dmesh_flush ::
  "(nat \<Rightarrow> ring_claim) \<Rightarrow> nat \<Rightarrow> dpumesh_ctx \<Rightarrow> (errno + unit) option \<times> dpumesh_ctx" where
  "dmesh_flush claims h ctx =
     (case dmesh_tx_qp_valid h ctx of
        (Inl e, ctx1) \<Rightarrow> (Some (Inl e), ctx1)
      | (Inr port, ctx1) \<Rightarrow>
          let (r, ctx2) = dmesh_drain_tx_locked claims h True (tx_disarm_tail port ctx1)
          in (r, upd_port port tx_gate_release ctx2))"

section \<open>Closing\<close>

text \<open>
  The bounded wait for the acknowledgement of everything in flight: \<open>acks\<close> are the reverse entries
  the drain side handles before the queue is empty or the deadline passes.
\<close>

definition dmesh_wait_tx_reclaimed_locked ::
  "bool \<Rightarrow> dmesh_rev_ring_entry list \<Rightarrow> nat \<Rightarrow> dpumesh_ctx \<Rightarrow> (errno + unit) \<times> dpumesh_ctx" where
  "dmesh_wait_tx_reclaimed_locked mem acks port ctx =
     (if \<not> tx_inflight (ports ctx port) then (Inr (), ctx)
      else
        let ctx1 = fold (process_rev_entry mem) acks ctx
        in (if tx_inflight (ports ctx1 port) then Inl EBADMSG else Inr (), ctx1))"

text \<open>The zero-length marker that ends a stream: \<open>pod\<close> is the learned peer for FIN, the abort code for reset.\<close>

definition marker_desc :: "dmesh_qp \<Rightarrow> int \<Rightarrow> sw_descriptor" where
  "marker_desc c pod = empty_sw_descriptor\<lparr>
     src_port := of_nat (local_port c), sw_seq := qp_seq c + 1, dst_service := qp_dst_service c,
     dst_pod := pod, dst_port := remote_port c, valid := True\<rparr>"

definition send_marker ::
  "(nat \<Rightarrow> ring_claim) \<Rightarrow> bool \<Rightarrow> nat \<Rightarrow> (dmesh_qp \<Rightarrow> int) \<Rightarrow> dpumesh_ctx \<Rightarrow> (errno + unit) \<times> dpumesh_ctx" where
  "send_marker claims mem h pod ctx =
     (case qps ctx h of
        None \<Rightarrow> (Inl EINVAL, ctx)
      | Some c \<Rightarrow>
          if fin_sent c then (Inr (), ctx)
          else
            let port = local_port c
            in case tx_tracking_ensure mem (su_depth ctx) (su (ports ctx port)) of
                 Inl e \<Rightarrow> (Inl e, ctx)
               | Inr q \<Rightarrow>
                   (case track_and_post claims port (marker_desc c (pod c)) 0
                           (upd_port port (\<lambda>psl. psl\<lparr>su := q\<rparr>) ctx) of
                      (Inl e, ctx1) \<Rightarrow> (Inl e, ctx1)
                    | (Inr _, ctx1) \<Rightarrow>
                        (Inr (), upd_qp h (\<lambda>c. c\<lparr>qp_seq := qp_seq c + 1, fin_sent := True\<rparr>) ctx1)))"

definition dmesh_send_fin_locked ::
  "(nat \<Rightarrow> ring_claim) \<Rightarrow> bool \<Rightarrow> nat \<Rightarrow> dpumesh_ctx \<Rightarrow> (errno + unit) \<times> dpumesh_ctx" where
  "dmesh_send_fin_locked claims mem h = send_marker claims mem h remote_pod"

definition dmesh_send_abort_locked ::
  "(nat \<Rightarrow> ring_claim) \<Rightarrow> bool \<Rightarrow> nat \<Rightarrow> dpumesh_ctx \<Rightarrow> (errno + unit) \<times> dpumesh_ctx" where
  "dmesh_send_abort_locked claims mem h = send_marker claims mem h (\<lambda>_. DMESH_POD_ABORT)"

definition dmesh_send_fin ::
  "(nat \<Rightarrow> ring_claim) \<Rightarrow> bool \<Rightarrow> dmesh_rev_ring_entry list \<Rightarrow> nat \<Rightarrow> dpumesh_ctx \<Rightarrow> (errno + unit) option \<times> dpumesh_ctx" where
  "dmesh_send_fin claims mem acks h ctx =
     (case dmesh_tx_qp_valid h ctx of
        (Inl e, ctx1) \<Rightarrow> (Some (Inl e), ctx1)
      | (Inr port, ctx1) \<Rightarrow>
          let (r, ctx2) =
                (case dmesh_drain_tx_locked claims h True (tx_disarm_tail port ctx1) of
                   (Some (Inr _), ctx2) \<Rightarrow>
                     (case dmesh_wait_tx_reclaimed_locked mem acks port ctx2 of
                        (Inl e, ctx3) \<Rightarrow> (Some (Inl e), ctx3)
                      | (Inr _, ctx3) \<Rightarrow> map_prod Some (\<lambda>x. x) (dmesh_send_fin_locked claims mem h ctx3))
                 | (r, ctx2) \<Rightarrow> (r, ctx2))
          in (r, upd_port port tx_gate_release ctx2))"

definition conn_free_rx :: "nat \<Rightarrow> dpumesh_ctx \<Rightarrow> dpumesh_ctx" where
  "conn_free_rx h ctx =
     (case qps ctx h of
        None \<Rightarrow> ctx
      | Some c \<Rightarrow>
          upd_qp h (\<lambda>c. c\<lparr>qp_rx_slot := -1, qp_rx_len := 0\<rparr>)
            (if qp_rx_slot c \<ge> 0 then dpumesh_rx_free (qp_rx_slot c) ctx else ctx))"

text \<open>The stages of \<open>dmesh_release_qp\<close>: flush, wait, end marker; the first failure is the result.\<close>

definition release_flush ::
  "(nat \<Rightarrow> ring_claim) \<Rightarrow> bool \<Rightarrow> nat \<Rightarrow> dpumesh_ctx \<Rightarrow> (errno option \<times> bool) \<times> dpumesh_ctx" where
  "release_flush claims graceful h ctx =
     (if \<not> graceful then ((None, True), ctx)
      else
        (case dmesh_drain_tx_locked claims h True ctx of
           (Some (Inl e), ctx1) \<Rightarrow> ((Some e, True), ctx1)
         | (_, ctx1) \<Rightarrow> ((None, False), ctx1)))"

definition release_wait ::
  "bool \<Rightarrow> dmesh_rev_ring_entry list \<Rightarrow> nat \<Rightarrow> (errno option \<times> bool) \<times> dpumesh_ctx \<Rightarrow> (errno option \<times> bool) \<times> dpumesh_ctx" where
  "release_wait mem acks port s =
     (case s of ((res, reset), ctx) \<Rightarrow>
        if reset then s
        else
          (case dmesh_wait_tx_reclaimed_locked mem acks port ctx of
             (Inl e, ctx1) \<Rightarrow> ((if res = None then Some e else res, True), ctx1)
           | (Inr _, ctx1) \<Rightarrow> ((res, False), ctx1)))"

definition release_end ::
  "(nat \<Rightarrow> ring_claim) \<Rightarrow> bool \<Rightarrow> nat \<Rightarrow> (errno option \<times> bool) \<times> dpumesh_ctx \<Rightarrow> errno option \<times> dpumesh_ctx" where
  "release_end claims mem h s =
     (case s of ((res, reset), ctx) \<Rightarrow>
        (case qps ctx h of
           None \<Rightarrow> (res, ctx)
         | Some c \<Rightarrow>
             if qp_role c = ROLE_SERVER \<or> qp_seq c > 0 then
               (case (if reset then dmesh_send_abort_locked claims mem h ctx
                      else dmesh_send_fin_locked claims mem h ctx) of
                  (Inl e, ctx1) \<Rightarrow> (if res = None then Some e else res, ctx1)
                | (Inr _, ctx1) \<Rightarrow> (res, ctx1))
             else (res, ctx)))"

definition dmesh_release_qp ::
  "(nat \<Rightarrow> ring_claim) \<Rightarrow> bool \<Rightarrow> dmesh_rev_ring_entry list \<Rightarrow> bool \<Rightarrow> nat \<Rightarrow> dpumesh_ctx \<Rightarrow> errno option \<times> dpumesh_ctx" where
  "dmesh_release_qp claims mem acks graceful h ctx =
     (case qps ctx h of
        None \<Rightarrow> (None, ctx)
      | Some c \<Rightarrow>
          let port = local_port c;
              ctx1 = upd_eq (qp_eq c) (\<lambda>eq. if drain_cur eq = Some h then eq\<lparr>drain_cur := None\<rparr> else eq) ctx;
              ctx2 = tx_disarm_tail port (upd_port port (\<lambda>psl. psl\<lparr>tx_gate := True\<rparr>) ctx1);
              (s, ctx3) = release_flush claims graceful h ctx2;
              (s1, ctx4) = release_wait mem acks port (s, dpumesh_tx_discard_unsent port ctx3);
              (res, ctx5) = release_end claims mem h (s1, ctx4);
              ctx6 = upd_port port tx_gate_release (conn_free_rx h ctx5);
              ctx7 = dpumesh_free_port port ctx6;
              ctx8 = upd_eq (qp_eq c) (\<lambda>eq. eq\<lparr>nqp := nqp eq - 1\<rparr>) ctx7
          in (res, ctx8\<lparr>qps := (qps ctx8)(h := None)\<rparr>))"

definition dmesh_destroy_qp ::
  "(nat \<Rightarrow> ring_claim) \<Rightarrow> bool \<Rightarrow> dmesh_rev_ring_entry list \<Rightarrow> nat \<Rightarrow> dpumesh_ctx \<Rightarrow> errno option \<times> dpumesh_ctx" where
  "dmesh_destroy_qp claims mem acks = dmesh_release_qp claims mem acks True"

definition dmesh_abort_qp ::
  "(nat \<Rightarrow> ring_claim) \<Rightarrow> bool \<Rightarrow> dmesh_rev_ring_entry list \<Rightarrow> nat \<Rightarrow> dpumesh_ctx \<Rightarrow> errno option \<times> dpumesh_ctx" where
  "dmesh_abort_qp claims mem acks = dmesh_release_qp claims mem acks False"

section \<open>Opening\<close>

definition dmesh_qp_open :: "bool \<Rightarrow> bool \<Rightarrow> nat \<Rightarrow> int \<Rightarrow> dpumesh_ctx \<Rightarrow> (errno + nat) \<times> dpumesh_ctx" where
  "dmesh_qp_open mem mem_inbox e dst ctx =
     (if \<not> mem then (Inl ENOMEM, ctx)
      else
        let h = next_handle ctx; ctx0 = ctx\<lparr>next_handle := h + 1\<rparr>;
            (pc, ctx1) = dpumesh_alloc_port mem_inbox ROLE_CLIENT h e ctx0
        in if pc = 0 then (Inl ENOMEM, ctx1)
           else
             (Inr h, (upd_eq e (\<lambda>eq. eq\<lparr>nqp := nqp eq + 1\<rparr>) ctx1)
                \<lparr>qps := (qps ctx1)(h \<mapsto> \<lparr>qp_eq = e, qp_role = ROLE_CLIENT, local_port = pc,
                   qp_dst_service = dst, remote_pod = DMESH_POD_BLANK, remote_port = 0,
                   peer_closed = False, fin_sent = False, qp_seq = 0, qp_rx_slot = -1, qp_rx_len = 0\<rparr>)\<rparr>))"

definition dmesh_accept :: "bool \<Rightarrow> nat \<Rightarrow> dpumesh_ctx \<Rightarrow> (errno + nat) \<times> dpumesh_ctx" where
  "dmesh_accept mem e ctx =
     (case eqs ctx e of
        None \<Rightarrow> (Inl EINVAL, ctx)
      | Some eq \<Rightarrow>
          if \<not> accept_spare eq \<and> \<not> mem then (Inl ENOMEM, ctx)
          else
            let ctx1 = upd_eq e (\<lambda>eq. eq\<lparr>accept_spare := True\<rparr>) ctx
            in case dpumesh_dequeue ctx1 of
                 None \<Rightarrow> (Inl EAGAIN, ctx1)
               | Some (req, ctx2) \<Rightarrow>
                   if \<not> valid req then (Inl EAGAIN, ctx2)
                   else
                     let h = next_handle ctx2;
                         (ps, ctx3) = dpumesh_accept_port (unat (dst_port req)) h e ctx2
                     in if ps = 0 then (Inl EAGAIN, dpumesh_rx_free (body_buf_slot req) ctx3)
                        else
                          (Inr h, (upd_eq e (\<lambda>eq. eq\<lparr>accept_spare := False, nqp := nqp eq + 1\<rparr>) ctx3)
                             \<lparr>next_handle := h + 1,
                              qps := (qps ctx3)(h \<mapsto> \<lparr>qp_eq = e, qp_role = ROLE_SERVER, local_port = ps,
                                qp_dst_service = src_service req, remote_pod = src_pod req,
                                remote_port = src_port req, peer_closed = False, fin_sent = False, qp_seq = 0,
                                qp_rx_slot = body_buf_slot req, qp_rx_len = body_len req\<rparr>)\<rparr>))"

end
