(* ===== verification/Host_Api.thy ===== *)
theory Host_Api
  imports Host_Conn
begin

text \<open>
  The native API, \<^verbatim>\<open>src/facade/dmesh_api.c\<close>: allocation and post of a message, the poll of an event queue,
  and the release of a received buffer.
\<close>

section \<open>Send\<close>

definition dmesh_alloc ::
  "(nat \<Rightarrow> ring_claim) \<Rightarrow> bool \<Rightarrow> nat \<Rightarrow> nat \<Rightarrow> nat \<Rightarrow> dpumesh_ctx \<Rightarrow> (errno + nat) \<times> dpumesh_ctx" where
  "dmesh_alloc claims mem now h len ctx =
     (case dmesh_tx_qp_valid h ctx of
        (Inl e, ctx1) \<Rightarrow> (Inl e, ctx1)
      | (Inr port, ctx1) \<Rightarrow>
          (case dpumesh_tx_reserve mem port len ctx1 of
             (Inr moff, ctx2) \<Rightarrow> (Inr moff, ctx2)
           | (Inl e, ctx2) \<Rightarrow>
               (Inl e, dmesh_tx_call_done h
                  (if e = EAGAIN then dmesh_tx_pressure claims now h ctx2 else ctx2))))"

definition dmesh_post_send ::
  "(nat \<Rightarrow> ring_claim) \<Rightarrow> nat \<Rightarrow> nat \<Rightarrow> nat option \<Rightarrow> nat \<Rightarrow> dpumesh_ctx \<Rightarrow> (errno + unit) option \<times> dpumesh_ctx" where
  "dmesh_post_send claims now h buf len ctx =
     (if \<not> dmesh_tx_call_active h ctx then (Some (Inl EINVAL), ctx)
      else
        (case dpumesh_tx_commit (local_port (the (qps ctx h))) buf len ctx of
           (Inl e, ctx1) \<Rightarrow> (Some (Inl e), dmesh_tx_call_done h ctx1)
         | (Inr _, ctx1) \<Rightarrow>
             let (r, ctx2) = dmesh_tx_after_commit claims now h ctx1
             in (r, dmesh_tx_call_done h ctx2)))"

section \<open>Events\<close>

datatype dmesh_event_type = EVENT_RECV | EVENT_RECV_FIN | EVENT_CONN_REQ | EVENT_TX_READY | EVENT_TX_ERROR

record dmesh_event =
  ev_qp :: nat
  ev_type :: dmesh_event_type
  ev_buf :: "nat option"
  ev_len :: u32
  ev_rx_token :: int

definition plain_event :: "dmesh_event_type \<Rightarrow> nat \<Rightarrow> dmesh_event" where
  "plain_event t h = \<lparr>ev_qp = h, ev_type = t, ev_buf = None, ev_len = 0, ev_rx_token = -1\<rparr>"

definition eq_emit :: "nat \<Rightarrow> int \<Rightarrow> u32 \<Rightarrow> dpumesh_ctx \<Rightarrow> dmesh_event \<times> dpumesh_ctx" where
  "eq_emit h slot len ctx =
     (if len = 0
      then (plain_event EVENT_RECV_FIN h, upd_qp h (\<lambda>c. c\<lparr>peer_closed := True\<rparr>) (dpumesh_rx_free slot ctx))
      else (\<lparr>ev_qp = h, ev_type = EVENT_RECV, ev_buf = dpumesh_rx_buf ctx slot, ev_len = len,
             ev_rx_token = slot\<rparr>, ctx))"

text \<open>The receive loop; \<open>n\<close> is the room left for events, and the flag says whether the inbox was emptied.\<close>

primrec drain_conn_loop :: "nat \<Rightarrow> nat \<Rightarrow> nat \<Rightarrow> dpumesh_ctx \<Rightarrow> dmesh_event list \<times> bool \<times> dpumesh_ctx" where
  "drain_conn_loop h port 0 ctx = ([], False, ctx)"
| "drain_conn_loop h port (Suc n) ctx =
     (case dpumesh_conn_recv port ctx of
        (None, ctx1) \<Rightarrow> ([], True, ctx1)
      | (Some d, ctx1) \<Rightarrow>
          let (ev, ctx2) = eq_emit h (body_buf_slot d) (body_len d) ctx1;
              (evs, drained, ctx3) = drain_conn_loop h port n ctx2
          in (ev # evs, drained, ctx3))"

definition eq_drain_conn :: "nat \<Rightarrow> nat \<Rightarrow> dpumesh_ctx \<Rightarrow> dmesh_event list \<times> bool \<times> dpumesh_ctx" where
  "eq_drain_conn h max_events ctx =
     (case qps ctx h of
        None \<Rightarrow> ([], True, ctx)
      | Some c \<Rightarrow>
          if qp_rx_slot c \<ge> 0 then
            if max_events = 0 then ([], False, ctx)
            else
              let (ev, ctx1) = eq_emit h (qp_rx_slot c) (qp_rx_len c) ctx;
                  ctx2 = upd_qp h (\<lambda>c. c\<lparr>qp_rx_slot := -1, qp_rx_len := 0\<rparr>) ctx1;
                  (evs, drained, ctx3) = drain_conn_loop h (local_port c) (max_events - 1) ctx2
              in (ev # evs, drained, ctx3)
          else drain_conn_loop h (local_port c) max_events ctx)"

text \<open>
  The stages of \<open>dmesh_poll_eq\<close>. Each one has \<open>n\<close> events of room and returns its events, whether the
  poll goes on, and the context. A stage that fills the room in the middle of a connection leaves
  the connection as the resume cursor and ends the poll.
\<close>

primrec poll_accept :: "bool \<Rightarrow> nat \<Rightarrow> nat \<Rightarrow> nat \<Rightarrow> dpumesh_ctx \<Rightarrow> dmesh_event list \<times> bool \<times> dpumesh_ctx" where
  "poll_accept mem e 0 room ctx = ([], True, ctx)"
| "poll_accept mem e (Suc fuel) room ctx =
     (if room = 0 then ([], True, ctx)
      else
        (case dmesh_accept mem e ctx of
           (Inl _, ctx1) \<Rightarrow> ([], True, ctx1)
         | (Inr h, ctx1) \<Rightarrow>
             let (evs, drained, ctx2) = eq_drain_conn h (room - 1) ctx1
             in if \<not> drained
                then (plain_event EVENT_CONN_REQ h # evs, False,
                      upd_eq e (\<lambda>eq. eq\<lparr>drain_cur := Some h\<rparr>) ctx2)
                else
                  let (evs2, go, ctx3) = poll_accept mem e fuel (room - 1 - length evs) ctx2
                  in (plain_event EVENT_CONN_REQ h # evs @ evs2, go, ctx3)))"

primrec poll_handles ::
  "(dpumesh_ctx \<Rightarrow> nat option \<times> dpumesh_ctx) \<Rightarrow> dmesh_event_type \<Rightarrow> nat \<Rightarrow> dpumesh_ctx \<Rightarrow> dmesh_event list \<times> dpumesh_ctx" where
  "poll_handles next t 0 ctx = ([], ctx)"
| "poll_handles next t (Suc room) ctx =
     (case next ctx of
        (None, ctx1) \<Rightarrow> ([], ctx1)
      | (Some h, ctx1) \<Rightarrow>
          let (evs, ctx2) = poll_handles next t room ctx1 in (plain_event t h # evs, ctx2))"

primrec poll_ready :: "nat \<Rightarrow> nat \<Rightarrow> nat \<Rightarrow> dpumesh_ctx \<Rightarrow> dmesh_event list \<times> dpumesh_ctx" where
  "poll_ready e 0 room ctx = ([], ctx)"
| "poll_ready e (Suc fuel) room ctx =
     (if room = 0 then ([], ctx)
      else
        (case dpumesh_next_ready e ctx of
           (None, ctx1) \<Rightarrow> ([], ctx1)
         | (Some h, ctx1) \<Rightarrow>
             let (evs, drained, ctx2) = eq_drain_conn h room ctx1
             in if \<not> drained then (evs, upd_eq e (\<lambda>eq. eq\<lparr>drain_cur := Some h\<rparr>) ctx2)
                else
                  let (evs2, ctx3) = poll_ready e fuel (room - length evs) ctx2
                  in (evs @ evs2, ctx3)))"

definition poll_resume :: "nat \<Rightarrow> nat \<Rightarrow> dpumesh_ctx \<Rightarrow> dmesh_event list \<times> bool \<times> dpumesh_ctx" where
  "poll_resume e room ctx =
     (case Option.bind (eqs ctx e) drain_cur of
        None \<Rightarrow> ([], True, ctx)
      | Some h \<Rightarrow>
          let (evs, drained, ctx1) = eq_drain_conn h room ctx
          in if \<not> drained then (evs, False, ctx1)
             else (evs, True, upd_eq e (\<lambda>eq. eq\<lparr>drain_cur := None\<rparr>) ctx1))"

definition dmesh_poll_eq ::
  "(nat \<Rightarrow> ring_claim) \<Rightarrow> bool \<Rightarrow> nat \<Rightarrow> nat \<Rightarrow> int \<Rightarrow> dpumesh_ctx \<Rightarrow> (errno + dmesh_event list) \<times> dpumesh_ctx" where
  "dmesh_poll_eq claims mem now e max_events ctx =
     (if eqs ctx e = None \<or> max_events \<le> 0 then (Inl EINVAL, ctx)
      else
        let room = nat max_events;
            ctx1 = dpumesh_publish_due_tails claims now e (snd (dpumesh_drain_assist mem e ctx));
            (evs1, go1, ctx2) = poll_resume e room ctx1
        in if \<not> go1 then (Inr evs1, ctx2)
           else
             let room2 = room - length evs1;
                 (evs2, go2, ctx3) = poll_accept mem e room2 room2 ctx2
             in if \<not> go2 then (Inr (evs1 @ evs2), ctx3)
                else
                  let room3 = room2 - length evs2;
                      (evs3, ctx4) = poll_handles (dpumesh_next_tx_error e) EVENT_TX_ERROR room3 ctx3;
                      room4 = room3 - length evs3;
                      (evs4, ctx5) = poll_handles (dpumesh_next_tx_ready e) EVENT_TX_READY room4 ctx4;
                      room5 = room4 - length evs4;
                      (evs5, ctx6) = poll_ready e (ready_len e ctx5 + 1) room5 ctx5
                  in (Inr (evs1 @ evs2 @ evs3 @ evs4 @ evs5), ctx6))"

definition dmesh_release_rx_buffer :: "dmesh_event \<Rightarrow> dpumesh_ctx \<Rightarrow> dmesh_event \<times> dpumesh_ctx" where
  "dmesh_release_rx_buffer ev ctx =
     (if ev_rx_token ev < 0 then (ev, ctx)
      else (ev\<lparr>ev_rx_token := -1, ev_buf := None\<rparr>, dpumesh_rx_free (ev_rx_token ev) ctx))"

end
