(* ===== verification/Host_Init.thy ===== *)
theory Host_Init
  imports Host_Conn
begin

text \<open>
  Configuration and start of the host library (\<^verbatim>\<open>src/core/dmesh_core.c\<close>): the transmit geometry derived
  from the configuration, the check that a context has to pass, the landing geometry agreed with
  the DPU, the initial context, and the life cycle of event queues.
\<close>

section \<open>Geometry\<close>

definition DPUMESH_NUM_SLOTS_DEFAULT :: nat where "DPUMESH_NUM_SLOTS_DEFAULT = 8192"
definition DPUMESH_SLOT_SIZE_DEFAULT :: nat where "DPUMESH_SLOT_SIZE_DEFAULT = 8192"
definition DPU_BUFFER_SIZE :: nat where "DPU_BUFFER_SIZE = 67108864"
definition DPUMESH_RINGS_PER_POD_DEFAULT :: nat where "DPUMESH_RINGS_PER_POD_DEFAULT = 2"
definition MAX_EU_PER_POD :: nat where "MAX_EU_PER_POD = MAX_DPA_RINGS"
definition DMESH_PORT_SPAN_MIN :: nat where "DMESH_PORT_SPAN_MIN = 256"
definition DMESH_MAX_EQ :: nat where "DMESH_MAX_EQ = 64"

declare DPUMESH_NUM_SLOTS_DEFAULT_def [dmesh_const] DPUMESH_SLOT_SIZE_DEFAULT_def [dmesh_const]
  DPU_BUFFER_SIZE_def [dmesh_const] DPUMESH_RINGS_PER_POD_DEFAULT_def [dmesh_const]
  MAX_EU_PER_POD_def [dmesh_const] DMESH_PORT_SPAN_MIN_def [dmesh_const] DMESH_MAX_EQ_def [dmesh_const]

record host_geometry =
  g_num_slots :: nat
  g_slot_size :: nat
  g_k_rings :: nat
  g_block_size :: nat
  g_n_blocks :: nat
  g_blocks_per_conn :: nat
  g_su_depth :: nat
  g_recycle_reserve :: nat

primrec shrink_slots :: "nat \<Rightarrow> nat \<Rightarrow> nat \<Rightarrow> nat" where
  "shrink_slots sz quantum 0 = 0"
| "shrink_slots sz quantum (Suc n) =
     (if quantum > 0 \<and> (Suc n * sz) mod quantum \<noteq> 0 then shrink_slots sz quantum n else Suc n)"

function grow_depth :: "nat \<Rightarrow> nat \<Rightarrow> nat \<Rightarrow> nat" where
  "grow_depth need mx sd = (if sd < need \<and> sd < mx \<and> sd > 0 then grow_depth need mx (sd * 2) else sd)"
  by pat_completeness auto

termination grow_depth
  by (relation "measure (\<lambda>(need, mx, sd). mx - sd)") auto

declare grow_depth.simps [simp del]

definition tx_depth :: "nat \<Rightarrow> nat" where
  "tx_depth need =
     (let sd = grow_depth need TX_SU_DEPTH_MAX TX_SU_DEPTH_MIN;
          sd1 = (if sd < need then TX_SU_DEPTH_MAX else sd)
      in if sd1 > TX_SU_FORWARD_SHARE_MAX then TX_SU_FORWARD_SHARE_MAX else sd1)"

text \<open>
  \<open>slots\<close> and \<open>sz\<close> are the values of the configuration, if positive ones are given; \<open>kenv\<close> is the value
  of the environment variable for the rings per pod.
\<close>

definition init_config :: "nat option \<Rightarrow> nat option \<Rightarrow> int option \<Rightarrow> host_geometry" where
  "init_config slots sz kenv =
     (let slot_sz = (case sz of Some z \<Rightarrow> z | None \<Rightarrow> DPUMESH_SLOT_SIZE_DEFAULT);
          k = (case kenv of
                 Some v \<Rightarrow> if v \<ge> 1 \<and> v \<le> int MAX_EU_PER_POD then nat v else DPUMESH_RINGS_PER_POD_DEFAULT
               | None \<Rightarrow> DPUMESH_RINGS_PER_POD_DEFAULT);
          ns = (case slots of
                  Some n \<Rightarrow> n
                | None \<Rightarrow> shrink_slots slot_sz (k * RX_SLOT_SIZE) DPUMESH_NUM_SLOTS_DEFAULT);
          bsz0 = max TX_BLOCK_SIZE slot_sz;
          txbytes = ns * slot_sz;
          bsz = (if bsz0 > txbytes then txbytes else bsz0);
          nb = max 1 (txbytes div bsz);
          mb = min TX_BLOCKS_PER_CONN nb;
          quantum = min slot_sz TX_SU_TRACK_QUANTUM
      in \<lparr>g_num_slots = ns, g_slot_size = slot_sz, g_k_rings = k, g_block_size = bsz, g_n_blocks = nb,
          g_blocks_per_conn = mb, g_su_depth = tx_depth ((bsz * mb + quantum - 1) div quantum),
          g_recycle_reserve = min TX_RECYCLED_CUSHION mb\<rparr>)"

definition geometry_accepted :: "host_geometry \<Rightarrow> bool" where
  "geometry_accepted g \<longleftrightarrow>
     (let bytes = g_num_slots g * g_slot_size g; quantum = g_k_rings g * RX_SLOT_SIZE
      in \<not> (g_slot_size g \<le> 0 \<or> g_slot_size g > RX_SLOT_SIZE \<or> bytes = 0 \<or> bytes > DPU_BUFFER_SIZE
            \<or> quantum = 0 \<or> bytes < quantum \<or> bytes mod quantum \<noteq> 0))"

definition configure_landing_geometry :: "int \<Rightarrow> dpumesh_ctx \<Rightarrow> dpumesh_ctx option" where
  "configure_landing_geometry stripes ctx =
     (let K = (if k_rings ctx > 0 then k_rings ctx else 1); L = nat stripes
      in if stripes < 1 \<or> stripes > int K \<or> K mod L \<noteq> 0 \<or> rx_dma_buf_size ctx < L * RX_SLOT_SIZE
            \<or> rx_dma_buf_size ctx mod (L * RX_SLOT_SIZE) \<noteq> 0
         then None
         else
           let want = min 65536 (rx_dma_buf_size ctx div RX_SLOT_SIZE div L)
           in Some (ctx\<lparr>landing_stripes := L, rx_credit_shards := K div L,
                rx_region_size := rx_dma_buf_size ctx div L,
                ctx_inbox_ring := grow_depth want want RX_INBOX_MIN_CAPACITY\<rparr>))"

section \<open>The initial context\<close>

definition empty_bitmap :: port_bitmap where
  "empty_bitmap = \<lparr>bm_bits = (\<lambda>_. False), bm_count = 0, bm_cursor = 0\<rparr>"

definition init_slot :: dmesh_port_slot where
  "init_slot =
     \<lparr>role = ROLE_FREE, peer_pod = 0, peer_port = 0, user = None, slot_eq = None, inbox = None,
      inbox_ring = 0, in_tail = 0, in_head = 0, on_ready = False, rx_seq = 0, rx_next_pos = 0,
      rx_seq_valid = False,
      tx = \<lparr>tx_w = 0, tx_s = 0, tx_c = 0, tx_f = 0, resv_len = 0, resv_moff = 0, tail_blk = 0,
            head_blk_next = 0, pblk = replicate TX_BLOCKS_PER_CONN (-1),
            recyc = replicate TX_BLOCKS_PER_CONN 0, blk_used = replicate TX_BLOCKS_PER_CONN 0,
            nblk_owned = 0, nrec = 0\<rparr>,
      su = \<lparr>su_alloc = False, su_seq = [], su_end = [], su_done = [], su_head = 0, su_tail = 0\<rparr>,
      tx_deadline_ns = 0, tx_gate = False, tx_error = None, tx_wait_state = TX_WAIT_IDLE,
      tx_wait_reason = TX_WAIT_NONE, tx_wait_tail_blk = 0, tx_wait_tx_w = 0, tx_wait_pool_epoch = 0,
      tx_wait_su_tail = 0\<rparr>"

text \<open>
  The part of \<open>dpumesh_init\<close> that sets up the state; \<open>pod\<close>, \<open>svc\<close>, the RX mapping size, the device handle
  and the reverse rings come from the broker.
\<close>

definition dpumesh_init ::
  "host_geometry \<Rightarrow> int \<Rightarrow> int \<Rightarrow> nat \<Rightarrow> u32 \<Rightarrow> (nat \<Rightarrow> rev_ring option) \<Rightarrow> dpumesh_ctx" where
  "dpumesh_init g pod svc rx_bytes handle rrs =
     \<lparr>ctx_pod_id = pod, service_id = svc, num_slots = g_num_slots g, slot_size = g_slot_size g,
      k_rings = g_k_rings g, landing_stripes = 0, rx_credit_shards = 0, ctx_inbox_ring = 0,
      rx_region_size = 0, rx_dma_buf_size = rx_bytes, block_size = g_block_size g,
      blocks_per_conn = g_blocks_per_conn g, su_depth = g_su_depth g,
      recycle_reserve = g_recycle_reserve g, pool = block_pool_init (g_n_blocks g), pool_epoch = 0,
      pool_waiters = empty_bitmap, tx_armed_total = 0, timer_signals = 0,
      rx_ring = (\<lambda>i. \<lparr>cell_desc = empty_sw_descriptor, cell_seq = i\<rparr>), rx_enq = 0, rx_deq = 0,
      credits = (\<lambda>_. 0), ring_dead = (\<lambda>_. False), fwd_posted = (\<lambda>_. []), ports = (\<lambda>_. init_slot),
      eqs = (\<lambda>_. None), n_eqs = 0, qps = (\<lambda>_. None), next_handle = 0, rev_rings = rrs,
      assist_progress = 0, dpa_mmap_handle = handle, claim_calls = 0, next_port = 1,
      port_span = DMESH_PORT_SPAN_MIN, st_rx_inbox_drops = 0, st_rx_accept_drops = 0,
      st_rx_credit_drops = 0\<rparr>"

section \<open>Event queues\<close>

definition new_eq :: "bool \<Rightarrow> dmesh_eq" where
  "new_eq efd_ok =
     \<lparr>accept_spare = True, nqp = 0, notify_live = efd_ok, wants_notify = False, suppress_notify = 0,
      efd_writes = 0, tx_ready = empty_bitmap, tx_errors = empty_bitmap, tx_armed = empty_bitmap,
      tx_earliest_ns = 0, tx_due_hint = False, ready_head = 0, ready_tail = 0, ready_ring = (\<lambda>_. 0),
      drain_cur = None\<rparr>"

text \<open>The first free registry slot, or a new one below the cap; \<open>efd_ok\<close> whether the eventfd was created.\<close>

definition dmesh_create_eq :: "bool \<Rightarrow> bool \<Rightarrow> dpumesh_ctx \<Rightarrow> nat option \<times> dpumesh_ctx" where
  "dmesh_create_eq mem efd_ok ctx =
     (if \<not> mem then (None, ctx)
      else
        (case find (\<lambda>i. eqs ctx i = None) [0..<n_eqs ctx] of
           Some i \<Rightarrow> (Some i, ctx\<lparr>eqs := (eqs ctx)(i \<mapsto> new_eq efd_ok)\<rparr>)
         | None \<Rightarrow>
             if n_eqs ctx < DMESH_MAX_EQ
             then (Some (n_eqs ctx), ctx\<lparr>eqs := (eqs ctx)(n_eqs ctx \<mapsto> new_eq efd_ok), n_eqs := n_eqs ctx + 1\<rparr>)
             else (None, ctx)))"

definition dmesh_destroy_eq :: "nat \<Rightarrow> dpumesh_ctx \<Rightarrow> bool \<times> dpumesh_ctx" where
  "dmesh_destroy_eq e ctx =
     (case eqs ctx e of
        None \<Rightarrow> (True, ctx)
      | Some eq \<Rightarrow> if nqp eq > 0 then (False, ctx) else (True, ctx\<lparr>eqs := (eqs ctx)(e := None)\<rparr>))"

definition dmesh_eq_fd :: "nat \<Rightarrow> dpumesh_ctx \<Rightarrow> dpumesh_ctx" where
  "dmesh_eq_fd e ctx =
     upd_eq e (\<lambda>eq. eq\<lparr>wants_notify := True, efd_writes := efd_writes eq + (if notify_live eq then 1 else 0)\<rparr>) ctx"

definition dmesh_destroy_channel :: "dpumesh_ctx \<Rightarrow> bool" where
  "dmesh_destroy_channel ctx \<longleftrightarrow> (\<forall>i \<in> set [0..<n_eqs ctx]. eqs ctx i = None)"

end
