(* ===== verification/Host_Events_Props.thy ===== *)
theory Host_Events_Props
  imports Host_Init
begin

text \<open>
  Readiness is neither lost nor duplicated: the bitmaps against finite sets of ports, and the
  transmit-writable wait against its events.
\<close>

section \<open>Bitmaps as sets\<close>

definition bm_set :: "port_bitmap \<Rightarrow> nat set" where
  "bm_set b = {p. bm_bits b p}"

definition bitmap_ok :: "port_bitmap \<Rightarrow> bool" where
  "bitmap_ok b \<longleftrightarrow> bm_set b \<subseteq> {..<DMESH_PORT_SPACE} \<and> bm_count b = int (card (bm_set b))"

lemma bm_set_finite: "bitmap_ok b \<Longrightarrow> finite (bm_set b)"
  unfolding bitmap_ok_def using finite_subset by blast

lemma bitmap_ok_empty [simp]: "bitmap_ok empty_bitmap" "bm_set empty_bitmap = {}"
  by (simp_all add: bitmap_ok_def bm_set_def empty_bitmap_def)

lemma bm_set_cursor [simp]: "bm_set (b\<lparr>bm_cursor := c\<rparr>) = bm_set b" "bitmap_ok (b\<lparr>bm_cursor := c\<rparr>) = bitmap_ok b"
  by (simp_all add: bm_set_def bitmap_ok_def)

lemma bitmap_set_spec:
  assumes "bitmap_ok b" and "p < DMESH_PORT_SPACE"
  shows "bitmap_ok (snd (bitmap_set p b)) \<and> bm_set (snd (bitmap_set p b)) = insert p (bm_set b)
    \<and> (fst (bitmap_set p b) \<longleftrightarrow> p \<notin> bm_set b)"
proof (cases "bm_bits b p")
  case True
  with assms show ?thesis by (auto simp: bitmap_set_def bm_set_def)
next
  case False
  let ?b = "snd (bitmap_set p b)"
  have s: "bm_set ?b = insert p (bm_set b)" using False by (auto simp: bitmap_set_def bm_set_def)
  moreover have "card (insert p (bm_set b)) = Suc (card (bm_set b))"
    using False bm_set_finite [OF assms(1)] by (simp add: bm_set_def)
  ultimately show ?thesis
    using False assms by (simp add: bitmap_ok_def) (simp add: bitmap_set_def bm_set_def)
qed

lemma bitmap_clear_spec:
  assumes "bitmap_ok b"
  shows "bitmap_ok (snd (bitmap_clear p b)) \<and> bm_set (snd (bitmap_clear p b)) = bm_set b - {p}
    \<and> (fst (bitmap_clear p b) \<longleftrightarrow> p \<in> bm_set b)"
proof (cases "bm_bits b p")
  case False
  with assms show ?thesis by (auto simp: bitmap_clear_def bm_set_def)
next
  case True
  let ?b = "snd (bitmap_clear p b)"
  have s: "bm_set ?b = bm_set b - {p}" using True by (auto simp: bitmap_clear_def bm_set_def)
  have p: "p \<in> bm_set b" using True by (simp add: bm_set_def)
  have "0 < card (bm_set b)" using p bm_set_finite [OF assms] card_gt_0_iff by blast
  then have "int (card (bm_set b - {p})) = int (card (bm_set b)) - 1"
    using p by (simp add: card_Diff_singleton)
  with s p assms show ?thesis
    by (auto simp: bitmap_ok_def) (simp_all add: bitmap_clear_def True)
qed

text \<open>The scan visits the ports cyclically, so within one lap it finds a set bit if there is one.\<close>

lemma scan_ports_find:
  assumes "p < DMESH_PORT_SPACE" and "i < n" and "P ((p + i) mod DMESH_PORT_SPACE)"
  shows "\<exists>j \<le> i. scan_ports P p n = Some ((p + j) mod DMESH_PORT_SPACE) \<and> P ((p + j) mod DMESH_PORT_SPACE)
    \<and> (\<forall>l < j. \<not> P ((p + l) mod DMESH_PORT_SPACE))"
  using assms
proof (induction n arbitrary: p i)
  case (Suc n)
  show ?case
  proof (cases "P p")
    case True
    with Suc.prems(1) show ?thesis by (intro exI [of _ 0]) simp
  next
    case False
    let ?q = "(p + 1) mod DMESH_PORT_SPACE"
    have sh: "(?q + j) mod DMESH_PORT_SPACE = (p + Suc j) mod DMESH_PORT_SPACE" for j
      by (simp add: mod_simps)
    from False Suc.prems obtain i' where i: "i = Suc i'" by (cases i) auto
    have q: "?q < DMESH_PORT_SPACE" by (simp add: dmesh_const)
    from Suc.IH [OF q, of i'] Suc.prems i obtain j where j: "j \<le> i'"
      "scan_ports P ?q n = Some ((p + Suc j) mod DMESH_PORT_SPACE)" "P ((p + Suc j) mod DMESH_PORT_SPACE)"
      "\<forall>l < j. \<not> P ((p + Suc l) mod DMESH_PORT_SPACE)"
      unfolding sh by auto
    have "\<not> P ((p + l) mod DMESH_PORT_SPACE)" if "l < Suc j" for l
      using that j(4) False Suc.prems(1) by (cases l) auto
    with j i False show ?thesis by (intro exI [of _ "Suc j"]) auto
  qed
qed simp

lemma scan_ports_lap:
  assumes "p < DMESH_PORT_SPACE" and "q < DMESH_PORT_SPACE" and "P q"
  shows "\<exists>r. scan_ports P p DMESH_PORT_SPACE = Some r"
proof -
  let ?i = "(q + DMESH_PORT_SPACE - p) mod DMESH_PORT_SPACE"
  have "(p + ?i) mod DMESH_PORT_SPACE = (q + DMESH_PORT_SPACE) mod DMESH_PORT_SPACE"
    using assms(1) by (simp add: mod_add_right_eq)
  then have "P ((p + ?i) mod DMESH_PORT_SPACE)" using assms by simp
  moreover have "?i < DMESH_PORT_SPACE" by (simp add: dmesh_const)
  ultimately show ?thesis using scan_ports_find [OF assms(1)] by blast
qed

lemma scan_ports_None:
  assumes "p < DMESH_PORT_SPACE"
  shows "scan_ports P p DMESH_PORT_SPACE = None \<longleftrightarrow> (\<forall>q < DMESH_PORT_SPACE. \<not> P q)"
proof
  assume "scan_ports P p DMESH_PORT_SPACE = None"
  then show "\<forall>q < DMESH_PORT_SPACE. \<not> P q" using scan_ports_lap [OF assms] by fastforce
next
  assume n: "\<forall>q < DMESH_PORT_SPACE. \<not> P q"
  show "scan_ports P p DMESH_PORT_SPACE = None"
    using scan_ports_Some [of P p DMESH_PORT_SPACE] assms n by (cases "scan_ports P p DMESH_PORT_SPACE") auto
qed

lemma bitmap_pop_spec:
  assumes "bitmap_ok b" and "bm_cursor b < DMESH_TX_READY_WORDS"
  shows "bitmap_pop b = None \<longleftrightarrow> bm_set b = {}"
    and "bitmap_pop b = Some (p, b') \<Longrightarrow>
      p \<in> bm_set b \<and> bm_set b' = bm_set b - {p} \<and> bitmap_ok b' \<and> bm_cursor b' < DMESH_TX_READY_WORDS"
proof -
  have c: "64 * bm_cursor b < DMESH_PORT_SPACE" using assms(2) by (simp add: dmesh_const)
  have z: "bm_count b = 0 \<longleftrightarrow> bm_set b = {}"
    using assms(1) bm_set_finite [OF assms(1)] by (simp add: bitmap_ok_def)
  have sub: "bm_bits b q \<Longrightarrow> q < DMESH_PORT_SPACE" for q
    using assms(1) by (auto simp: bitmap_ok_def bm_set_def)
  show "bitmap_pop b = None \<longleftrightarrow> bm_set b = {}"
    using z scan_ports_None [OF c, of "bm_bits b"] sub
    by (auto simp: bitmap_pop_def bm_set_def split: option.splits)
  assume "bitmap_pop b = Some (p, b')"
  then have p: "scan_ports (bm_bits b) (64 * bm_cursor b) DMESH_PORT_SPACE = Some p"
    and b': "b' = b\<lparr>bm_bits := (bm_bits b)(p := False), bm_count := bm_count b - 1,
                    bm_cursor := (p div 64 + 1) mod DMESH_TX_READY_WORDS\<rparr>"
    by (auto simp: bitmap_pop_def split: if_splits option.splits)
  from scan_ports_Some [OF p c] have bp: "bm_bits b p" by blast
  then have "b' = (snd (bitmap_clear p b))\<lparr>bm_cursor := (p div 64 + 1) mod DMESH_TX_READY_WORDS\<rparr>"
    by (simp add: b' bitmap_clear_def)
  with bitmap_clear_spec [OF assms(1), of p] bp
  show "p \<in> bm_set b \<and> bm_set b' = bm_set b - {p} \<and> bitmap_ok b' \<and> bm_cursor b' < DMESH_TX_READY_WORDS"
    by (simp add: bm_set_def dmesh_const)
qed

section \<open>The wait of a connection\<close>

text \<open>
  A queued transmit-ready event is a bit on the queue that owns the connection and the state
  \<open>READY\<close>; a registered pool waiter is a bit and the state \<open>ARMED\<close> for the shared pool. A connection
  that waits is bound to an existing event queue.
\<close>

definition eq_ok :: "dmesh_eq \<Rightarrow> bool" where
  "eq_ok eq \<longleftrightarrow> bitmap_ok (tx_ready eq) \<and> bm_cursor (tx_ready eq) < DMESH_TX_READY_WORDS"

definition ready_bits_ok :: "dpumesh_ctx \<Rightarrow> bool" where
  "ready_bits_ok ctx \<longleftrightarrow>
     (\<forall>e eq. eqs ctx e = Some eq \<longrightarrow> eq_ok eq
        \<and> (\<forall>p. p \<in> bm_set (tx_ready eq) \<longleftrightarrow>
               tx_wait_state (ports ctx p) = TX_WAIT_READY \<and> slot_eq (ports ctx p) = Some e))"

definition waiter_bits_ok :: "dpumesh_ctx \<Rightarrow> bool" where
  "waiter_bits_ok ctx \<longleftrightarrow> bitmap_ok (pool_waiters ctx)
     \<and> (\<forall>p. p \<in> bm_set (pool_waiters ctx) \<longleftrightarrow>
            tx_wait_state (ports ctx p) = TX_WAIT_ARMED \<and> tx_wait_reason (ports ctx p) = TX_WAIT_SHARED_POOL)"

definition waits_bound :: "dpumesh_ctx \<Rightarrow> bool" where
  "waits_bound ctx \<longleftrightarrow>
     (\<forall>p. tx_wait_state (ports ctx p) \<noteq> TX_WAIT_IDLE \<longrightarrow>
        p < DMESH_PORT_SPACE \<and> live_role (role (ports ctx p))
        \<and> (\<exists>e. slot_eq (ports ctx p) = Some e \<and> eqs ctx e \<noteq> None))"

definition wait_inv :: "dpumesh_ctx \<Rightarrow> bool" where
  "wait_inv ctx \<longleftrightarrow> ready_bits_ok ctx \<and> waiter_bits_ok ctx \<and> waits_bound ctx"

lemmas wait_inv_defs = wait_inv_def ready_bits_ok_def waiter_bits_ok_def waits_bound_def

lemma waits_bound_upd_eq [simp]: "waits_bound (upd_eq e f ctx) = waits_bound ctx"
proof -
  have "eqs (upd_eq e f ctx) d = None \<longleftrightarrow> eqs ctx d = None" for d by simp
  then show ?thesis by (simp only: waits_bound_def upd_eq_simps(2))
qed

lemma eq_notify_tx_ready [simp]: "tx_ready (eq_notify eq) = tx_ready eq"
  by (simp add: eq_notify_def)

lemma eq_tx_ready_set_spec:
  assumes "eq_ok eq" and "p < DMESH_PORT_SPACE"
  shows "eq_ok (eq_tx_ready_set p eq) \<and> bm_set (tx_ready (eq_tx_ready_set p eq)) = insert p (bm_set (tx_ready eq))"
proof -
  have "tx_ready (eq_tx_ready_set p eq) = snd (bitmap_set p (tx_ready eq))"
    by (simp add: eq_tx_ready_set_def Let_def split: prod.splits)
  moreover have "bm_cursor (snd (bitmap_set p b)) = bm_cursor b" for b by (simp add: bitmap_set_def)
  ultimately show ?thesis using assms bitmap_set_spec by (simp add: eq_ok_def)
qed

lemma eq_tx_ready_clear_spec:
  assumes "eq_ok eq"
  shows "eq_ok (eq_tx_ready_clear p eq) \<and> bm_set (tx_ready (eq_tx_ready_clear p eq)) = bm_set (tx_ready eq) - {p}"
proof -
  have "bm_cursor (snd (bitmap_clear p b)) = bm_cursor b" for b by (simp add: bitmap_clear_def)
  then show ?thesis using assms bitmap_clear_spec by (simp add: eq_ok_def eq_tx_ready_clear_def)
qed

lemma pool_waiter_clear_simps [simp]:
  "ports (pool_waiter_clear p ctx) = ports ctx" "eqs (pool_waiter_clear p ctx) = eqs ctx"
  "pool (pool_waiter_clear p ctx) = pool ctx" "pool_epoch (pool_waiter_clear p ctx) = pool_epoch ctx"
  by (simp_all add: pool_waiter_clear_def)

text \<open>Waking an armed connection under the invariant: the closed form and its effect.\<close>

lemma make_ready_armed:
  assumes "waits_bound ctx" and "tx_wait_state (ports ctx p) = TX_WAIT_ARMED" and "slot_eq (ports ctx p) = Some e"
  shows "tx_wait_make_ready p ctx =
    (True, upd_eq e (eq_tx_ready_set p)
       (pool_waiter_clear p (upd_port p (\<lambda>psl. psl\<lparr>tx_wait_state := TX_WAIT_READY\<rparr>) ctx)))"
  using assms by (auto simp: tx_wait_make_ready_def waits_bound_def Let_def)

lemma make_ready_not_armed:
  "tx_wait_state (ports ctx p) \<noteq> TX_WAIT_ARMED \<Longrightarrow> tx_wait_make_ready p ctx = (False, ctx)"
  by (simp add: tx_wait_make_ready_def)

lemma bound_eq:
  assumes "waits_bound ctx" and "tx_wait_state (ports ctx p) \<noteq> TX_WAIT_IDLE"
  obtains e eq where "slot_eq (ports ctx p) = Some e" "eqs ctx e = Some eq" "p < DMESH_PORT_SPACE"
  using assms unfolding waits_bound_def by blast

definition waiter_bits_but :: "nat \<Rightarrow> dpumesh_ctx \<Rightarrow> bool" where
  "waiter_bits_but p ctx \<longleftrightarrow> bitmap_ok (pool_waiters ctx)
     \<and> (\<forall>q. q \<noteq> p \<longrightarrow> (q \<in> bm_set (pool_waiters ctx) \<longleftrightarrow>
            tx_wait_state (ports ctx q) = TX_WAIT_ARMED \<and> tx_wait_reason (ports ctx q) = TX_WAIT_SHARED_POOL))"

lemma waiter_bits_but: "waiter_bits_ok ctx \<Longrightarrow> waiter_bits_but p ctx"
  by (simp add: waiter_bits_ok_def waiter_bits_but_def)

lemma bm_set_waiter_clear:
  assumes "bitmap_ok (pool_waiters ctx)"
  shows "bitmap_ok (pool_waiters (pool_waiter_clear p ctx))"
    "bm_set (pool_waiters (pool_waiter_clear p ctx)) = bm_set (pool_waiters ctx) - {p}"
  using bitmap_clear_spec [OF assms, of p] by (simp_all add: pool_waiter_clear_def)

lemma ready_bits_set:
  assumes "ready_bits_ok ctx" and "slot_eq (ports ctx p) = Some e" and "p < DMESH_PORT_SPACE"
  shows "ready_bits_ok (upd_eq e (eq_tx_ready_set p)
    (pool_waiter_clear p (upd_port p (\<lambda>psl. psl\<lparr>tx_wait_state := TX_WAIT_READY\<rparr>) ctx)))"
  using assms eq_tx_ready_set_spec [OF _ assms(3)]
  by (auto simp: ready_bits_ok_def split: if_splits)

lemma make_ready_inv:
  assumes "ready_bits_ok ctx" and "waiter_bits_but p ctx" and "waits_bound ctx"
    and "tx_wait_state (ports ctx p) = TX_WAIT_ARMED"
  shows "wait_inv (snd (tx_wait_make_ready p ctx))
    \<and> tx_wait_state (ports (snd (tx_wait_make_ready p ctx)) p) = TX_WAIT_READY"
proof -
  have "tx_wait_state (ports ctx p) \<noteq> TX_WAIT_IDLE" using assms(4) by simp
  from bound_eq [OF assms(3) this] obtain e eq where e: "slot_eq (ports ctx p) = Some e" "eqs ctx e = Some eq"
    "p < DMESH_PORT_SPACE" .
  let ?c = "pool_waiter_clear p (upd_port p (\<lambda>psl. psl\<lparr>tx_wait_state := TX_WAIT_READY\<rparr>) ctx)"
  have m: "snd (tx_wait_make_ready p ctx) = upd_eq e (eq_tx_ready_set p) ?c"
    by (simp add: make_ready_armed [OF assms(3,4) e(1)])
  have "bitmap_ok (pool_waiters (upd_port p (\<lambda>psl. psl\<lparr>tx_wait_state := TX_WAIT_READY\<rparr>) ctx))"
    using assms(2) by (simp add: waiter_bits_but_def)
  note b = bm_set_waiter_clear [OF this, of p]
  have "waiter_bits_ok (upd_eq e (eq_tx_ready_set p) ?c)"
    using assms(2) b by (auto simp: waiter_bits_ok_def waiter_bits_but_def)
  moreover have "waits_bound (upd_eq e (eq_tx_ready_set p) ?c)"
    unfolding waits_bound_upd_eq using assms(3,4) by (auto simp: waits_bound_def)
  ultimately show ?thesis using ready_bits_set [OF assms(1) e(1,3)] m by (simp add: wait_inv_def)
qed

text \<open>Cancelling returns the connection to \<open>IDLE\<close> with no event and no registration left.\<close>

lemma cancel_inv:
  assumes "wait_inv ctx"
  shows "wait_inv (tx_wait_cancel p ctx) \<and> tx_wait_state (ports (tx_wait_cancel p ctx) p) = TX_WAIT_IDLE"
proof (cases "tx_wait_state (ports ctx p) = TX_WAIT_IDLE")
  case True
  with assms show ?thesis by (simp add: tx_wait_cancel_def)
next
  case False
  from assms have i: "ready_bits_ok ctx" "waiter_bits_ok ctx" "waits_bound ctx" by (simp_all add: wait_inv_def)
  from bound_eq [OF i(3) False] obtain e eq where e: "slot_eq (ports ctx p) = Some e" "eqs ctx e = Some eq" .
  let ?c = "pool_waiter_clear p (upd_port p (\<lambda>psl. psl\<lparr>tx_wait_state := TX_WAIT_IDLE\<rparr>) ctx)"
  have m: "tx_wait_cancel p ctx = upd_eq e (eq_tx_ready_clear p) ?c"
    using False e by (simp add: tx_wait_cancel_def Let_def)
  have "bitmap_ok (pool_waiters (upd_port p (\<lambda>psl. psl\<lparr>tx_wait_state := TX_WAIT_IDLE\<rparr>) ctx))"
    using i(2) by (simp add: waiter_bits_ok_def)
  note b = bm_set_waiter_clear [OF this, of p]
  have "waiter_bits_ok (tx_wait_cancel p ctx)" unfolding m
    using i(2) b by (auto simp: waiter_bits_ok_def)
  moreover have "waits_bound (tx_wait_cancel p ctx)" unfolding m waits_bound_upd_eq
    using i(3) by (auto simp: waits_bound_def)
  moreover have "ready_bits_ok (tx_wait_cancel p ctx)" unfolding m
    using i(1) e eq_tx_ready_clear_spec [of _ p] by (auto simp: ready_bits_ok_def split: if_splits)
  ultimately show ?thesis by (simp add: wait_inv_def m)
qed

text \<open>A connection that may wait: live, within the port space and bound to an existing queue.\<close>

definition waitable :: "nat \<Rightarrow> dpumesh_ctx \<Rightarrow> bool" where
  "waitable p ctx \<longleftrightarrow> p < DMESH_PORT_SPACE \<and> live_role (role (ports ctx p))
     \<and> (\<exists>e. slot_eq (ports ctx p) = Some e \<and> eqs ctx e \<noteq> None)"

lemma waitable_cancel: "waitable p ctx \<Longrightarrow> waitable p (tx_wait_cancel p ctx)"
  by (auto simp: waitable_def tx_wait_cancel_def Let_def split: option.splits)

definition armed_snapshot :: "dmesh_tx_wait_reason \<Rightarrow> nat \<Rightarrow> dmesh_port_slot \<Rightarrow> dmesh_port_slot" where
  "armed_snapshot reason epoch psl = psl\<lparr>
     tx_wait_tail_blk := tail_blk (tx psl), tx_wait_tx_w := tx_w (tx psl),
     tx_wait_pool_epoch := epoch, tx_wait_su_tail := su_tail (su psl),
     tx_wait_reason := reason, tx_wait_state := TX_WAIT_ARMED\<rparr>"

lemma armed_snapshot_simps [simp]:
  "tx_wait_state (armed_snapshot r ep psl) = TX_WAIT_ARMED" "tx_wait_reason (armed_snapshot r ep psl) = r"
  "slot_eq (armed_snapshot r ep psl) = slot_eq psl" "role (armed_snapshot r ep psl) = role psl"
  "tx (armed_snapshot r ep psl) = tx psl" "su (armed_snapshot r ep psl) = su psl"
  by (simp_all add: armed_snapshot_def)

lemma arm_inv_aux:
  fixes reason :: dmesh_tx_wait_reason and ep :: nat
  assumes "wait_inv ctx" and "waitable p ctx" and "tx_wait_state (ports ctx p) = TX_WAIT_IDLE"
  defines "c \<equiv> upd_port p (armed_snapshot reason ep) ctx"
  shows "ready_bits_ok c" "waits_bound c" "waiter_bits_but p c"
    "reason \<noteq> TX_WAIT_SHARED_POOL \<Longrightarrow> waiter_bits_ok c"
    "reason = TX_WAIT_SHARED_POOL \<Longrightarrow> waiter_bits_ok (pool_waiter_set p c)"
proof -
  have i: "ready_bits_ok ctx" "waiter_bits_ok ctx" "waits_bound ctx" using assms(1) by (simp_all add: wait_inv_def)
  show "ready_bits_ok c" using i(1) assms(3) by (auto simp: ready_bits_ok_def c_def)
  show "waits_bound c" using i(3) assms(2) by (auto simp: waits_bound_def waitable_def c_def)
  show "waiter_bits_but p c" using i(2) by (auto simp: waiter_bits_ok_def waiter_bits_but_def c_def)
  have np: "p \<notin> bm_set (pool_waiters ctx)" using i(2) assms(3) by (simp add: waiter_bits_ok_def)
  then show "reason \<noteq> TX_WAIT_SHARED_POOL \<Longrightarrow> waiter_bits_ok c" using i(2) by (auto simp: waiter_bits_ok_def c_def)
  have "bitmap_ok (pool_waiters c)" "p < DMESH_PORT_SPACE"
    using i(2) assms(2) by (simp_all add: waiter_bits_ok_def waitable_def c_def)
  note b = bitmap_set_spec [OF this]
  show "waiter_bits_ok (pool_waiter_set p c)" if "reason = TX_WAIT_SHARED_POOL"
    using i(2) b that by (auto simp: waiter_bits_ok_def pool_waiter_set_def c_def)
qed

lemma tx_wait_arm_eq:
  "tx_wait_arm p reason ctx =
    (let ctx1 = tx_wait_cancel p ctx; ctx2 = upd_port p (armed_snapshot reason (pool_epoch ctx1)) ctx1
     in if reason = TX_WAIT_SHARED_POOL then
          if pool_has_free ctx2 then snd (tx_wait_make_ready p (pool_waiter_set p ctx2)) else pool_waiter_set p ctx2
        else if (if reason = TX_WAIT_SU_RECLAIM then tx_wait_su_retryable (ports ctx2 p)
                 else tx_wait_qp_retryable ctx2 (ports ctx2 p))
        then snd (tx_wait_make_ready p ctx2) else ctx2)"
proof -
  have "(\<lambda>psl. psl\<lparr>tx_wait_tail_blk := tail_blk (tx psl), tx_wait_tx_w := tx_w (tx psl),
      tx_wait_pool_epoch := ep, tx_wait_su_tail := su_tail (su psl), tx_wait_reason := reason,
      tx_wait_state := TX_WAIT_ARMED\<rparr>) = armed_snapshot reason ep" for ep
    by (simp add: armed_snapshot_def fun_eq_iff)
  then show ?thesis
    by (auto simp: tx_wait_arm_def Let_def pool_waiter_set_def pool_has_free_def)
qed

lemma pool_waiter_set_simps [simp]:
  "ports (pool_waiter_set p ctx) = ports ctx" "eqs (pool_waiter_set p ctx) = eqs ctx"
  "pool (pool_waiter_set p ctx) = pool ctx"
  by (simp_all add: pool_waiter_set_def)

lemma wait_inv_pool_waiter_set:
  "ready_bits_ok (pool_waiter_set p ctx) = ready_bits_ok ctx" "waits_bound (pool_waiter_set p ctx) = waits_bound ctx"
  by (simp_all add: ready_bits_ok_def waits_bound_def)

lemma wake_waiter_spec:
  assumes "wait_inv ctx"
  shows "wait_inv (wake_waiter ctx) \<and>
    (if bm_set (pool_waiters ctx) = {} then ports (wake_waiter ctx) = ports ctx
     else \<exists>p \<in> bm_set (pool_waiters ctx). tx_wait_state (ports (wake_waiter ctx) p) = TX_WAIT_READY
       \<and> bm_set (pool_waiters (wake_waiter ctx)) = bm_set (pool_waiters ctx) - {p}
       \<and> (\<forall>q. q \<noteq> p \<longrightarrow> ports (wake_waiter ctx) q = ports ctx q))"
proof -
  let ?w = "pool_waiters ctx"
  have i: "ready_bits_ok ctx" "waiter_bits_ok ctx" "waits_bound ctx" using assms by (simp_all add: wait_inv_def)
  have ok: "bitmap_ok ?w" using i(2) by (simp add: waiter_bits_ok_def)
  let ?s = "64 * (bm_cursor ?w mod DMESH_TX_READY_WORDS)"
  have c: "?s < DMESH_PORT_SPACE" by (simp add: dmesh_const)
  show ?thesis
  proof (cases "scan_ports (bm_bits ?w) ?s DMESH_PORT_SPACE")
    case None
    then have cl: "pool_waiter_claim ctx = (None, ctx\<lparr>pool_waiters := ?w\<lparr>bm_cursor := bm_cursor ?w + 1\<rparr>\<rparr>)"
      by (simp add: pool_waiter_claim_def Let_def)
    from None scan_ports_None [OF c, of "bm_bits ?w"] ok have e: "bm_set ?w = {}"
      by (auto simp: bm_set_def bitmap_ok_def)
    have "wait_inv (ctx\<lparr>pool_waiters := ?w\<lparr>bm_cursor := bm_cursor ?w + 1\<rparr>\<rparr>)"
      using i by (simp add: wait_inv_defs)
    with e show ?thesis by (simp add: wake_waiter.simps [of ctx] cl)
  next
    case (Some p)
    let ?w1 = "?w\<lparr>bm_cursor := bm_cursor ?w + 1\<rparr>"
    let ?c = "ctx\<lparr>pool_waiters := snd (bitmap_clear p ?w1)\<rparr>"
    from Some have cl: "pool_waiter_claim ctx = (Some p, ?c)" by (simp add: pool_waiter_claim_def Let_def)
    from scan_ports_Some [OF Some c] have p: "p \<in> bm_set ?w" by (simp add: bm_set_def)
    have "bitmap_ok ?w1" using ok by simp
    from bitmap_clear_spec [OF this, of p] have b: "bitmap_ok (pool_waiters ?c)" "bm_set (pool_waiters ?c) = bm_set ?w - {p}"
      by simp_all
    have armed: "tx_wait_state (ports ?c p) = TX_WAIT_ARMED" using i(2) p by (simp add: waiter_bits_ok_def)
    have h: "ready_bits_ok ?c" "waiter_bits_but p ?c" "waits_bound ?c"
      using i b by (auto simp: waiter_bits_ok_def waiter_bits_but_def ready_bits_ok_def waits_bound_def)
    from armed have "tx_wait_state (ports ?c p) \<noteq> TX_WAIT_IDLE" by simp
    from bound_eq [OF h(3) this] obtain e eq where e: "slot_eq (ports ?c p) = Some e" .
    note m = make_ready_armed [OF h(3) armed e]
    have wk: "wake_waiter ctx = snd (tx_wait_make_ready p ?c)"
      by (simp only: wake_waiter.simps [of ctx] cl m prod.case option.case Let_def if_True snd_conv)
    let ?u = "upd_port p (\<lambda>psl. psl\<lparr>tx_wait_state := TX_WAIT_READY\<rparr>) ?c"
    have "bitmap_ok (pool_waiters ?u)" using b(1) by simp
    from bm_set_waiter_clear(2) [OF this, of p] b(2)
    have bm: "bm_set (pool_waiters (wake_waiter ctx)) = bm_set ?w - {p}" unfolding wk m by simp
    have oth: "\<forall>q. q \<noteq> p \<longrightarrow> ports (wake_waiter ctx) q = ports ctx q" unfolding wk m by simp
    from make_ready_inv [OF h armed] have "wait_inv (wake_waiter ctx)"
      "tx_wait_state (ports (wake_waiter ctx) p) = TX_WAIT_READY" unfolding wk by blast+
    with p bm oth show ?thesis by (metis empty_iff)
  qed
qed

section \<open>Properties\<close>


text \<open>
  C24. Returning a block to the shared pool wakes at most one waiter and, if one is registered,
  exactly one: that connection gets its event and loses its registration, and no other connection
  is touched.
\<close>

theorem block_return_wakes_exactly_one:
  assumes "wait_inv ctx" and "0 \<le> b" and "b < int (n_blocks (pool ctx))" and "ctx' = block_pool_return b ctx"
  shows "wait_inv ctx' \<and>
    (if bm_set (pool_waiters ctx) = {} then ports ctx' = ports ctx
     else \<exists>p \<in> bm_set (pool_waiters ctx). tx_wait_state (ports ctx' p) = TX_WAIT_READY
       \<and> bm_set (pool_waiters ctx') = bm_set (pool_waiters ctx) - {p}
       \<and> (\<forall>q. q \<noteq> p \<longrightarrow> ports ctx' q = ports ctx q))"
proof -
  let ?c = "ctx\<lparr>pool := block_pool_push (nat b) (pool ctx), pool_epoch := pool_epoch ctx + 1\<rparr>"
  have "wait_inv ?c" using assms(1) by (simp add: wait_inv_defs)
  note w = wake_waiter_spec [OF this]
  have e: "ctx' = wake_waiter ?c" using assms(2,3) by (simp add: assms(4) block_pool_return_def)
  have f: "pool_waiters ?c = pool_waiters ctx" "ports ?c = ports ctx" by simp_all
  show ?thesis using w unfolding e [symmetric] f .
qed

definition demo_geometry :: host_geometry where
  "demo_geometry = \<lparr>g_num_slots = 256, g_slot_size = 8192, g_k_rings = 2, g_block_size = 524288,
     g_n_blocks = 4, g_blocks_per_conn = 4, g_su_depth = 64, g_recycle_reserve = 1\<rparr>"

definition demo_ctx :: dpumesh_ctx where
  "demo_ctx = (dpumesh_init demo_geometry 3 7 2097152 9 (\<lambda>_. None))
     \<lparr>ports := (\<lambda>_. init_slot)(1 := init_slot\<lparr>role := ROLE_CLIENT, slot_eq := Some 0, user := Some 0\<rparr>),
      eqs := [0 \<mapsto> new_eq True], n_eqs := 1\<rparr>"

lemma demo_ctx_simps [simp]:
  "ports demo_ctx p = (if p = 1 then init_slot\<lparr>role := ROLE_CLIENT, slot_eq := Some 0, user := Some 0\<rparr> else init_slot)"
  "eqs demo_ctx e = (if e = 0 then Some (new_eq True) else None)" "pool_waiters demo_ctx = empty_bitmap"
  "pool demo_ctx = block_pool_init 4"
  by (simp_all add: demo_ctx_def dpumesh_init_def demo_geometry_def)

lemma init_slot_wait [simp]: "tx_wait_state init_slot = TX_WAIT_IDLE" "slot_eq init_slot = None"
  by (simp_all add: init_slot_def)

lemma demo_wait_inv: "wait_inv demo_ctx"
  by (simp add: wait_inv_defs eq_ok_def new_eq_def dmesh_const) (simp add: empty_bitmap_def)

lemma demo_waitable: "waitable 1 demo_ctx"
  by (simp add: waitable_def live_role_def dmesh_const)


definition demo_waiting :: dpumesh_ctx where
  "demo_waiting = (upd_port 1 (\<lambda>psl. psl\<lparr>tx_wait_state := TX_WAIT_ARMED, tx_wait_reason := TX_WAIT_SHARED_POOL\<rparr>) demo_ctx)
     \<lparr>pool_waiters := \<lparr>bm_bits = (\<lambda>p. p = 1), bm_count = 1, bm_cursor = 5\<rparr>\<rparr>"

lemma demo_waiting_inv: "wait_inv demo_waiting"
proof -
  have "bm_set (pool_waiters demo_waiting) = {1}" by (simp add: demo_waiting_def bm_set_def)
  then show ?thesis
    by (simp add: wait_inv_defs eq_ok_def new_eq_def dmesh_const bitmap_ok_def live_role_def)
       (auto simp: demo_waiting_def new_eq_def empty_bitmap_def bm_set_def live_role_def dmesh_const)
qed

theorem block_return_wakes_exactly_one_witness:
  "wait_inv demo_waiting \<and> tx_wait_state (ports (block_pool_return 2 demo_waiting) 1) = TX_WAIT_READY
    \<and> bm_set (pool_waiters (block_pool_return 2 demo_waiting)) = {}"
proof -
  have w: "bm_set (pool_waiters demo_waiting) = {1}" by (simp add: demo_waiting_def bm_set_def)
  have "(0 :: int) \<le> 2" "(2 :: int) < int (n_blocks (pool demo_waiting))"
    by (simp_all add: demo_waiting_def block_pool_init_def)
  from block_return_wakes_exactly_one [OF demo_waiting_inv this refl] w demo_waiting_inv show ?thesis by simp
qed

end
