(* ===== verification/Host_Frame.thy ===== *)
theory Host_Frame
  imports Host_Conn
begin

text \<open>
  What the readiness operations leave alone. They change the event queues, the waiter bitmap and
  the readiness fields of the port slots; the rest of a slot (its \<open>core\<close>), the block pool, the
  geometry, the handles with their counter and the forward rings are the same before and after.
\<close>

definition core :: "dmesh_port_slot \<Rightarrow> dmesh_port_slot" where
  "core psl = psl\<lparr>on_ready := False, tx_deadline_ns := 0, tx_error := None,
     tx_wait_state := TX_WAIT_IDLE, tx_wait_reason := TX_WAIT_NONE, tx_wait_tail_blk := 0,
     tx_wait_tx_w := 0, tx_wait_pool_epoch := 0, tx_wait_su_tail := 0\<rparr>"

definition geo :: "dpumesh_ctx \<Rightarrow> nat \<times> nat \<times> nat \<times> nat \<times> nat \<times> nat \<times> nat \<times> nat" where
  "geo ctx = (block_size ctx, blocks_per_conn ctx, slot_size ctx, num_slots ctx, su_depth ctx,
     recycle_reserve ctx, k_rings ctx, next_handle ctx)"

definition ev_frame :: "dpumesh_ctx \<Rightarrow> dpumesh_ctx \<Rightarrow> bool" where
  "ev_frame ctx ctx' \<longleftrightarrow> (\<forall>p. core (ports ctx' p) = core (ports ctx p)) \<and> pool ctx' = pool ctx
     \<and> geo ctx' = geo ctx \<and> qps ctx' = qps ctx \<and> fwd_posted ctx' = fwd_posted ctx
     \<and> ring_dead ctx' = ring_dead ctx \<and> claim_calls ctx' = claim_calls ctx"

lemma ev_frame_refl [simp]: "ev_frame ctx ctx"
  by (simp add: ev_frame_def)

lemma ev_frame_trans [trans]: "ev_frame a b \<Longrightarrow> ev_frame b c \<Longrightarrow> ev_frame a c"
  by (simp add: ev_frame_def)

lemma core_upds [simp]:
  "core (psl\<lparr>on_ready := a\<rparr>) = core psl" "core (psl\<lparr>tx_deadline_ns := b\<rparr>) = core psl"
  "core (psl\<lparr>tx_error := d\<rparr>) = core psl"
  "core (psl\<lparr>tx_wait_state := e\<rparr>) = core psl" "core (psl\<lparr>tx_wait_reason := f\<rparr>) = core psl"
  "core (psl\<lparr>tx_wait_tail_blk := g\<rparr>) = core psl" "core (psl\<lparr>tx_wait_tx_w := h\<rparr>) = core psl"
  "core (psl\<lparr>tx_wait_pool_epoch := i\<rparr>) = core psl" "core (psl\<lparr>tx_wait_su_tail := j\<rparr>) = core psl"
  by (simp_all add: core_def)

lemma core_sel:
  "tx (core psl) = tx psl" "su (core psl) = su psl" "role (core psl) = role psl"
  "slot_eq (core psl) = slot_eq psl" "user (core psl) = user psl" "inbox (core psl) = inbox psl"
  "in_head (core psl) = in_head psl" "in_tail (core psl) = in_tail psl"
  "inbox_ring (core psl) = inbox_ring psl" "tx_gate (core psl) = tx_gate psl"
  by (simp_all add: core_def)

lemma core_fields:
  assumes "core psl = core psl'"
  shows "tx psl = tx psl'" "su psl = su psl'" "role psl = role psl'" "slot_eq psl = slot_eq psl'"
    "user psl = user psl'" "inbox psl = inbox psl'" "in_head psl = in_head psl'"
    "in_tail psl = in_tail psl'" "inbox_ring psl = inbox_ring psl'" "tx_gate psl = tx_gate psl'"
  by (metis assms core_sel(1), metis assms core_sel(2), metis assms core_sel(3), metis assms core_sel(4),
      metis assms core_sel(5), metis assms core_sel(6), metis assms core_sel(7), metis assms core_sel(8),
      metis assms core_sel(9), metis assms core_sel(10))

lemma ev_frameD:
  assumes "ev_frame ctx ctx'"
  shows "tx (ports ctx' p) = tx (ports ctx p)" "su (ports ctx' p) = su (ports ctx p)"
    "role (ports ctx' p) = role (ports ctx p)" "slot_eq (ports ctx' p) = slot_eq (ports ctx p)"
    "user (ports ctx' p) = user (ports ctx p)" "pool ctx' = pool ctx" "geo ctx' = geo ctx" "qps ctx' = qps ctx"
    "fwd_posted ctx' = fwd_posted ctx" "ring_dead ctx' = ring_dead ctx" "claim_calls ctx' = claim_calls ctx"
    "block_size ctx' = block_size ctx" "blocks_per_conn ctx' = blocks_per_conn ctx"
    "slot_size ctx' = slot_size ctx" "num_slots ctx' = num_slots ctx" "su_depth ctx' = su_depth ctx"
    "recycle_reserve ctx' = recycle_reserve ctx" "k_rings ctx' = k_rings ctx"
    "tx_gate (ports ctx' p) = tx_gate (ports ctx p)" "next_handle ctx' = next_handle ctx"
proof -
  from assms have c: "core (ports ctx' p) = core (ports ctx p)" and g: "geo ctx' = geo ctx"
    by (simp_all add: ev_frame_def)
  show "tx (ports ctx' p) = tx (ports ctx p)" "su (ports ctx' p) = su (ports ctx p)"
    "role (ports ctx' p) = role (ports ctx p)" "slot_eq (ports ctx' p) = slot_eq (ports ctx p)"
    "user (ports ctx' p) = user (ports ctx p)" "tx_gate (ports ctx' p) = tx_gate (ports ctx p)"
    by (rule core_fields [OF c])+
  show "block_size ctx' = block_size ctx" "blocks_per_conn ctx' = blocks_per_conn ctx"
    "slot_size ctx' = slot_size ctx" "num_slots ctx' = num_slots ctx" "su_depth ctx' = su_depth ctx"
    "recycle_reserve ctx' = recycle_reserve ctx" "k_rings ctx' = k_rings ctx" "next_handle ctx' = next_handle ctx"
    using g by (simp_all add: geo_def)
qed (use assms in \<open>simp_all add: ev_frame_def\<close>)

lemma geo_upds [simp]:
  "geo (upd_port p f ctx) = geo ctx" "geo (upd_eq e h ctx) = geo ctx"
  "geo (ctx\<lparr>pool_waiters := w\<rparr>) = geo ctx" "geo (ctx\<lparr>tx_armed_total := t\<rparr>) = geo ctx"
  "geo (ctx\<lparr>timer_signals := n\<rparr>) = geo ctx" "geo (ctx\<lparr>pool := pl\<rparr>) = geo ctx"
  "geo (ctx\<lparr>pool_epoch := ep\<rparr>) = geo ctx"
  by (simp_all add: geo_def)

text \<open>The building blocks of the readiness operations.\<close>

named_theorems ev_frames

lemma ev_upd_eq [ev_frames]: "ev_frame ctx (upd_eq e f ctx)"
  by (simp add: ev_frame_def)

lemma ev_upd_port [ev_frames]: "(\<And>psl. core (f psl) = core psl) \<Longrightarrow> ev_frame ctx (upd_port p f ctx)"
  by (simp add: ev_frame_def)

lemma ev_waiters [ev_frames]: "ev_frame ctx (ctx\<lparr>pool_waiters := w\<rparr>)"
  by (simp add: ev_frame_def)

lemma ev_frame_eqI:
  assumes "ev_frame ctx c" and "c' = c\<lparr>pool_waiters := w, tx_armed_total := t, timer_signals := n\<rparr>"
  shows "ev_frame ctx c'"
  using assms by (simp add: ev_frame_def geo_def)

lemma ev_pool_waiter_clear [ev_frames]: "ev_frame ctx (pool_waiter_clear p ctx)"
  unfolding pool_waiter_clear_def by (rule ev_waiters)

lemma ev_pool_waiter_set [ev_frames]: "ev_frame ctx (pool_waiter_set p ctx)"
  unfolding pool_waiter_set_def by (rule ev_waiters)

lemma ev_make_ready [ev_frames]: "ev_frame ctx (snd (tx_wait_make_ready p ctx))"
  by (auto simp: tx_wait_make_ready_def Let_def ev_frame_def pool_waiter_clear_def split: option.splits)

lemma ev_cancel [ev_frames]: "ev_frame ctx (tx_wait_cancel p ctx)"
  by (auto simp: tx_wait_cancel_def Let_def ev_frame_def pool_waiter_clear_def split: option.splits)

lemma ev_arm [ev_frames]: "ev_frame ctx (tx_wait_arm p reason ctx)"
proof -
  let ?c1 = "tx_wait_cancel p ctx"
  let ?c2 = "upd_port p (\<lambda>psl. psl\<lparr>tx_wait_tail_blk := tail_blk (tx psl), tx_wait_tx_w := tx_w (tx psl),
      tx_wait_pool_epoch := pool_epoch ?c1, tx_wait_su_tail := su_tail (su psl),
      tx_wait_reason := reason, tx_wait_state := TX_WAIT_ARMED\<rparr>) ?c1"
  have 2: "ev_frame ctx ?c2" by (rule ev_frame_trans [OF ev_cancel ev_upd_port]) simp
  note 3 = ev_frame_trans [OF 2 ev_pool_waiter_set] and r = ev_frame_trans [OF _ ev_make_ready]
  show ?thesis unfolding tx_wait_arm_def Let_def using 2 3 r [OF 2] r [OF 3] by (auto split: if_split)
qed

lemma ev_claim: "ev_frame ctx (snd (pool_waiter_claim ctx))"
  by (auto simp: pool_waiter_claim_def Let_def ev_waiters split: option.splits)

lemma ev_wake_waiter [ev_frames]: "ev_frame ctx (wake_waiter ctx)"
proof (induction ctx rule: wake_waiter.induct)
  case (1 ctx)
  obtain r c1 where c: "pool_waiter_claim ctx = (r, c1)" by fastforce
  with ev_claim [of ctx] have f1: "ev_frame ctx c1" by simp
  show ?case
  proof (cases r)
    case None
    with c f1 show ?thesis by (simp add: wake_waiter.simps [of ctx])
  next
    case (Some port)
    obtain w c2 where m: "tx_wait_make_ready port c1 = (w, c2)" by fastforce
    with ev_make_ready [of c1 port] have f2: "ev_frame ctx c2" using ev_frame_trans [OF f1] by simp
    from 1 [OF c [symmetric] Some refl, of w c2] m ev_frame_trans [OF f2]
    have "\<not> w \<Longrightarrow> ev_frame ctx (wake_waiter c2)" by simp
    with f2 c Some m show ?thesis by (simp add: wake_waiter.simps [of ctx])
  qed
qed

lemma ev_armed_set [ev_frames]: "ev_frame ctx (eq_tx_armed_set e p d ctx)"
  by (auto simp: eq_tx_armed_set_def Let_def ev_frame_def geo_def split: option.splits prod.splits)

lemma ev_armed_clear [ev_frames]: "ev_frame ctx (eq_tx_armed_clear e p ctx)"
  by (auto simp: eq_tx_armed_clear_def Let_def ev_frame_def geo_def split: option.splits prod.splits)

lemma ev_arm_idle_tail [ev_frames]: "ev_frame ctx (tx_arm_idle_tail p ctx)"
  by (auto simp: tx_arm_idle_tail_def Let_def ev_armed_set split: option.splits)

lemma ev_arm_tail [ev_frames]: "ev_frame ctx (tx_arm_tail now p ctx)"
  by (auto simp: tx_arm_tail_def Let_def intro!: ev_frame_trans [OF ev_upd_port ev_armed_set] split: option.splits)

lemma ev_disarm_tail [ev_frames]: "ev_frame ctx (tx_disarm_tail p ctx)"
  by (auto simp: tx_disarm_tail_def Let_def intro!: ev_upd_port ev_frame_trans [OF ev_armed_clear ev_upd_port]
      split: option.splits)

lemma ev_error_publish [ev_frames]: "ev_frame ctx (tx_error_publish p e ctx)"
  by (auto simp: tx_error_publish_def Let_def intro!: ev_upd_port ev_frame_trans [OF ev_upd_port ev_upd_eq]
      split: option.splits)

end
