(* ===== verification/Tx_Blocks.thy ===== *)
theory Tx_Blocks
  imports Host_Frame "HOL-Library.Multiset"
begin

text \<open>
  The blocks of one connection: the invariant of its chain and what recycling, compaction and
  backing do to the blocks it owns. The blocks assigned to logical positions and the recycled stack
  together are the blocks owned; no operation on the chain alone changes that multiset, except
  backing a position with a block grabbed from the pool and handing a recycled one back.
\<close>

section \<open>The invariant of a chain\<close>

definition assigned :: "nat \<Rightarrow> tx_chain \<Rightarrow> int list" where
  "assigned n tc = map (\<lambda>k. pblk tc ! (k mod n)) [tail_blk tc..<head_blk_next tc]"

definition stack :: "tx_chain \<Rightarrow> int list" where
  "stack tc = take (nrec tc) (recyc tc)"

definition owned :: "nat \<Rightarrow> tx_chain \<Rightarrow> int list" where
  "owned n tc = filter (\<lambda>b. 0 \<le> b) (assigned n tc) @ stack tc"

definition shape :: "nat \<Rightarrow> tx_chain \<Rightarrow> bool" where
  "shape n tc \<longleftrightarrow> 0 < n \<and> n \<le> TX_BLOCKS_PER_CONN \<and> length (pblk tc) = TX_BLOCKS_PER_CONN
     \<and> length (recyc tc) = TX_BLOCKS_PER_CONN \<and> length (blk_used tc) = TX_BLOCKS_PER_CONN"

definition backed :: "nat \<Rightarrow> tx_chain \<Rightarrow> bool" where
  "backed n tc \<longleftrightarrow> tail_blk tc \<le> head_blk_next tc \<and> head_blk_next tc - tail_blk tc \<le> n
     \<and> (\<forall>k. tail_blk tc \<le> k \<longrightarrow> k < head_blk_next tc \<longrightarrow> 0 \<le> pblk tc ! (k mod n))
     \<and> (\<forall>s < TX_BLOCKS_PER_CONN. 0 \<le> pblk tc ! s \<longrightarrow>
          (\<exists>k. tail_blk tc \<le> k \<and> k < head_blk_next tc \<and> s = k mod n))"

definition counted :: "nat \<Rightarrow> nat \<Rightarrow> tx_chain \<Rightarrow> bool" where
  "counted n nb tc \<longleftrightarrow> distinct (owned n tc) \<and> (\<forall>b \<in> set (owned n tc). 0 \<le> b \<and> b < int nb)
     \<and> nrec tc \<le> TX_BLOCKS_PER_CONN \<and> nblk_owned tc = int (length (owned n tc)) \<and> nblk_owned tc \<le> int n"

definition chain_blocks :: "nat \<Rightarrow> nat \<Rightarrow> tx_chain \<Rightarrow> bool" where
  "chain_blocks n nb tc \<longleftrightarrow> shape n tc \<and> backed n tc \<and> counted n nb tc"

lemma mod_window:
  assumes "a \<le> i" "i < a + n" "a \<le> j" "j < a + n" "i mod n = j mod (n :: nat)"
  shows "i = j"
proof -
  have *: "x = y" if "a \<le> x" "x \<le> y" "y < a + n" "x mod n = y mod n" for x y
  proof -
    from that(2,4) have "n dvd y - x" by (metis mod_eq_dvd_iff_nat)
    with that show ?thesis by (auto dest: dvd_imp_le)
  qed
  from * [of i j] * [of j i] assms show ?thesis by (cases "i \<le> j") auto
qed

lemma slot_lt: "shape n tc \<Longrightarrow> k mod n < TX_BLOCKS_PER_CONN"
  unfolding shape_def by (meson less_le_trans mod_less_divisor)

lemma assigned_backed: "backed n tc \<Longrightarrow> filter (\<lambda>b. 0 \<le> b) (assigned n tc) = assigned n tc"
  by (auto simp: assigned_def backed_def intro: filter_True)

lemma owned_backed: "backed n tc \<Longrightarrow> owned n tc = assigned n tc @ stack tc"
  by (simp add: owned_def assigned_backed)

lemma length_stack: "shape n tc \<Longrightarrow> nrec tc \<le> TX_BLOCKS_PER_CONN \<Longrightarrow> length (stack tc) = nrec tc"
  by (simp add: stack_def shape_def)

lemma length_owned:
  "shape n tc \<Longrightarrow> backed n tc \<Longrightarrow> nrec tc \<le> TX_BLOCKS_PER_CONN \<Longrightarrow>
   length (owned n tc) = head_blk_next tc - tail_blk tc + nrec tc"
  by (simp add: owned_backed length_stack assigned_def)

lemma countedD:
  assumes "chain_blocks n nb tc"
  shows "head_blk_next tc - tail_blk tc + nrec tc \<le> n" "nrec tc \<le> n"
    "nblk_owned tc = int (head_blk_next tc - tail_blk tc + nrec tc)"
proof -
  from assms have c: "nblk_owned tc = int (length (owned n tc))" "nblk_owned tc \<le> int n"
    and l: "length (owned n tc) = head_blk_next tc - tail_blk tc + nrec tc"
    by (auto simp: chain_blocks_def counted_def length_owned)
  then show "head_blk_next tc - tail_blk tc + nrec tc \<le> n" "nblk_owned tc = int (head_blk_next tc - tail_blk tc + nrec tc)"
    by linarith+
  then show "nrec tc \<le> n" by linarith
qed

section \<open>Recycling\<close>

text \<open>One step of the tail loop moves the oldest assigned block to the top of the stack.\<close>

definition recycle_step :: "nat \<Rightarrow> tx_chain \<Rightarrow> tx_chain" where
  "recycle_step n tc = (recycle_slot (tail_blk tc mod n) tc)\<lparr>tail_blk := tail_blk tc + 1\<rparr>"

lemma take_snoc_update: "i < length xs \<Longrightarrow> take (Suc i) (xs[i := x]) = take i xs @ [x]"
  by (simp add: take_Suc_conv_app_nth)

lemma recycle_step_fields:
  assumes "shape n tc" and "0 \<le> pblk tc ! (tail_blk tc mod n)"
  shows "recycle_step n tc = tc\<lparr>recyc := (recyc tc)[nrec tc := pblk tc ! (tail_blk tc mod n)],
    nrec := nrec tc + 1, pblk := (pblk tc)[tail_blk tc mod n := -1], tail_blk := tail_blk tc + 1\<rparr>"
  using assms by (simp add: recycle_step_def recycle_slot_def)

lemma recycle_step_blocks:
  assumes "chain_blocks n nb tc" and "tail_blk tc < head_blk_next tc"
  shows "chain_blocks n nb (recycle_step n tc) \<and> mset (owned n (recycle_step n tc)) = mset (owned n tc)
    \<and> tail_blk (recycle_step n tc) = tail_blk tc + 1 \<and> nrec (recycle_step n tc) = nrec tc + 1"
proof -
  let ?s = "tail_blk tc mod n" and ?t = "recycle_step n tc"
  from assms have sh: "shape n tc" and bk: "backed n tc" and ct: "counted n nb tc" by (auto simp: chain_blocks_def)
  have b: "0 \<le> pblk tc ! ?s" using bk assms(2) by (simp add: backed_def)
  note t = recycle_step_fields [OF sh b]
  have nr: "nrec tc < TX_BLOCKS_PER_CONN"
    using countedD(1) [OF assms(1)] assms(2) sh unfolding shape_def by linarith
  have slots: "k mod n \<noteq> ?s" if "tail_blk tc < k" "k < head_blk_next tc" for k
  proof
    assume "k mod n = ?s"
    moreover have "k < tail_blk tc + n" using bk that by (auto simp: backed_def)
    ultimately have "k = tail_blk tc" using mod_window [of "tail_blk tc" k n "tail_blk tc"] that sh
      by (simp add: shape_def)
    with that show False by simp
  qed
  have sh': "shape n ?t" using sh by (simp add: shape_def t)
  have free: "\<exists>k. Suc (tail_blk tc) \<le> k \<and> k < head_blk_next tc \<and> s = k mod n"
    if s: "s < TX_BLOCKS_PER_CONN" "0 \<le> (pblk tc)[?s := -1] ! s" for s
  proof -
    have ne: "s \<noteq> ?s" using s sh slot_lt [OF sh, of "tail_blk tc"] by (auto simp: shape_def)
    with s bk obtain k where "tail_blk tc \<le> k" "k < head_blk_next tc" "s = k mod n" by (auto simp: backed_def)
    with ne show ?thesis by (metis le_eq_less_or_eq Suc_leI)
  qed
  have "0 \<le> (pblk tc)[?s := -1] ! (k mod n)" if "Suc (tail_blk tc) \<le> k" "k < head_blk_next tc" for k
    using bk that slots [of k] by (simp add: backed_def)
  with free bk assms(2) have bk': "backed n ?t" by (auto simp: backed_def t)
  have "assigned n ?t = map (\<lambda>k. pblk tc ! (k mod n)) [Suc (tail_blk tc)..<head_blk_next tc]"
    unfolding assigned_def by (rule map_cong) (simp_all add: t slots [THEN not_sym])
  moreover have "assigned n tc = pblk tc ! ?s # map (\<lambda>k. pblk tc ! (k mod n)) [Suc (tail_blk tc)..<head_blk_next tc]"
    using assms(2) by (simp add: assigned_def upt_conv_Cons)
  moreover have "stack ?t = stack tc @ [pblk tc ! ?s]"
    using nr sh by (simp add: stack_def t shape_def take_snoc_update)
  ultimately have m: "mset (owned n ?t) = mset (owned n tc)"
    by (simp add: owned_backed [OF bk] owned_backed [OF bk'])
  have "length (owned n ?t) = length (owned n tc)" using m by (metis size_mset)
  then have "counted n nb ?t"
    using ct nr m mset_eq_setD [OF m] mset_eq_imp_distinct_iff [OF m] by (simp add: counted_def t)
  with sh' bk' m show ?thesis by (simp add: chain_blocks_def t)
qed

lemma recycle_tail_step: "recycle_tail n (Suc m) tc = recycle_tail n m (recycle_step n tc)"
  by (simp add: recycle_step_def)

lemma recycle_tail_blocks:
  assumes "chain_blocks n nb tc" and "tail_blk tc + m \<le> head_blk_next tc"
  shows "chain_blocks n nb (recycle_tail n m tc) \<and> mset (owned n (recycle_tail n m tc)) = mset (owned n tc)
    \<and> tail_blk (recycle_tail n m tc) = tail_blk tc + m"
  using assms
proof (induction m arbitrary: tc)
  case (Suc m)
  then have lt: "tail_blk tc < head_blk_next tc" by simp
  note s = recycle_step_blocks [OF Suc.prems(1) lt]
  have h: "head_blk_next (recycle_step n tc) = head_blk_next tc"
    by (simp add: recycle_step_def recycle_slot_def)
  from Suc.IH [of "recycle_step n tc"] s h Suc.prems(2) show ?case by (simp add: recycle_tail_step del: recycle_tail.simps)
qed simp

lemma recycle_tail_cursors [simp]:
  "tx_w (recycle_tail n m tc) = tx_w tc" "tx_s (recycle_tail n m tc) = tx_s tc"
  "tx_c (recycle_tail n m tc) = tx_c tc" "tx_f (recycle_tail n m tc) = tx_f tc"
  "head_blk_next (recycle_tail n m tc) = head_blk_next tc" "blk_used (recycle_tail n m tc) = blk_used tc"
  "resv_len (recycle_tail n m tc) = resv_len tc" "resv_moff (recycle_tail n m tc) = resv_moff tc"
  "nblk_owned (recycle_tail n m tc) = nblk_owned tc"
  by (induction m arbitrary: tc) (simp_all add: recycle_slot_def)

lemma recycle_slot_empty: "pblk tc ! s < 0 \<Longrightarrow> recycle_slot s tc = tc"
  by (simp add: recycle_slot_def)

text \<open>Compaction of a drained chain: at most one block is still assigned, and it is recycled too.\<close>

lemma compact_blocks:
  fixes w s c f :: nat
  assumes "chain_blocks n nb tc" and "head_blk_next tc \<le> tail_blk tc + 1"
  defines "tc' \<equiv> (recycle_slot (tail_blk tc mod n) tc)\<lparr>tx_w := w, tx_s := s, tx_c := c, tx_f := f, tail_blk := 0, head_blk_next := 0\<rparr>"
  shows "chain_blocks n nb tc' \<and> mset (owned n tc') = mset (owned n tc)"
proof (cases "tail_blk tc < head_blk_next tc")
  case True
  let ?r = "recycle_step n tc"
  from recycle_step_blocks [OF assms(1) True] have r: "chain_blocks n nb ?r" "mset (owned n ?r) = mset (owned n tc)"
    "tail_blk ?r = tail_blk tc + 1" by auto
  have h: "head_blk_next ?r = head_blk_next tc" by (simp add: recycle_step_def recycle_slot_def)
  have tc': "tc' = ?r\<lparr>tx_w := w, tx_s := s, tx_c := c, tx_f := f, tail_blk := 0, head_blk_next := 0\<rparr>"
    by (simp add: tc'_def recycle_step_def)
  have e: "owned n tc' = owned n ?r" using r(3) h assms(2) True by (simp add: owned_def assigned_def stack_def tc')
  with r h assms(2) True show ?thesis
    by (auto simp: chain_blocks_def counted_def e) (auto simp: shape_def backed_def tc')
next
  case False
  from assms(1) have bk: "backed n tc" and sh: "shape n tc" by (auto simp: chain_blocks_def)
  have neg: "pblk tc ! s < 0" if "s < TX_BLOCKS_PER_CONN" for s
    using bk that False by (fastforce simp: backed_def)
  from neg [OF slot_lt [OF sh]] have tc': "tc' = tc\<lparr>tx_w := w, tx_s := s, tx_c := c, tx_f := f, tail_blk := 0, head_blk_next := 0\<rparr>"
    by (simp add: tc'_def recycle_slot_empty)
  have e: "owned n tc' = owned n tc" using False by (simp add: owned_def assigned_def stack_def tc')
  with assms(1) neg show ?thesis
    by (auto simp: chain_blocks_def counted_def e) (auto simp: shape_def backed_def tc' not_le)
qed

section \<open>Backing a logical block\<close>

lemma pop_recycled_blocks:
  assumes "chain_blocks n nb tc" and "0 < nrec tc" and "pop_recycled tc = (b, tc')"
  shows "tc' = tc\<lparr>nrec := nrec tc - 1\<rparr> \<and> stack tc = stack tc' @ [b] \<and> b \<in> set (owned n tc) \<and> 0 \<le> b \<and> b < int nb"
proof -
  from assms(3) have b: "b = recyc tc ! (nrec tc - 1)" and t: "tc' = tc\<lparr>nrec := nrec tc - 1\<rparr>"
    by (auto simp: pop_recycled_def)
  have "nrec tc \<le> length (recyc tc)" using assms(1) by (auto simp: chain_blocks_def counted_def shape_def)
  with assms(2) have st: "stack tc = stack tc' @ [b]"
    by (cases "nrec tc") (auto simp: stack_def t b take_Suc_conv_app_nth)
  then have "b \<in> set (owned n tc)" by (simp add: owned_def)
  with assms(1) st t show ?thesis by (auto simp: chain_blocks_def counted_def)
qed

text \<open>The chain with the next position backed by \<open>b\<close>.\<close>

definition back_with :: "nat \<Rightarrow> int \<Rightarrow> tx_chain \<Rightarrow> tx_chain" where
  "back_with n b tc = (let s = head_blk_next tc mod n
     in tc\<lparr>pblk := (pblk tc)[s := b], blk_used := (blk_used tc)[s := 0], head_blk_next := head_blk_next tc + 1\<rparr>)"

lemma back_with_backed:
  assumes "shape n tc" and "backed n tc" and "head_blk_next tc - tail_blk tc < n" and "0 \<le> b"
  shows "shape n (back_with n b tc) \<and> backed n (back_with n b tc)
    \<and> assigned n (back_with n b tc) = assigned n tc @ [b] \<and> stack (back_with n b tc) = stack tc"
proof -
  let ?s = "head_blk_next tc mod n" and ?t = "back_with n b tc"
  have sl: "?s < TX_BLOCKS_PER_CONN" using assms(1) by (rule slot_lt)
  have slots: "k mod n \<noteq> ?s" if "tail_blk tc \<le> k" "k < head_blk_next tc" for k
  proof
    assume "k mod n = ?s"
    moreover have "head_blk_next tc < tail_blk tc + n" using that assms(3) by linarith
    ultimately have "k = head_blk_next tc"
      using mod_window [of "tail_blk tc" k n "head_blk_next tc"] that by simp
    with that show False by simp
  qed
  have sh: "shape n ?t" using assms(1) by (simp add: shape_def back_with_def Let_def)
  have nth: "pblk ?t ! s = (if s = ?s then b else pblk tc ! s)" if "s < TX_BLOCKS_PER_CONN" for s
    using that assms(1) by (simp add: back_with_def Let_def shape_def nth_list_update)
  have f: "tail_blk ?t = tail_blk tc" "head_blk_next ?t = Suc (head_blk_next tc)" by (simp_all add: back_with_def Let_def)
  have le: "tail_blk tc \<le> head_blk_next tc" using assms(2) by (simp add: backed_def)
  have old: "pblk ?t ! (k mod n) = pblk tc ! (k mod n)" if "tail_blk tc \<le> k" "k < head_blk_next tc" for k
    using slots [OF that] nth [OF slot_lt [OF assms(1)]] by simp
  have "backed n ?t" unfolding backed_def f
  proof (intro conjI allI impI)
    fix k assume "tail_blk tc \<le> k" "k < Suc (head_blk_next tc)"
    then show "0 \<le> pblk ?t ! (k mod n)"
      using old [of k] nth [OF sl] assms(2,4) by (cases "k = head_blk_next tc") (auto simp: backed_def)
  next
    fix s assume s: "s < TX_BLOCKS_PER_CONN" "0 \<le> pblk ?t ! s"
    show "\<exists>k. tail_blk tc \<le> k \<and> k < Suc (head_blk_next tc) \<and> s = k mod n"
    proof (cases "s = ?s")
      case False
      with s nth [of s] assms(2) obtain k where "tail_blk tc \<le> k" "k < head_blk_next tc" "s = k mod n"
        by (auto simp: backed_def)
      then show ?thesis by (intro exI [of _ k]) simp
    qed (use le in auto)
  qed (use le assms(2,3) in auto)
  moreover have "assigned n ?t = assigned n tc @ [b]"
    using old nth [OF sl] le by (simp add: assigned_def f)
  moreover have "stack ?t = stack tc" by (simp add: stack_def back_with_def Let_def)
  ultimately show ?thesis using sh by simp
qed

lemma back_blocks_one:
  "back_blocks n (Suc 0) phys tc =
    (if nrec tc > 0 then back_with n (fst (pop_recycled tc)) (snd (pop_recycled tc))
     else (back_with n phys (tc\<lparr>nblk_owned := nblk_owned tc + 1\<rparr>)))"
  by (simp add: back_with_def pop_recycled_def Let_def)

lemma back_one_recycled:
  fixes phys :: int
  assumes "chain_blocks n nb tc" and "0 < nrec tc" and "head_blk_next tc - tail_blk tc < n"
  defines "tc' \<equiv> back_blocks n (Suc 0) phys tc"
  shows "chain_blocks n nb tc' \<and> mset (owned n tc') = mset (owned n tc)"
proof -
  obtain b tp where pop: "pop_recycled tc = (b, tp)" by fastforce
  from pop_recycled_blocks [OF assms(1,2) pop] have tp: "tp = tc\<lparr>nrec := nrec tc - 1\<rparr>" "stack tc = stack tp @ [b]"
    "0 \<le> b" by auto
  have tc': "tc' = back_with n b tp" using assms(2) pop unfolding tc'_def back_blocks_one by simp
  from assms(1) have sh: "shape n tc" and bk: "backed n tc" and ct: "counted n nb tc" by (auto simp: chain_blocks_def)
  have p: "shape n tp" "backed n tp" "head_blk_next tp - tail_blk tp < n"
    using sh bk assms(3) by (auto simp: tp(1) shape_def backed_def)
  note w = back_with_backed [OF p tp(3), folded tc']
  have "assigned n tp = assigned n tc" by (simp add: assigned_def tp(1))
  with w tp(2) have m: "mset (owned n tc') = mset (owned n tc)"
    using owned_backed [OF bk] owned_backed [of n tc'] by simp
  have f: "nrec tc' = nrec tc - 1" "nblk_owned tc' = nblk_owned tc" by (simp_all add: tc' back_with_def Let_def tp(1))
  have "counted n nb tc'"
    using ct f mset_eq_setD [OF m] mset_eq_imp_distinct_iff [OF m] mset_eq_length [OF m] by (auto simp: counted_def)
  with w m show ?thesis by (simp add: chain_blocks_def)
qed

lemma back_one_grabbed:
  assumes "chain_blocks n nb tc" and "nrec tc = 0" and "head_blk_next tc - tail_blk tc < n"
    and "0 \<le> phys" "phys < int nb" "phys \<notin> set (owned n tc)" and "nblk_owned tc < int n"
  defines "tc' \<equiv> back_blocks n (Suc 0) phys tc"
  shows "chain_blocks n nb tc' \<and> mset (owned n tc') = add_mset phys (mset (owned n tc))"
proof -
  let ?tp = "tc\<lparr>nblk_owned := nblk_owned tc + 1\<rparr>"
  have tc': "tc' = back_with n phys ?tp" using assms(2) unfolding tc'_def back_blocks_one by simp
  from assms(1) have sh: "shape n tc" and bk: "backed n tc" and ct: "counted n nb tc" by (auto simp: chain_blocks_def)
  have p: "shape n ?tp" "backed n ?tp" "head_blk_next ?tp - tail_blk ?tp < n"
    using sh bk assms(3) by (auto simp: shape_def backed_def)
  note w = back_with_backed [OF p assms(4), folded tc']
  have "assigned n ?tp = assigned n tc" "stack ?tp = stack tc" by (simp_all add: assigned_def stack_def)
  with w have o: "owned n tc' = assigned n tc @ phys # stack tc" using owned_backed [of n tc'] by simp
  have "counted n nb tc'"
    using ct assms(2-7) owned_backed [OF bk] by (auto simp: counted_def o) (simp_all add: tc' back_with_def Let_def)
  with w o owned_backed [OF bk] show ?thesis by (simp add: chain_blocks_def)
qed

section \<open>The cursors\<close>

text \<open>
  The order of the cursors the header of the slot promises, the content ends within the block size,
  the block of the commit cursor covering it while something is unsent, and a live reservation that
  fits its block.
\<close>

definition covers :: "nat \<Rightarrow> nat \<Rightarrow> nat \<Rightarrow> tx_chain \<Rightarrow> bool" where
  "covers bs n c tc \<longleftrightarrow> c - (c - 1) div bs * bs \<le> blk_used tc ! ((c - 1) div bs mod n)"

definition cursors :: "nat \<Rightarrow> nat \<Rightarrow> tx_chain \<Rightarrow> bool" where
  "cursors bs n tc \<longleftrightarrow> 0 < bs \<and> tail_blk tc * bs \<le> tx_f tc \<and> tx_f tc \<le> tx_s tc \<and> tx_s tc \<le> tx_c tc
     \<and> tx_c tc \<le> tx_w tc \<and> tx_w tc \<le> head_blk_next tc * bs
     \<and> (\<forall>i < TX_BLOCKS_PER_CONN. blk_used tc ! i \<le> bs) \<and> (tx_s tc < tx_c tc \<longrightarrow> covers bs n (tx_c tc) tc)"

definition resv_ok :: "nat \<Rightarrow> nat \<Rightarrow> tx_chain \<Rightarrow> bool" where
  "resv_ok bs n tc \<longleftrightarrow> (resv_len tc \<noteq> 0 \<longrightarrow>
     tx_w tc mod bs + resv_len tc \<le> bs \<and> tx_w tc div bs < head_blk_next tc
     \<and> resv_moff tc = nat (pblk tc ! (tx_w tc div bs mod n)) * bs + tx_w tc mod bs)"

definition chain_inv :: "nat \<Rightarrow> nat \<Rightarrow> nat \<Rightarrow> tx_chain \<Rightarrow> bool" where
  "chain_inv bs n nb tc \<longleftrightarrow> chain_blocks n nb tc \<and> cursors bs n tc"

text \<open>A chain that may still grow has its last assigned block at the write cursor.\<close>

definition tight :: "nat \<Rightarrow> tx_chain \<Rightarrow> bool" where
  "tight bs tc \<longleftrightarrow> head_blk_next tc * bs \<le> tx_w tc + bs"

lemma div_lt_of_lt_mult: "x < m * bs \<Longrightarrow> x div bs < (m :: nat)"
  by (simp add: less_mult_imp_div_less)

lemma sent_block:
  assumes "cursors bs n tc" and "tx_s tc < tx_c tc"
  shows "tail_blk tc \<le> tx_s tc div bs \<and> tx_s tc div bs < head_blk_next tc"
proof -
  from assms have "tail_blk tc * bs \<le> tx_s tc" "tx_s tc < head_blk_next tc * bs" "0 < bs" by (auto simp: cursors_def)
  then show ?thesis by (simp add: div_lt_of_lt_mult less_eq_div_iff_mult_less_eq)
qed

lemma skip_pad_le:
  assumes "cursors bs n tc" and "tx_s tc < tx_c tc" and "blk_used tc ! (tx_s tc div bs mod n) \<le> tx_s tc mod bs"
  shows "(tx_s tc div bs + 1) * bs \<le> tx_c tc"
proof (rule ccontr)
  assume n: "\<not> ?thesis"
  let ?k = "tx_s tc div bs"
  from assms have bs: "0 < bs" and cov: "covers bs n (tx_c tc) tc" by (auto simp: cursors_def)
  have lo: "?k * bs \<le> tx_s tc" by simp
  have "(tx_c tc - 1) div bs = ?k"
  proof (rule div_nat_eqI)
    show "bs * ?k \<le> tx_c tc - 1" using lo assms(2) unfolding mult.commute [of bs] by linarith
    show "tx_c tc - 1 < bs * Suc ?k" using n assms(2) by (simp add: mult.commute)
  qed
  with cov assms(3) have "tx_c tc - ?k * bs \<le> tx_s tc mod bs" by (simp add: covers_def)
  moreover have "tx_s tc = ?k * bs + tx_s tc mod bs" by simp
  ultimately show False using assms(2) by linarith
qed

definition limited :: "nat option \<Rightarrow> tx_chain \<Rightarrow> nat" where
  "limited lim tc = (case lim of None \<Rightarrow> tx_c tc | Some l \<Rightarrow> min (tx_c tc) l)"

lemma limited_le: "limited lim tc \<le> tx_c tc"
  by (simp add: limited_def split: option.split)

lemma limited_upd [simp]: "limited lim (tc\<lparr>tx_s := s\<rparr>) = limited lim tc"
  by (simp add: limited_def split: option.split)

text \<open>
  The unit that is selected lies in one block the connection owns, within the committed bytes, and
  within the payload cap of its offset; nothing but the send cursor moves, and only over padding.
\<close>

definition unit_ok :: "nat \<Rightarrow> nat \<Rightarrow> nat \<Rightarrow> nat option \<Rightarrow> nat \<Rightarrow> nat \<Rightarrow> tx_chain \<Rightarrow> bool" where
  "unit_ok bs n sz lim moff len tc \<longleftrightarrow>
     (let k = tx_s tc div bs; off = tx_s tc mod bs
      in tail_blk tc \<le> k \<and> k < head_blk_next tc \<and> moff = nat (pblk tc ! (k mod n)) * bs + off
         \<and> off + len \<le> blk_used tc ! (k mod n) \<and> tx_s tc + len \<le> limited lim tc
         \<and> len \<le> unat (dpa_dma_payload_cap (of_nat moff) (of_nat sz))
         \<and> (0 < unat (dpa_dma_payload_cap (of_nat moff) (of_nat sz)) \<longrightarrow> 0 < len))"

lemma if_pairD:
  assumes "f = (r, t)" and "f = (if C then (a, u) else (b, u))"
  shows "r = (if C then a else b)" and "t = u"
  using assms by (auto split: if_splits)

lemma next_send_spec:
  assumes "cursors bs n tc" and "next_send_upto bs n sz fl lim tc = (r, tc')"
  shows "\<exists>s. tc' = tc\<lparr>tx_s := s\<rparr> \<and> tx_s tc \<le> s \<and> s \<le> tx_c tc \<and> cursors bs n tc'
    \<and> (\<forall>moff len. r = Some (moff, len) \<longrightarrow> s < tx_c tc \<and> unit_ok bs n sz lim moff len tc')"
  using assms
proof (induction bs n sz fl lim tc rule: next_send_upto.induct)
  case (1 bs n sz fl lim tc)
  let ?k = "tx_s tc div bs" and ?off = "tx_s tc mod bs"
  let ?used = "blk_used tc ! (?k mod n)"
  have bs: "0 < bs" using 1(2) by (simp add: cursors_def)
  have lim: "(case lim of None \<Rightarrow> tx_c tc | Some l \<Rightarrow> min (tx_c tc) l) = limited lim tc" by (simp add: limited_def)
  show ?case
  proof (cases "limited lim tc \<le> tx_s tc")
    case True
    with 1(2,3) bs show ?thesis
      by (intro exI [of _ "tx_s tc"]) (auto simp: next_send_upto.simps [of bs n sz fl lim tc] lim cursors_def)
  next
    case False
    then have lt: "tx_s tc < tx_c tc" using limited_le [of lim tc] by simp
    show ?thesis
    proof (cases "?used \<le> ?off")
      case True
      let ?t = "tc\<lparr>tx_s := (?k + 1) * bs\<rparr>"
      have up: "tx_s tc < (?k + 1) * bs" "(?k + 1) * bs \<le> tx_c tc"
        using next_block_gt [OF bs] skip_pad_le [OF 1(2) lt True] by auto
      have cu: "cursors bs n ?t" using 1(2) up by (auto simp: cursors_def covers_def)
      have r: "next_send_upto bs n sz fl lim ?t = (r, tc')"
        using 1(3) False True bs by (simp add: next_send_upto.simps [of bs n sz fl lim tc] lim Let_def)
      have "\<exists>s. tc' = ?t\<lparr>tx_s := s\<rparr> \<and> tx_s ?t \<le> s \<and> s \<le> tx_c ?t \<and> cursors bs n tc'
          \<and> (\<forall>moff len. r = Some (moff, len) \<longrightarrow> s < tx_c ?t \<and> unit_ok bs n sz lim moff len tc')"
        by (rule 1(1) [OF refl refl _ refl refl refl True cu r]) (use False bs in \<open>simp add: lim\<close>)
      with up show ?thesis by auto
    next
      case used: False
      let ?fin = "?k * bs + ?used" and ?moff = "nat (pblk tc ! (?k mod n)) * bs + ?off"
      let ?av = "min (limited lim tc) ?fin - tx_s tc"
      let ?cap = "unat (dpa_dma_payload_cap (of_nat ?moff) (of_nat sz))"
      have e: "next_send_upto bs n sz fl lim tc
          = (if \<not> fl \<and> ?av < ?cap \<and> limited lim tc \<le> ?fin then (None, tc) else (Some (?moff, min ?av ?cap), tc))"
        using bs by (simp only: next_send_upto.simps [of bs n sz fl lim tc] Let_def lim False used if_False
          less_not_refl2 simp_thms)
      note rr = if_pairD [OF 1(3) e]
      have s: "tx_s tc = ?k * bs + ?off" by simp
      then have "?off + ?av \<le> ?used" "tx_s tc + ?av \<le> limited lim tc" "0 < ?av" using used False by linarith+
      with sent_block [OF 1(2) lt] have "unit_ok bs n sz lim ?moff (min ?av ?cap) tc"
        by (auto simp: unit_ok_def Let_def)
      with rr lt 1(2) show ?thesis by (intro exI [of _ "tx_s tc"]) (auto simp: cursors_def split: if_splits)
    qed
  qed
qed

end
