(* ===== verification/Tx_Chain.thy ===== *)
theory Tx_Chain
  imports Tx_Blocks
begin

text \<open>
  Every operation on the byte ring of a connection keeps the invariant of its chain: recycling and
  compaction, placing a message, committing it, moving the send cursor, padding and restoring the
  end of the last unit, discarding what was not sent, and releasing acknowledged bytes. The blocks
  owned change only when a block of the pool is put behind a logical block.
\<close>

lemma chain_invD:
  assumes "chain_inv bs n nb tc"
  shows "chain_blocks n nb tc" "cursors bs n tc" "shape n tc" "backed n tc" "0 < bs" "0 < n"
  using assms by (auto simp: chain_inv_def chain_blocks_def cursors_def shape_def)

lemma div_window:
  fixes k :: nat
  assumes "k * bs \<le> x" and "x < (k + 1) * bs"
  shows "x div bs = k"
  using assms by (intro div_nat_eqI) (simp_all add: mult.commute)

lemma mod_as_diff: "(x :: nat) mod bs = x - x div bs * bs"
  by (simp add: minus_div_mult_eq_mod)

text \<open>Fields that the block invariant does not read.\<close>

lemma blocks_upd [simp]:
  "owned n (tc\<lparr>tx_w := w\<rparr>) = owned n tc" "owned n (tc\<lparr>tx_s := w\<rparr>) = owned n tc"
  "owned n (tc\<lparr>tx_c := w\<rparr>) = owned n tc" "owned n (tc\<lparr>tx_f := w\<rparr>) = owned n tc"
  "owned n (tc\<lparr>resv_len := w\<rparr>) = owned n tc" "owned n (tc\<lparr>resv_moff := w\<rparr>) = owned n tc"
  "owned n (tc\<lparr>blk_used := u\<rparr>) = owned n tc"
  by (simp_all add: owned_def assigned_def stack_def)

lemma chain_blocks_upd [simp]:
  "chain_blocks n nb (tc\<lparr>tx_w := w\<rparr>) = chain_blocks n nb tc" "chain_blocks n nb (tc\<lparr>tx_s := w\<rparr>) = chain_blocks n nb tc"
  "chain_blocks n nb (tc\<lparr>tx_c := w\<rparr>) = chain_blocks n nb tc" "chain_blocks n nb (tc\<lparr>tx_f := w\<rparr>) = chain_blocks n nb tc"
  "chain_blocks n nb (tc\<lparr>resv_len := w\<rparr>) = chain_blocks n nb tc"
  "chain_blocks n nb (tc\<lparr>resv_moff := w\<rparr>) = chain_blocks n nb tc"
  "length u = length (blk_used tc) \<Longrightarrow> chain_blocks n nb (tc\<lparr>blk_used := u\<rparr>) = chain_blocks n nb tc"
  by (simp_all add: chain_blocks_def counted_def) (simp_all add: shape_def backed_def)

section \<open>Moving the cursors\<close>

lemma chain_send:
  assumes "chain_inv bs n nb tc" and "tx_s tc \<le> s" and "s \<le> tx_c tc"
  shows "chain_inv bs n nb (tc\<lparr>tx_s := s\<rparr>)"
  using assms by (auto simp: chain_inv_def cursors_def covers_def)

lemma chain_free:
  assumes "chain_inv bs n nb tc" and "tx_f tc \<le> f" and "f \<le> tx_s tc"
  shows "chain_inv bs n nb (tc\<lparr>tx_f := f\<rparr>)"
  using assms by (auto simp: chain_inv_def cursors_def covers_def)

lemma chain_resv: "chain_inv bs n nb (tc\<lparr>resv_len := l, resv_moff := m\<rparr>) = chain_inv bs n nb tc"
  by (simp add: chain_inv_def cursors_def covers_def)

lemma used_bound:
  assumes "chain_inv bs n nb tc" and "v \<le> bs"
  shows "\<forall>i < TX_BLOCKS_PER_CONN. (blk_used tc)[j := v] ! i \<le> bs"
proof (intro allI impI)
  fix i assume i: "i < TX_BLOCKS_PER_CONN"
  from assms(1) have "length (blk_used tc) = TX_BLOCKS_PER_CONN" "blk_used tc ! i \<le> bs"
    using i by (auto simp: chain_inv_def cursors_def chain_blocks_def shape_def)
  with i assms(2) show "(blk_used tc)[j := v] ! i \<le> bs" by (cases "i = j") simp_all
qed

lemma used_same:
  assumes "chain_inv bs n nb tc"
  shows "(blk_used tc)[k mod n := v] ! (k mod n) = v"
  using slot_lt [OF chain_invD(3) [OF assms], of k] assms
  by (simp add: chain_inv_def chain_blocks_def shape_def)

text \<open>
  The end of the written bytes is set to \<open>e\<close> within a block: a commit, the padding of the last unit
  and its undoing.
\<close>

lemma chain_set_end:
  assumes inv: "chain_inv bs n nb tc" and "tx_s tc \<le> e" and "block * bs < e" and "e \<le> (block + 1) * bs"
    and "block < head_blk_next tc"
  shows "chain_inv bs n nb (tc\<lparr>tx_w := e, blk_used := (blk_used tc)[block mod n := e - block * bs], tx_c := e\<rparr>)"
proof -
  note d = chain_invD [OF inv]
  have k: "(e - 1) div bs = block" using assms(3,4) by (intro div_window) auto
  have "(block + 1) * bs \<le> head_blk_next tc * bs" using assms(5) by (intro mult_le_mono) auto
  then have h: "e \<le> head_blk_next tc * bs" using assms(4) by linarith
  have v: "e - block * bs \<le> bs" using assms(4) by simp
  from d(2) h used_bound [OF inv v] used_same [OF inv, of block] assms(2) k d(1) show ?thesis
    unfolding chain_inv_def cursors_def covers_def by simp
qed

lemma chain_commit:
  assumes inv: "chain_inv bs n nb tc" and "resv_ok bs n tc" and "0 < len" and "len \<le> resv_len tc"
  shows "chain_inv bs n nb (commit_chain bs n len tc) \<and> resv_len (commit_chain bs n len tc) = 0
    \<and> owned n (commit_chain bs n len tc) = owned n tc \<and> (tight bs tc \<longrightarrow> tight bs (commit_chain bs n len tc))"
proof -
  let ?k = "tx_w tc div bs" and ?e = "tx_w tc + len"
  let ?t = "tc\<lparr>tx_w := ?e, blk_used := (blk_used tc)[?k mod n := ?e - ?k * bs], tx_c := ?e\<rparr>"
  from assms(2-4) have r: "tx_w tc mod bs + resv_len tc \<le> bs" "?k < head_blk_next tc" by (auto simp: resv_ok_def)
  have w: "tx_w tc = ?k * bs + tx_w tc mod bs" by simp
  have "(?k + 1) * bs = ?k * bs + bs" by simp
  then have e: "?k * bs < ?e" "?e \<le> (?k + 1) * bs" using assms(3,4) r(1) w by linarith+
  have s: "tx_s tc \<le> ?e" using chain_invD(2) [OF inv] by (simp add: cursors_def)
  have c: "commit_chain bs n len tc = ?t\<lparr>resv_len := 0, resv_moff := 0\<rparr>" by (simp add: commit_chain_def Let_def)
  show ?thesis unfolding c chain_resv using chain_set_end [OF inv s e r(2)] by (auto simp: tight_def)
qed

lemma chain_discard:
  assumes inv: "chain_inv bs n nb tc"
  shows "chain_inv bs n nb (tc\<lparr>tx_c := tx_s tc, tx_w := tx_s tc, resv_len := 0, resv_moff := 0,
    blk_used := (blk_used tc)[tx_s tc div bs mod n := tx_s tc - tx_s tc div bs * bs]\<rparr>)"
proof -
  note d = chain_invD [OF inv]
  have v: "tx_s tc - tx_s tc div bs * bs \<le> bs"
    using d(5) by (simp add: minus_div_mult_eq_mod less_imp_le)
  from d(1,2) used_bound [OF inv v] show ?thesis by (auto simp: chain_inv_def cursors_def)
qed

section \<open>Recycling and compaction\<close>

lemma chain_refresh:
  fixes q :: su_fifo
  assumes inv: "chain_inv bs n nb tc" and "tight bs tc"
  defines "tc' \<equiv> refresh_chain bs n q tc"
  shows "chain_inv bs n nb tc' \<and> tight bs tc' \<and> mset (owned n tc') = mset (owned n tc)
    \<and> resv_len tc' = resv_len tc
    \<and> (tx_f tc' = tx_f tc \<and> tx_s tc' = tx_s tc \<and> tx_c tc' = tx_c tc \<and> tx_w tc' = tx_w tc
       \<or> tx_f tc' = 0 \<and> tx_s tc' = 0 \<and> tx_c tc' = 0 \<and> tx_w tc' = 0 \<and> tx_f tc = tx_w tc \<and> su_head q = su_tail q)"
proof -
  note d = chain_invD [OF inv]
  let ?f = "tx_f tc div bs" and ?m = "tx_f tc div bs - tail_blk tc"
  let ?r = "recycle_tail n ?m tc"
  have fc: "tail_blk tc * bs \<le> tx_f tc" "tx_f tc \<le> head_blk_next tc * bs" using d(2) by (auto simp: cursors_def)
  have tf: "tail_blk tc \<le> ?f" using fc(1) d(5) by (simp add: less_eq_div_iff_mult_less_eq)
  have fh: "?f \<le> head_blk_next tc"
    using fc(2) d(5) by (metis div_le_mono div_mult_self_is_m)
  from recycle_tail_blocks [OF d(1), of ?m] tf fh have r: "chain_blocks n nb ?r"
    "mset (owned n ?r) = mset (owned n tc)" "tail_blk ?r = ?f" by auto
  have ri: "chain_inv bs n nb ?r" using r d(2,5) by (auto simp: chain_inv_def cursors_def covers_def)
  show ?thesis
  proof (cases "tx_f tc = tx_w tc \<and> su_head q = su_tail q")
    case False
    then have "tc' = ?r" by (auto simp: tc'_def refresh_chain_def Let_def)
    with ri r assms(2) show ?thesis by (simp add: tight_def)
  next
    case True
    have "head_blk_next tc * bs \<le> tx_w tc + bs" using assms(2) by (simp add: tight_def)
    also have "tx_w tc + bs < (?f + 2) * bs"
      using True d(5) dividend_less_div_times [of bs "tx_f tc"] by (simp add: algebra_simps)
    finally have "head_blk_next tc < ?f + 2" by (meson mult_less_cancel2)
    then have h: "head_blk_next ?r \<le> tail_blk ?r + 1" using r(3) by simp
    let ?z = "(recycle_slot (tail_blk ?r mod n) ?r)\<lparr>tx_w := 0, tx_s := 0, tx_c := 0, tx_f := 0, tail_blk := 0, head_blk_next := 0\<rparr>"
    have t: "tc' = ?z" using True r(3) by (simp add: tc'_def refresh_chain_def Let_def)
    have l: "blk_used ?z = blk_used tc" "resv_len ?z = resv_len tc" by (simp_all add: recycle_slot_def)
    from compact_blocks [OF r(1) h, of 0 0 0 0] r(2) have c: "chain_blocks n nb ?z" "mset (owned n ?z) = mset (owned n tc)" by auto
    have "cursors bs n ?z" using d(2) l(1) by (auto simp: cursors_def)
    with c l True show ?thesis unfolding t by (simp add: chain_inv_def tight_def)
  qed
qed

section \<open>Placing a message\<close>

definition pad_head :: "nat \<Rightarrow> nat \<Rightarrow> nat \<Rightarrow> tx_chain \<Rightarrow> tx_chain" where
  "pad_head bs n len tc =
     (let k = tx_w tc div bs; off = tx_w tc mod bs
      in if off + len > bs then tc\<lparr>blk_used := (blk_used tc)[k mod n := off], tx_w := (k + 1) * bs\<rparr> else tc)"

lemma covers_other:
  assumes cu: "cursors bs n tc" and "tx_s tc < tx_c tc" and "j \<noteq> (tx_c tc - 1) div bs"
    and "tail_blk tc \<le> j" and "j < tail_blk tc + n" and "(tx_c tc - 1) div bs < tail_blk tc + n"
  shows "covers bs n (tx_c tc) (tc\<lparr>blk_used := (blk_used tc)[j mod n := v]\<rparr>)"
proof -
  let ?c = "(tx_c tc - 1) div bs"
  from cu assms(2) have "tail_blk tc * bs \<le> tx_c tc - 1" "0 < bs" by (auto simp: cursors_def)
  then have "tail_blk tc \<le> ?c" by (simp add: less_eq_div_iff_mult_less_eq)
  with assms(3-6) mod_window [of "tail_blk tc" j n ?c] have "j mod n \<noteq> ?c mod n" by auto
  with cu assms(2) show ?thesis by (simp add: cursors_def covers_def)
qed

lemma chain_pad:
  assumes inv: "chain_inv bs n nb tc" and "tight bs tc" and "len \<le> bs"
  defines "tc' \<equiv> pad_head bs n len tc"
  shows "chain_inv bs n nb tc' \<and> tight bs tc' \<and> owned n tc' = owned n tc \<and> tx_w tc' mod bs + len \<le> bs
    \<and> tx_w tc' div bs \<le> head_blk_next tc'"
proof -
  note d = chain_invD [OF inv]
  let ?k = "tx_w tc div bs" and ?off = "tx_w tc mod bs"
  from d(2) have cs: "tx_c tc \<le> tx_w tc" "tx_w tc \<le> head_blk_next tc * bs" by (auto simp: cursors_def)
  have kh: "?k \<le> head_blk_next tc" using cs(2) d(5) by (metis div_le_mono div_mult_self_is_m)
  show ?thesis
  proof (cases "?off + len > bs")
    case False
    then have "tc' = tc" by (simp add: tc'_def pad_head_def Let_def)
    with inv assms(2) False kh show ?thesis by simp
  next
    case True
    then have off: "0 < ?off" using assms(3) by (cases "?off = 0") auto
    have w: "tx_w tc = ?k * bs + ?off" by simp
    have "?k \<noteq> head_blk_next tc"
    proof
      assume "?k = head_blk_next tc"
      then have "tx_w tc \<le> ?k * bs" using cs(2) by simp
      with w off show False by linarith
    qed
    with kh have kl: "?k < head_blk_next tc" by simp
    then have "(?k + 1) * bs \<le> head_blk_next tc * bs" by (intro mult_le_mono) auto
    moreover have "tx_w tc < (?k + 1) * bs" by (rule next_block_gt [OF d(5)])
    moreover have cov: "covers bs n (tx_c tc) (tc\<lparr>blk_used := (blk_used tc)[?k mod n := ?off]\<rparr>)" if s: "tx_s tc < tx_c tc"
    proof (cases "(tx_c tc - 1) div bs = ?k")
      case True
      have "tx_c tc - ?k * bs \<le> ?off" using cs(1) w by linarith
      with True used_same [OF inv, of ?k] show ?thesis by (simp add: covers_def)
    next
      case False
      have "(tx_c tc - 1) div bs \<le> ?k" using cs(1) by (intro div_le_mono) simp
      moreover have "?k < tail_blk tc + n" using kl d(4) by (auto simp: backed_def)
      moreover have "tail_blk tc * bs \<le> tx_w tc" using d(2) by (auto simp: cursors_def)
      then have "tail_blk tc \<le> ?k" using d(5) by (simp add: less_eq_div_iff_mult_less_eq)
      ultimately show ?thesis using False by (intro covers_other [OF d(2) s]) auto
    qed
    have t: "tc' = tc\<lparr>blk_used := (blk_used tc)[?k mod n := ?off], tx_w := (?k + 1) * bs\<rparr>"
      using True by (simp add: tc'_def pad_head_def Let_def)
    have v: "?off \<le> bs" using d(5) by (simp add: less_imp_le)
    have "cursors bs n tc'" using d(2) calculation cov used_bound [OF inv v, of "?k mod n"]
      unfolding cursors_def t covers_def by simp
    with d(1) have "chain_inv bs n nb tc'" by (simp add: chain_inv_def t)
    moreover have "tight bs tc'" using assms(2) calculation(2) unfolding tight_def t by simp
    moreover have "tx_w tc' div bs = ?k + 1" "tx_w tc' mod bs = 0" using d(5) by (simp_all add: t)
    ultimately show ?thesis using assms(3) kl by (simp add: t)
  qed
qed

lemma back_with_cursors:
  assumes inv: "chain_inv bs n nb tc" and "head_blk_next tc - tail_blk tc < n"
    and "head_blk_next t = head_blk_next tc + 1" "blk_used t = (blk_used tc)[head_blk_next tc mod n := 0]"
    "tail_blk t = tail_blk tc" "tx_f t = tx_f tc" "tx_s t = tx_s tc" "tx_c t = tx_c tc" "tx_w t = tx_w tc"
  shows "cursors bs n t"
proof -
  note d = chain_invD [OF inv]
  have cov: "covers bs n (tx_c tc) (tc\<lparr>blk_used := (blk_used tc)[head_blk_next tc mod n := 0]\<rparr>)"
    if s: "tx_s tc < tx_c tc"
  proof -
    have "tx_c tc - 1 < head_blk_next tc * bs" using d(2) s by (auto simp: cursors_def)
    then have "(tx_c tc - 1) div bs < head_blk_next tc" by (rule div_lt_of_lt_mult)
    moreover have "tail_blk tc \<le> head_blk_next tc" using d(4) by (simp add: backed_def)
    ultimately show ?thesis using assms(2) by (intro covers_other [OF d(2) s]) auto
  qed
  from d(2) cov used_bound [OF inv, of 0 "head_blk_next tc mod n"] show ?thesis
    unfolding cursors_def covers_def assms(3-) by simp
qed

lemma back_one_fields:
  fixes phys :: int and n :: nat and tc :: tx_chain
  defines "t \<equiv> back_blocks n (Suc 0) phys tc"
  shows "head_blk_next t = head_blk_next tc + 1" "blk_used t = (blk_used tc)[head_blk_next tc mod n := 0]"
    "tail_blk t = tail_blk tc" "tx_f t = tx_f tc" "tx_s t = tx_s tc" "tx_c t = tx_c tc" "tx_w t = tx_w tc"
    "resv_len t = resv_len tc"
  unfolding t_def back_blocks_one by (simp_all add: back_with_def pop_recycled_def Let_def)

lemma place_message_eq:
  "place_message bs n len phys tc =
     (let tcp = pad_head bs n len tc; k = tx_w tc div bs;
          need = (if tx_w tc mod bs + len > bs then k + 1 else k);
          t = back_blocks n (need + 1 - head_blk_next tcp) phys tcp;
          moff = nat (pblk t ! (need mod n)) * bs + (if tx_w tc mod bs + len > bs then 0 else tx_w tc mod bs)
      in (moff, t\<lparr>resv_len := len, resv_moff := moff\<rparr>))"
  by (simp add: place_message_def probe_head_def pad_head_def Let_def)

text \<open>The block a message needs, and what placing it does to the blocks owned.\<close>

definition need_block :: "nat \<Rightarrow> nat \<Rightarrow> tx_chain \<Rightarrow> nat" where
  "need_block bs len tc = (let k = tx_w tc div bs in if tx_w tc mod bs + len > bs then k + 1 else k)"

definition can_place :: "nat \<Rightarrow> nat \<Rightarrow> nat \<Rightarrow> int \<Rightarrow> tx_chain \<Rightarrow> bool" where
  "can_place n nb need phys tc \<longleftrightarrow> need < head_blk_next tc
     \<or> head_blk_next tc - tail_blk tc < n
       \<and> (0 < nrec tc \<or> nblk_owned tc < int n \<and> 0 \<le> phys \<and> phys < int nb \<and> phys \<notin> set (owned n tc))"

definition takes_phys :: "nat \<Rightarrow> tx_chain \<Rightarrow> bool" where
  "takes_phys need tc \<longleftrightarrow> head_blk_next tc \<le> need \<and> nrec tc = 0"

lemma pad_head_fields:
  "head_blk_next (pad_head bs n len tc) = head_blk_next tc" "tail_blk (pad_head bs n len tc) = tail_blk tc"
  "nrec (pad_head bs n len tc) = nrec tc" "nblk_owned (pad_head bs n len tc) = nblk_owned tc"
  "tx_f (pad_head bs n len tc) = tx_f tc" "tx_s (pad_head bs n len tc) = tx_s tc"
  "tx_c (pad_head bs n len tc) = tx_c tc"
  by (simp_all add: pad_head_def Let_def)

lemma pad_head_place:
  assumes "0 < bs"
  shows "need_block bs len tc = tx_w (pad_head bs n len tc) div bs"
    "(if tx_w tc mod bs + len > bs then 0 else tx_w tc mod bs) = tx_w (pad_head bs n len tc) mod bs"
  using assms by (simp_all add: need_block_def pad_head_def Let_def)

lemma chain_back:
  assumes inv: "chain_inv bs n nb tc" and "tight bs tc" and "tx_w tc div bs \<le> head_blk_next tc"
    and can: "can_place n nb (tx_w tc div bs) phys tc"
  defines "t \<equiv> back_blocks n (tx_w tc div bs + 1 - head_blk_next tc) phys tc"
  shows "chain_inv bs n nb t \<and> tight bs t \<and> tx_w t = tx_w tc \<and> tx_w tc div bs < head_blk_next t
    \<and> tx_f t = tx_f tc \<and> tx_s t = tx_s tc \<and> tx_c t = tx_c tc
    \<and> mset (owned n t) = (if takes_phys (tx_w tc div bs) tc then add_mset phys (mset (owned n tc)) else mset (owned n tc))"
proof (cases "tx_w tc div bs < head_blk_next tc")
  case True
  then have "t = tc" by (simp add: t_def)
  with inv assms(2) True show ?thesis by (simp add: takes_phys_def)
next
  case False
  note d = chain_invD [OF inv]
  from False assms(3) have h: "head_blk_next tc = tx_w tc div bs" by simp
  then have t: "t = back_blocks n (Suc 0) phys tc" by (simp add: t_def del: back_blocks.simps)
  from can False have room: "head_blk_next tc - tail_blk tc < n"
    and b: "0 < nrec tc \<or> nblk_owned tc < int n \<and> 0 \<le> phys \<and> phys < int nb \<and> phys \<notin> set (owned n tc)"
    by (auto simp: can_place_def)
  have "chain_blocks n nb t \<and> mset (owned n t)
      = (if takes_phys (tx_w tc div bs) tc then add_mset phys (mset (owned n tc)) else mset (owned n tc))"
    using back_one_recycled [OF d(1) _ room, of phys] back_one_grabbed [OF d(1) _ room, of phys] b h
    unfolding t takes_phys_def by (cases "nrec tc = 0") auto
  moreover have "cursors bs n t"
    by (rule back_with_cursors [OF inv room]; unfold t; rule back_one_fields)
  moreover have "head_blk_next tc * bs \<le> tx_w tc" by (simp add: h)
  then have "tight bs t" by (simp add: tight_def t back_one_fields del: back_blocks.simps)
  ultimately show ?thesis by (simp add: chain_inv_def t back_one_fields h del: back_blocks.simps)
qed

lemma chain_place:
  assumes inv: "chain_inv bs n nb tc" and "tight bs tc" and "0 < len" and "len \<le> bs"
    and can: "can_place n nb (need_block bs len tc) phys tc"
    and place: "place_message bs n len phys tc = (moff, tc')"
  shows "chain_inv bs n nb tc' \<and> tight bs tc' \<and> resv_ok bs n tc' \<and> resv_len tc' = len \<and> resv_moff tc' = moff
    \<and> tx_f tc' = tx_f tc \<and> tx_s tc' = tx_s tc \<and> tx_c tc' = tx_c tc
    \<and> mset (owned n tc') = (if takes_phys (need_block bs len tc) tc
        then add_mset phys (mset (owned n tc)) else mset (owned n tc))"
proof -
  let ?p = "pad_head bs n len tc"
  let ?t = "back_blocks n (tx_w ?p div bs + 1 - head_blk_next ?p) phys ?p"
  let ?moff = "nat (pblk ?t ! (tx_w ?p div bs mod n)) * bs + tx_w ?p mod bs"
  note bs = chain_invD(5) [OF inv] and need = pad_head_place(1) [OF chain_invD(5) [OF inv], where len = len and tc = tc and n = n]
  note p = chain_pad [OF inv assms(2,4)]
  have tc': "moff = ?moff" "tc' = ?t\<lparr>resv_len := len, resv_moff := ?moff\<rparr>"
    using place unfolding place_message_eq Let_def 
      pad_head_place [OF bs, where len = len and tc = tc and n = n, unfolded need_block_def Let_def]
    by (auto simp del: back_blocks.simps)
  have "can_place n nb (tx_w ?p div bs) phys ?p"
    using can p unfolding can_place_def pad_head_fields need by simp
  from chain_back [OF _ _ _ this] p have b: "chain_inv bs n nb ?t" "tight bs ?t" "tx_w ?t = tx_w ?p"
    "tx_w ?p div bs < head_blk_next ?t" "tx_f ?t = tx_f ?p" "tx_s ?t = tx_s ?p" "tx_c ?t = tx_c ?p"
    "mset (owned n ?t) = (if takes_phys (tx_w ?p div bs) ?p then add_mset phys (mset (owned n ?p)) else mset (owned n ?p))"
    by auto
  have r: "resv_ok bs n tc'" unfolding tc' using b p assms(3) by (simp add: resv_ok_def del: back_blocks.simps)
  have "takes_phys (tx_w ?p div bs) ?p = takes_phys (need_block bs len tc) tc"
    unfolding takes_phys_def need pad_head_fields ..
  with b r p show ?thesis unfolding tc' chain_resv
    by (simp add: tight_def pad_head_fields del: back_blocks.simps)
qed

end
