(* ===== verification/Host_Owner.thy ===== *)
theory Host_Owner
  imports Tx_Chain Host_Init
begin

text \<open>
  Who owns a transmit block. The invariant of the host context says that every block of the TX
  mapping is either in the pool or owned by exactly one connection, that every connection keeps the
  invariant of its chain and of its send-unit queue, and that every descriptor handed to a forward
  ring covers bytes of a single block. The lemmas show what an operation has to respect to keep it:
  it may change the readiness fields of any port, and move blocks between the pool and one port.
\<close>

section \<open>The invariant\<close>

definition held :: "dpumesh_ctx \<Rightarrow> nat \<Rightarrow> int set" where
  "held ctx p = set (owned (blocks_per_conn ctx) (tx (ports ctx p)))"

definition pooled :: "dpumesh_ctx \<Rightarrow> int set" where
  "pooled ctx = int ` set (free_blocks (pool ctx))"

definition census :: "dpumesh_ctx \<Rightarrow> bool" where
  "census ctx \<longleftrightarrow> (\<forall>p q. p \<noteq> q \<longrightarrow> held ctx p \<inter> held ctx q = {}) \<and> (\<forall>p. held ctx p \<inter> pooled ctx = {})
     \<and> pooled ctx \<union> (\<Union>p. held ctx p) = {0..<int (n_blocks (pool ctx))}"

text \<open>The ends of the outstanding units ascend from the free cursor to the send cursor.\<close>

definition ends_ok :: "tx_chain \<Rightarrow> unit_rec list \<Rightarrow> bool" where
  "ends_ok tc us \<longleftrightarrow> sorted (tx_f tc # map (\<lambda>u. fst (snd u)) us @ [tx_s tc])"

text \<open>A chain whose blocks all went back to the pool.\<close>

definition returned :: "tx_chain \<Rightarrow> bool" where
  "returned tc \<longleftrightarrow> nblk_owned tc = 0 \<and> nrec tc = 0 \<and> resv_len tc = 0 \<and> length (pblk tc) = TX_BLOCKS_PER_CONN
     \<and> length (recyc tc) = TX_BLOCKS_PER_CONN \<and> length (blk_used tc) = TX_BLOCKS_PER_CONN
     \<and> (\<forall>s < TX_BLOCKS_PER_CONN. pblk tc ! s < 0)"

definition slot_ok :: "nat \<Rightarrow> nat \<Rightarrow> nat \<Rightarrow> nat \<Rightarrow> dmesh_port_slot \<Rightarrow> bool" where
  "slot_ok bs n nb depth psl \<longleftrightarrow> fifo_ok depth (su psl) \<and> fifo_clean depth (su psl)
     \<and> (resv_len (tx psl) \<noteq> 0 \<longrightarrow> 0 < nblk_owned (tx psl))
     \<and> (chain_inv bs n nb (tx psl) \<and> ends_ok (tx psl) (units depth (su psl))
        \<or> role psl = ROLE_FREE \<and> returned (tx psl))"

definition port_ok :: "dpumesh_ctx \<Rightarrow> nat \<Rightarrow> bool" where
  "port_ok ctx p \<longleftrightarrow> slot_ok (block_size ctx) (blocks_per_conn ctx) (n_blocks (pool ctx)) (su_depth ctx) (ports ctx p)"

text \<open>
  Between calls a connection may grow only at its write cursor, and a live reservation fits its block
  and holds the gate. A close breaks this for its own port on the way: the ports in \<open>X\<close> need not be
  tight any more but have nothing reserved, the reservations of the ports in \<open>R\<close> are void.
\<close>

definition settled :: "nat set \<Rightarrow> nat set \<Rightarrow> dpumesh_ctx \<Rightarrow> nat \<Rightarrow> bool" where
  "settled X R ctx p \<longleftrightarrow> (let psl = ports ctx p; tc = tx psl
     in (p \<notin> X \<longrightarrow> role psl \<noteq> ROLE_FREE \<longrightarrow> tight (block_size ctx) tc) \<and> (p \<in> X \<longrightarrow> resv_len tc = 0)
        \<and> (p \<notin> R \<longrightarrow> resv_ok (block_size ctx) (blocks_per_conn ctx) tc
             \<and> (resv_len tc \<noteq> 0 \<longrightarrow> role psl \<noteq> ROLE_FREE \<and> tx_gate psl)))"

text \<open>A descriptor covers bytes of one block, and the DPA copies it in one transfer.\<close>

definition desc_in_block :: "dpumesh_ctx \<Rightarrow> dma_desc \<Rightarrow> bool" where
  "desc_in_block ctx d \<longleftrightarrow> desc_size d = 0
     \<or> (\<exists>b < n_blocks (pool ctx). b * block_size ctx \<le> unat (desc_addr d)
          \<and> unat (desc_addr d) + unat (desc_size d) \<le> (b + 1) * block_size ctx)"

definition posted_ok :: "dpumesh_ctx \<Rightarrow> bool" where
  "posted_ok ctx \<longleftrightarrow> (\<forall>r. \<forall>d \<in> set (fwd_posted ctx r). desc_in_block ctx d)"

definition geometry_ok :: "dpumesh_ctx \<Rightarrow> bool" where
  "geometry_ok ctx \<longleftrightarrow> 0 < block_size ctx \<and> 128 dvd block_size ctx
     \<and> 0 < blocks_per_conn ctx \<and> blocks_per_conn ctx \<le> TX_BLOCKS_PER_CONN \<and> depth_ok (su_depth ctx)
     \<and> 0 < slot_size ctx \<and> slot_size ctx \<le> RX_SLOT_SIZE \<and> 0 < k_rings ctx
     \<and> n_blocks (pool ctx) * block_size ctx \<le> num_slots ctx * slot_size ctx
     \<and> num_slots ctx * slot_size ctx \<le> DPU_BUFFER_SIZE"

definition host_inv :: "nat set \<Rightarrow> nat set \<Rightarrow> dpumesh_ctx \<Rightarrow> bool" where
  "host_inv X R ctx \<longleftrightarrow> geometry_ok ctx \<and> pool_ok (pool ctx) \<and> (\<forall>p. port_ok ctx p) \<and> census ctx
     \<and> (\<forall>p. settled X R ctx p) \<and> posted_ok ctx"

lemma host_invD:
  assumes "host_inv X R ctx"
  shows "geometry_ok ctx" "pool_ok (pool ctx)" "port_ok ctx p" "census ctx" "settled X R ctx p" "posted_ok ctx"
  using assms by (auto simp: host_inv_def)

section \<open>Moving blocks between one port and the pool\<close>

definition same_slot :: "dmesh_port_slot \<Rightarrow> dmesh_port_slot \<Rightarrow> bool" where
  "same_slot a b \<longleftrightarrow> tx a = tx b \<and> su a = su b \<and> role a = role b \<and> tx_gate a = tx_gate b"

definition tx_frame_but :: "nat set \<Rightarrow> dpumesh_ctx \<Rightarrow> dpumesh_ctx \<Rightarrow> bool" where
  "tx_frame_but P ctx ctx' \<longleftrightarrow> (\<forall>q. q \<notin> P \<longrightarrow> same_slot (ports ctx' q) (ports ctx q)) \<and> geo ctx' = geo ctx
     \<and> n_blocks (pool ctx') = n_blocks (pool ctx)"

lemma tx_frame_butD:
  assumes "tx_frame_but P ctx ctx'"
  shows "q \<notin> P \<Longrightarrow> same_slot (ports ctx' q) (ports ctx q)" "block_size ctx' = block_size ctx"
    "blocks_per_conn ctx' = blocks_per_conn ctx" "slot_size ctx' = slot_size ctx" "num_slots ctx' = num_slots ctx"
    "su_depth ctx' = su_depth ctx" "recycle_reserve ctx' = recycle_reserve ctx" "k_rings ctx' = k_rings ctx"
    "n_blocks (pool ctx') = n_blocks (pool ctx)" "next_handle ctx' = next_handle ctx"
  using assms by (auto simp: tx_frame_but_def geo_def)

lemma geometry_frame: "tx_frame_but P ctx ctx' \<Longrightarrow> geometry_ok ctx' = geometry_ok ctx"
  by (simp add: geometry_ok_def tx_frame_butD [of P ctx ctx'])

lemma port_frame: "tx_frame_but P ctx ctx' \<Longrightarrow> q \<notin> P \<Longrightarrow> port_ok ctx' q = port_ok ctx q"
  using tx_frame_butD [of P ctx ctx'] by (simp add: port_ok_def slot_ok_def same_slot_def)

lemma held_frame: "tx_frame_but P ctx ctx' \<Longrightarrow> q \<notin> P \<Longrightarrow> held ctx' q = held ctx q"
  using tx_frame_butD [of P ctx ctx'] by (simp add: held_def same_slot_def)

lemma settled_frame:
  assumes "tx_frame_but P ctx ctx'" and "q \<notin> P" and "settled X R ctx q" and "X - P = X' - P" and "R - P \<subseteq> R'"
  shows "settled X' R' ctx' q"
proof -
  from assms(2,4,5) have "q \<in> X' \<longleftrightarrow> q \<in> X" "q \<notin> R' \<Longrightarrow> q \<notin> R" by auto
  with assms(3) tx_frame_butD(1) [OF assms(1,2)] tx_frame_butD(2-) [OF assms(1)] show ?thesis
    by (simp add: settled_def Let_def same_slot_def)
qed

lemma desc_frame: "tx_frame_but P ctx ctx' \<Longrightarrow> desc_in_block ctx' d = desc_in_block ctx d"
  by (simp add: desc_in_block_def tx_frame_butD [of P ctx ctx'])

text \<open>
  The transfer lemma: an operation that touches one port, keeps the union of its blocks and the pool,
  and leaves the two disjoint, keeps the census.
\<close>

lemma census_move:
  assumes c: "census ctx" and f: "tx_frame_but {p} ctx ctx'"
    and u: "held ctx' p \<union> pooled ctx' = held ctx p \<union> pooled ctx" and "held ctx' p \<inter> pooled ctx' = {}"
  shows "census ctx'"
proof -
  have o: "held ctx' q = held ctx q" if "q \<noteq> p" for q using held_frame [OF f] that by simp
  have far: "held ctx q \<inter> (held ctx p \<union> pooled ctx) = {}" if "q \<noteq> p" for q
    using c that by (auto simp: census_def)
  have fp: "held ctx q \<inter> held ctx' p = {}" "held ctx q \<inter> pooled ctx' = {}" if "q \<noteq> p" for q
    using far [OF that] u by blast+
  have "(\<Union>q. held ctx' q) = held ctx' p \<union> (\<Union>q \<in> - {p}. held ctx' q)" by auto
  also have "(\<Union>q \<in> - {p}. held ctx' q) = (\<Union>q \<in> - {p}. held ctx q)" using o by simp
  finally have "pooled ctx' \<union> (\<Union>q. held ctx' q) = pooled ctx' \<union> held ctx' p \<union> (\<Union>q \<in> - {p}. held ctx q)" by auto
  also have "\<dots> = pooled ctx \<union> held ctx p \<union> (\<Union>q \<in> - {p}. held ctx q)" using u by auto
  also have "\<dots> = pooled ctx \<union> (\<Union>q. held ctx q)" by auto
  finally have all: "pooled ctx' \<union> (\<Union>q. held ctx' q) = pooled ctx \<union> (\<Union>q. held ctx q)" .
  have "held ctx' a \<inter> held ctx' b = {}" if "a \<noteq> b" for a b
    using c that fp o by (cases "a = p"; cases "b = p") (auto simp: census_def)
  moreover have "held ctx' a \<inter> pooled ctx' = {}" for a
    using assms(4) fp o by (cases "a = p") auto
  ultimately show ?thesis
    using c all tx_frame_butD(9) [OF f] unfolding census_def by auto
qed

lemma census_apart: "census ctx \<Longrightarrow> held ctx p \<inter> pooled ctx = {}"
  by (simp add: census_def)

lemma inv_move:
  assumes I: "host_inv X R ctx" and f: "tx_frame_but {p} ctx ctx'" and "pool_ok (pool ctx')"
    and "port_ok ctx' p" and "settled X' R' ctx' p" and "X - {p} = X' - {p}" and "R - {p} \<subseteq> R'"
    and "held ctx' p \<union> pooled ctx' = held ctx p \<union> pooled ctx" and "held ctx' p \<inter> pooled ctx' = {}"
    and "fwd_posted ctx' = fwd_posted ctx"
  shows "host_inv X' R' ctx'"
proof -
  note d = host_invD [OF I]
  have "port_ok ctx' q" for q using port_frame [OF f, of q] d(3) assms(4) by (cases "q = p") auto
  moreover have "settled X' R' ctx' q" for q
    using settled_frame [OF f _ d(5) assms(6,7), of q] assms(5) by (cases "q = p") auto
  moreover have "posted_ok ctx'" using d(6) assms(10) desc_frame [OF f] by (simp add: posted_ok_def)
  ultimately show ?thesis
    using geometry_frame [OF f] d(1) assms(3) census_move [OF d(4) f assms(8,9)] by (simp add: host_inv_def)
qed

text \<open>An operation that moves no block.\<close>

lemma inv_local:
  assumes I: "host_inv X R ctx" and f: "tx_frame_but {p} ctx ctx'" and "pool ctx' = pool ctx"
    and "port_ok ctx' p" and "settled X' R' ctx' p" and "X - {p} = X' - {p}" and "R - {p} \<subseteq> R'"
    and "held ctx' p = held ctx p" and "fwd_posted ctx' = fwd_posted ctx"
  shows "host_inv X' R' ctx'"
proof (rule inv_move [OF I f])
  show "pool_ok (pool ctx')" using host_invD(2) [OF I] assms(3) by simp
  have "pooled ctx' = pooled ctx" using assms(3) by (simp add: pooled_def)
  with assms(8) host_invD(4) [OF I] show "held ctx' p \<union> pooled ctx' = held ctx p \<union> pooled ctx"
    "held ctx' p \<inter> pooled ctx' = {}" by (auto simp: census_def)
qed (use assms in auto)

text \<open>An operation that touches no slot.\<close>

definition tx_frame :: "dpumesh_ctx \<Rightarrow> dpumesh_ctx \<Rightarrow> bool" where
  "tx_frame ctx ctx' \<longleftrightarrow> tx_frame_but {} ctx ctx' \<and> pool ctx' = pool ctx \<and> fwd_posted ctx' = fwd_posted ctx"

lemma tx_frame_but_mono: "tx_frame_but P a b \<Longrightarrow> P \<subseteq> Q \<Longrightarrow> tx_frame_but Q a b"
  by (auto simp: tx_frame_but_def)

lemma tx_frame_but_trans: "tx_frame_but P a b \<Longrightarrow> tx_frame_but P b c \<Longrightarrow> tx_frame_but P a c"
  by (auto simp: tx_frame_but_def same_slot_def)

lemma tx_frame_refl [simp]: "tx_frame a a"
  by (simp add: tx_frame_def tx_frame_but_def same_slot_def)

lemma tx_frame_trans [trans]: "tx_frame a b \<Longrightarrow> tx_frame b c \<Longrightarrow> tx_frame a c"
  unfolding tx_frame_def by (auto intro: tx_frame_but_trans)

lemma tx_frame_slots:
  assumes "tx_frame a b"
  shows "tx (ports b q) = tx (ports a q)" "su (ports b q) = su (ports a q)" "role (ports b q) = role (ports a q)"
    "tx_gate (ports b q) = tx_gate (ports a q)" "pool b = pool a" "fwd_posted b = fwd_posted a"
    "block_size b = block_size a" "blocks_per_conn b = blocks_per_conn a" "slot_size b = slot_size a"
    "num_slots b = num_slots a" "su_depth b = su_depth a" "recycle_reserve b = recycle_reserve a" "k_rings b = k_rings a"
  using assms tx_frame_butD [of "{}" a b] by (auto simp: tx_frame_def same_slot_def)

lemma ev_frame_tx: "ev_frame a b \<Longrightarrow> tx_frame a b"
  by (simp add: tx_frame_def tx_frame_but_def same_slot_def ev_frameD [of a b])

lemma inv_frame:
  assumes I: "host_inv X R ctx" and f: "tx_frame ctx ctx'"
  shows "host_inv X R ctx'"
proof (rule inv_local [OF I, of 0])
  from f have f0: "tx_frame_but {} ctx ctx'" by (simp add: tx_frame_def)
  then show "tx_frame_but {0} ctx ctx'" by (rule tx_frame_but_mono) simp
  show "port_ok ctx' 0" using port_frame [OF f0, of 0] host_invD(3) [OF I] by simp
  show "settled X R ctx' 0" using settled_frame [OF f0 _ host_invD(5) [OF I, of 0]] by simp
  show "held ctx' 0 = held ctx 0" using held_frame [OF f0] by simp
qed (use tx_frame_slots [OF f] in auto)

section \<open>Giving blocks back\<close>

lemma pool_return_spec:
  assumes "pool_ok (pool ctx)" and "0 \<le> b" and "b < int (n_blocks (pool ctx))" and "b \<notin> pooled ctx"
  defines "ctx' \<equiv> block_pool_return b ctx"
  shows "tx_frame_but {} ctx ctx'" "pool_ok (pool ctx')" "pooled ctx' = insert b (pooled ctx)"
    "fwd_posted ctx' = fwd_posted ctx" "qps ctx' = qps ctx"
proof -
  let ?c = "ctx\<lparr>pool := block_pool_push (nat b) (pool ctx), pool_epoch := pool_epoch ctx + 1\<rparr>"
  have e: "ctx' = wake_waiter ?c" using assms(2,3) by (simp add: ctx'_def block_pool_return_def)
  note w = ev_wake_waiter [of ?c, folded e]
  have "nat b < n_blocks (pool ctx)" "nat b \<notin> set (free_blocks (pool ctx))"
    using assms(2-4) by (simp, metis image_eqI int_nat_eq pooled_def)
  note p = pool_push_ok [OF assms(1) this]
  have g: "geo ctx' = geo ctx" using ev_frameD(7) [OF w] by simp
  show "tx_frame_but {} ctx ctx'"
    using g p by (simp add: tx_frame_but_def same_slot_def ev_frameD [OF w])
  show "pool_ok (pool ctx')" "pooled ctx' = insert b (pooled ctx)" "fwd_posted ctx' = fwd_posted ctx" "qps ctx' = qps ctx"
    using p assms(2) by (simp_all add: ev_frameD [OF w] pooled_def)
qed

lemma chain_pop:
  assumes inv: "chain_inv bs n nb tc" and "0 < nrec tc" and pop: "pop_recycled tc = (b, t)"
  defines "tc' \<equiv> t\<lparr>nblk_owned := nblk_owned t - 1\<rparr>"
  shows "chain_inv bs n nb tc'" "owned n tc = owned n tc' @ [b]" "0 \<le> b" "b < int nb" "b \<notin> set (owned n tc')"
    "nrec tc' = nrec tc - 1" "tx_w tc' = tx_w tc" "tx_f tc' = tx_f tc" "tx_s tc' = tx_s tc" "tx_c tc' = tx_c tc"
    "head_blk_next tc' = head_blk_next tc" "resv_len tc' = resv_len tc" "pblk tc' = pblk tc" "resv_moff tc' = resv_moff tc"
proof -
  note d = chain_invD [OF inv]
  from pop_recycled_blocks [OF d(1) assms(2) pop] have t: "t = tc\<lparr>nrec := nrec tc - 1\<rparr>" and st: "stack tc = stack t @ [b]"
    and b: "0 \<le> b" "b < int nb" by auto
  have o: "owned n tc = owned n tc' @ [b]"
    using st by (simp add: owned_def assigned_def tc'_def t) (simp add: stack_def)
  with d(1) have di: "b \<notin> set (owned n tc')" by (auto simp: chain_blocks_def counted_def)
  have sh: "shape n tc'" "backed n tc'" using d(3,4) by (simp_all add: tc'_def t shape_def backed_def)
  have "counted n nb tc'"
  proof -
    have "distinct (owned n tc)" "\<forall>x \<in> set (owned n tc). 0 \<le> x \<and> x < int nb" "nrec tc \<le> TX_BLOCKS_PER_CONN"
      "nblk_owned tc = int (length (owned n tc))" "nblk_owned tc \<le> int n"
      using d(1) by (auto simp: chain_blocks_def counted_def)
    moreover have "nrec tc' = nrec tc - 1" "nblk_owned tc' = nblk_owned tc - 1" by (simp_all add: tc'_def t)
    ultimately show ?thesis using o by (auto simp: counted_def)
  qed
  moreover have "cursors bs n tc'" using d(2) by (simp add: tc'_def t cursors_def covers_def)
  ultimately show "chain_inv bs n nb tc'" using sh by (simp add: chain_inv_def chain_blocks_def)
  show "owned n tc = owned n tc' @ [b]" "0 \<le> b" "b < int nb" "b \<notin> set (owned n tc')" by (fact o b di)+
qed (use pop in \<open>auto simp: tc'_def pop_recycled_def\<close>)

definition surplus_step :: "nat \<Rightarrow> dpumesh_ctx \<Rightarrow> dpumesh_ctx" where
  "surplus_step port ctx =
     (let (b, tc) = pop_recycled (tx (ports ctx port))
      in upd_tx port (\<lambda>tc. tc\<lparr>nblk_owned := nblk_owned tc - 1\<rparr>) (block_pool_return b (upd_tx port (\<lambda>_. tc) ctx)))"

lemma return_surplus_step: "return_surplus port (Suc m) ctx = return_surplus port m (surplus_step port ctx)"
  by (simp add: surplus_step_def split_def Let_def)

lemma upd_tx_simps [simp]:
  "ports (upd_tx p f ctx) q = (if q = p then (ports ctx p)\<lparr>tx := f (tx (ports ctx p))\<rparr> else ports ctx q)"
  "pool (upd_tx p f ctx) = pool ctx" "geo (upd_tx p f ctx) = geo ctx" "qps (upd_tx p f ctx) = qps ctx"
  "fwd_posted (upd_tx p f ctx) = fwd_posted ctx" "blocks_per_conn (upd_tx p f ctx) = blocks_per_conn ctx"
  "block_size (upd_tx p f ctx) = block_size ctx" "su_depth (upd_tx p f ctx) = su_depth ctx"
  "slot_size (upd_tx p f ctx) = slot_size ctx" "num_slots (upd_tx p f ctx) = num_slots ctx"
  "recycle_reserve (upd_tx p f ctx) = recycle_reserve ctx" "k_rings (upd_tx p f ctx) = k_rings ctx"
  "next_handle (upd_tx p f ctx) = next_handle ctx"
  by (simp_all add: upd_tx_def)

lemma pooled_upd_tx [simp]: "pooled (upd_tx p f ctx) = pooled ctx"
  by (simp add: pooled_def)

lemma open_chain:
  assumes "port_ok ctx p" and "0 < nblk_owned (tx (ports ctx p)) \<or> role (ports ctx p) \<noteq> ROLE_FREE"
  shows "chain_inv (block_size ctx) (blocks_per_conn ctx) (n_blocks (pool ctx)) (tx (ports ctx p))"
    "ends_ok (tx (ports ctx p)) (units (su_depth ctx) (su (ports ctx p)))"
  using assms by (auto simp: port_ok_def slot_ok_def returned_def)

lemma nrec_open:
  assumes "port_ok ctx p" and "0 < nrec (tx (ports ctx p))"
  shows "chain_inv (block_size ctx) (blocks_per_conn ctx) (n_blocks (pool ctx)) (tx (ports ctx p))"
    "ends_ok (tx (ports ctx p)) (units (su_depth ctx) (su (ports ctx p)))"
  using assms by (auto simp: port_ok_def slot_ok_def returned_def)

lemma surplus_step_inv:
  assumes I: "host_inv X R ctx" and "0 < nrec (tx (ports ctx p))" and "resv_len (tx (ports ctx p)) = 0"
  defines "ctx' \<equiv> surplus_step p ctx"
  shows "host_inv X R ctx'" "nrec (tx (ports ctx' p)) = nrec (tx (ports ctx p)) - 1"
    "resv_len (tx (ports ctx' p)) = 0" "tx_frame_but {p} ctx ctx'"
proof -
  let ?tc = "tx (ports ctx p)" and ?n = "blocks_per_conn ctx"
  obtain b t where pop: "pop_recycled ?tc = (b, t)" by fastforce
  note I' = host_invD [OF I]
  note op = nrec_open [OF I'(3) assms(2)] and c = chain_pop [OF nrec_open(1) [OF I'(3) assms(2)] assms(2) pop]
  let ?c1 = "upd_tx p (\<lambda>_. t) ctx" and ?t' = "t\<lparr>nblk_owned := nblk_owned t - 1\<rparr>"
  have e: "ctx' = upd_tx p (\<lambda>tc. tc\<lparr>nblk_owned := nblk_owned tc - 1\<rparr>) (block_pool_return b ?c1)"
    by (simp add: ctx'_def surplus_step_def pop)
  have "b \<in> held ctx p" using c(2) by (simp add: held_def)
  then have "b \<notin> pooled ?c1" using I'(4) by (auto simp: census_def)
  note r = pool_return_spec [of ?c1 b, simplified, OF I'(2) c(3,4) this [simplified]]
  note rs = tx_frame_butD(1) [OF r(1)]
  have txp: "tx (ports ctx' p) = ?t'" "su (ports ctx' p) = su (ports ctx p)" "role (ports ctx' p) = role (ports ctx p)"
    "tx_gate (ports ctx' p) = tx_gate (ports ctx p)"
    using rs [of p] by (simp_all add: e same_slot_def)
  show f: "tx_frame_but {p} ctx ctx'" using r(1) by (auto simp: e tx_frame_but_def same_slot_def)
  show "nrec (tx (ports ctx' p)) = nrec ?tc - 1" "resv_len (tx (ports ctx' p)) = 0" using c assms(3) txp by simp_all
  show "host_inv X R ctx'"
  proof (rule inv_move [OF I f])
    show "pool_ok (pool ctx')" using r(2) by (simp add: e)
    have "ends_ok ?t' (units (su_depth ctx) (su (ports ctx p)))" using op(2) c(8,9) by (simp add: ends_ok_def)
    with c(1,12) I'(3) assms(3) show "port_ok ctx' p"
      using tx_frame_butD(2-) [OF f] by (simp add: port_ok_def slot_ok_def txp)
    show "settled X R ctx' p" using I'(5) [of p] c tx_frame_butD(2-) [OF f]
      by (simp add: settled_def Let_def txp tight_def resv_ok_def)
    have h: "held ctx p = insert b (held ctx' p)" "b \<notin> held ctx' p"
      using c(2,5) tx_frame_butD(3) [OF f] by (auto simp: held_def txp)
    have q: "pooled ctx' = insert b (pooled ctx)" using r(3) by (simp add: e)
    show "held ctx' p \<union> pooled ctx' = held ctx p \<union> pooled ctx" using h q by auto
    show "held ctx' p \<inter> pooled ctx' = {}" using h q census_apart [OF I'(4), of p] by auto
    show "fwd_posted ctx' = fwd_posted ctx" using r(4) by (simp add: e)
  qed auto
qed

lemma return_surplus_inv:
  assumes "host_inv X R ctx" and "m \<le> nrec (tx (ports ctx p))" and "resv_len (tx (ports ctx p)) = 0"
  shows "host_inv X R (return_surplus p m ctx) \<and> tx_frame_but {p} ctx (return_surplus p m ctx)
    \<and> resv_len (tx (ports (return_surplus p m ctx) p)) = 0"
  using assms
proof (induction m arbitrary: ctx)
  case 0
  then show ?case by (simp add: tx_frame_but_def same_slot_def)
next
  case (Suc m)
  then have n: "0 < nrec (tx (ports ctx p))" by simp
  note s = surplus_step_inv [OF Suc.prems(1) n Suc.prems(3)]
  from Suc.IH [OF s(1) _ s(3)] s(2) Suc.prems(2) tx_frame_but_trans [OF s(4)] show ?case
    unfolding return_surplus_step by auto
qed

section \<open>Changing one slot\<close>

lemma inv_slot:
  assumes "host_inv X R ctx" and "port_ok (upd_port p f ctx) p" and "settled X' R' (upd_port p f ctx) p"
    and "set (owned (blocks_per_conn ctx) (tx (f (ports ctx p)))) = held ctx p"
    and "X - {p} = X' - {p}" and "R - {p} \<subseteq> R'"
  shows "host_inv X' R' (upd_port p f ctx)"
  by (rule inv_local [OF assms(1), of p])
    (use assms in \<open>auto simp: tx_frame_but_def same_slot_def held_def\<close>)

lemma inv_chain:
  assumes I: "host_inv X R ctx" and "chain_inv (block_size ctx) (blocks_per_conn ctx) (n_blocks (pool ctx)) tc"
    and "mset (owned (blocks_per_conn ctx) tc) = mset (owned (blocks_per_conn ctx) (tx (ports ctx p)))"
    and "ends_ok tc (units (su_depth ctx) (su (ports ctx p)))" and "resv_len tc \<noteq> 0 \<longrightarrow> 0 < nblk_owned tc"
    and "p \<notin> X' \<longrightarrow> role (ports ctx p) \<noteq> ROLE_FREE \<longrightarrow> tight (block_size ctx) tc"
    and "p \<in> X' \<longrightarrow> resv_len tc = 0"
    and "p \<notin> R' \<longrightarrow> resv_ok (block_size ctx) (blocks_per_conn ctx) tc
           \<and> (resv_len tc \<noteq> 0 \<longrightarrow> role (ports ctx p) \<noteq> ROLE_FREE \<and> tx_gate (ports ctx p))"
    and "X - {p} = X' - {p}" and "R - {p} \<subseteq> R'"
  shows "host_inv X' R' (upd_tx p (\<lambda>_. tc) ctx)"
  unfolding upd_tx_def
proof (rule inv_slot [OF I _ _ _ assms(9,10)])
  from host_invD(3) [OF I, of p] assms(2,4,5)
  show "port_ok (upd_port p (\<lambda>psl. psl\<lparr>tx := tc\<rparr>) ctx) p" by (simp add: port_ok_def slot_ok_def)
  show "settled X' R' (upd_port p (\<lambda>psl. psl\<lparr>tx := tc\<rparr>) ctx) p" using assms(6-8) by (simp add: settled_def Let_def)
  show "set (owned (blocks_per_conn ctx) (tx ((ports ctx p)\<lparr>tx := tc\<rparr>))) = held ctx p"
    using mset_eq_setD [OF assms(3)] by (simp add: held_def)
qed

lemma ensure_ok:
  assumes "fifo_ok depth q0" and "tx_tracking_ensure mem depth q0 = Inr q"
  shows "fifo_ok depth q" "units depth q = units depth q0" "su_alloc q"
    "su_head q = su_head q0" "su_tail q = su_tail q0"
  using assms by (auto simp: tx_tracking_ensure_def fifo_ok_def units_def unit_at_def split: if_splits)

lemma inv_ensure:
  assumes I: "host_inv X R ctx" and "tx_tracking_ensure mem (su_depth ctx) (su (ports ctx p)) = Inr q"
  shows "host_inv X R (upd_port p (\<lambda>psl. psl\<lparr>su := q\<rparr>) ctx)"
proof (rule inv_slot [OF I])
  from host_invD(3) [OF I, of p] have k: "fifo_ok (su_depth ctx) (su (ports ctx p))" by (simp add: port_ok_def slot_ok_def)
  note e = ensure_ok [OF k assms(2)]
  from host_invD(3) [OF I, of p] e show "port_ok (upd_port p (\<lambda>psl. psl\<lparr>su := q\<rparr>) ctx) p"
    by (simp add: port_ok_def slot_ok_def fifo_clean_def)
  from host_invD(5) [OF I, of p] show "settled X R (upd_port p (\<lambda>psl. psl\<lparr>su := q\<rparr>) ctx) p"
    by (simp add: settled_def Let_def)
qed (auto simp: held_def)

lemma ends_empty: "us = [] \<Longrightarrow> ends_ok tc us \<longleftrightarrow> tx_f tc \<le> tx_s tc"
  by (simp add: ends_ok_def)

lemma units_empty: "su_head q = su_tail q \<Longrightarrow> units depth q = []"
  by (simp add: units_def)

lemma inv_refresh:
  assumes I: "host_inv X R ctx" and "p \<notin> X" and "role (ports ctx p) \<noteq> ROLE_FREE" and "resv_len (tx (ports ctx p)) = 0"
  shows "host_inv X R (tx_refresh_blocks p ctx) \<and> tx_frame_but {p} ctx (tx_refresh_blocks p ctx)
    \<and> resv_len (tx (ports (tx_refresh_blocks p ctx) p)) = 0"
proof -
  let ?tc = "refresh_chain (block_size ctx) (blocks_per_conn ctx) (su (ports ctx p)) (tx (ports ctx p))"
  note I' = host_invD [OF I]
  have ti: "tight (block_size ctx) (tx (ports ctx p))" using I'(5) [of p] assms(2,3) by (simp add: settled_def Let_def)
  note op = open_chain [OF I'(3) disjI2 [OF assms(3)]]
  note r = chain_refresh [OF op(1) ti, of "su (ports ctx p)"]
  have "ends_ok ?tc (units (su_depth ctx) (su (ports ctx p)))"
    using r op(2) units_empty [of "su (ports ctx p)"] by (auto simp: ends_ok_def)
  with r assms(4) have "host_inv X R (upd_tx p (\<lambda>_. ?tc) ctx)"
    by (intro inv_chain [OF I]) (auto simp: resv_ok_def)
  from return_surplus_inv [OF this, of "nrec ?tc - recycle_reserve ctx" p] r assms(4)
  have "host_inv X R (tx_refresh_blocks p ctx)" "tx_frame_but {p} (upd_tx p (\<lambda>_. ?tc) ctx) (tx_refresh_blocks p ctx)"
    "resv_len (tx (ports (tx_refresh_blocks p ctx) p)) = 0"
    by (simp_all add: tx_refresh_blocks_def Let_def)
  moreover have "tx_frame_but {p} ctx (upd_tx p (\<lambda>_. ?tc) ctx)" by (simp add: tx_frame_but_def same_slot_def)
  ultimately show ?thesis using tx_frame_but_trans by blast
qed

section \<open>Reserving\<close>

text \<open>The tail of \<open>dpumesh_tx_reserve\<close>, after the guards and the refresh of the chain.\<close>

definition reserve_tail :: "nat \<Rightarrow> nat \<Rightarrow> dpumesh_ctx \<Rightarrow> (errno + nat) \<times> dpumesh_ctx" where
  "reserve_tail port len ctx =
     (let bs = block_size ctx; n = blocks_per_conn ctx; tc = tx (ports ctx port); need = need_block bs len tc;
          place = (\<lambda>phys c. let (moff, t) = place_message bs n len phys (tx (ports c port))
                            in (Inr moff, upd_tx port (\<lambda>_. t) c))
      in if head_blk_next tc > need then place (-1) (tx_wait_cancel port ctx)
         else if \<not> (head_blk_next tc - tail_blk tc < n \<and> (nrec tc > 0 \<or> nblk_owned tc < int n))
         then (Inl EAGAIN, tx_wait_arm port TX_WAIT_QP_RECLAIM ctx)
         else if nrec tc > 0 then place (-1) (tx_wait_cancel port ctx)
         else
           (case block_pool_grab (pool ctx) of
              None \<Rightarrow> (Inl EAGAIN, tx_wait_arm port TX_WAIT_SHARED_POOL ctx)
            | Some (phys, pl) \<Rightarrow> place (int phys) (tx_wait_cancel port (ctx\<lparr>pool := pl\<rparr>))))"

text \<open>Giving blocks back touches no slot but for its chain.\<close>

definition owner_fields :: "dmesh_port_slot \<Rightarrow> su_fifo \<times> dmesh_role \<times> bool" where
  "owner_fields psl = (su psl, role psl, tx_gate psl)"

lemma owner_fields_tx [simp]: "owner_fields (psl\<lparr>tx := t\<rparr>) = owner_fields psl"
  by (simp add: owner_fields_def)

lemma pool_return_fields:
  "geo (block_pool_return b ctx) = geo ctx \<and> owner_fields (ports (block_pool_return b ctx) q) = owner_fields (ports ctx q)
    \<and> qps (block_pool_return b ctx) = qps ctx \<and> tx (ports (block_pool_return b ctx) q) = tx (ports ctx q)"
  using ev_frameD [OF ev_wake_waiter, of "ctx\<lparr>pool := block_pool_push (nat b) (pool ctx), pool_epoch := pool_epoch ctx + 1\<rparr>"]
  by (simp add: block_pool_return_def owner_fields_def)

lemma return_surplus_fields:
  "geo (return_surplus p m ctx) = geo ctx \<and> owner_fields (ports (return_surplus p m ctx) q) = owner_fields (ports ctx q)
    \<and> qps (return_surplus p m ctx) = qps ctx"
proof (induction m arbitrary: ctx)
  case (Suc m)
  with pool_return_fields show ?case by (simp add: split_def Let_def)
qed simp

lemma refresh_fields:
  "geo (tx_refresh_blocks p ctx) = geo ctx \<and> owner_fields (ports (tx_refresh_blocks p ctx) q) = owner_fields (ports ctx q)
    \<and> qps (tx_refresh_blocks p ctx) = qps ctx"
  by (simp add: tx_refresh_blocks_def Let_def return_surplus_fields)

lemma tx_refresh_sizes [simp]:
  "block_size (tx_refresh_blocks p ctx) = block_size ctx" "blocks_per_conn (tx_refresh_blocks p ctx) = blocks_per_conn ctx"
  using refresh_fields [of p ctx] by (simp_all add: geo_def)

lemma reserve_eq:
  "dpumesh_tx_reserve mem port len ctx =
     (let psl = ports ctx port
      in if port = 0 \<or> len = 0 \<or> len > block_size ctx \<or> \<not> live_role (role psl) then (Inl EINVAL, ctx)
         else if tx_error psl \<noteq> None then (Inl (the (tx_error psl)), ctx)
         else if resv_len (tx psl) \<noteq> 0 then (Inl EINVAL, ctx)
         else
           (case tx_tracking_ensure mem (su_depth ctx) (su psl) of
              Inl e \<Rightarrow> (Inl e, ctx)
            | Inr q \<Rightarrow>
                let c = upd_port port (\<lambda>psl. psl\<lparr>su := q\<rparr>) ctx
                in if \<not> tx_tracking_reserve_room c (ports c port) len
                   then (Inl EAGAIN, tx_wait_arm port TX_WAIT_SU_RECLAIM c)
                   else reserve_tail port len
                     (if head_blk_next (tx (ports c port)) \<le> need_block (block_size ctx) len (tx (ports c port))
                      then tx_refresh_blocks port c else c)))"
  unfolding dpumesh_tx_reserve_def reserve_tail_def probe_head_def need_block_def Let_def
  by (simp add: split_def if_distrib [of block_size] if_distrib [of blocks_per_conn]
      cong: if_cong option.case_cong sum.case_cong)

text \<open>What a successful reservation of \<open>len\<close> bytes at \<open>moff\<close> leaves in the slot.\<close>

definition reserved :: "nat \<Rightarrow> nat \<Rightarrow> nat \<Rightarrow> dpumesh_ctx \<Rightarrow> bool" where
  "reserved port len moff ctx \<longleftrightarrow> resv_len (tx (ports ctx port)) = len \<and> resv_moff (tx (ports ctx port)) = moff"

definition ready_to_place :: "nat \<Rightarrow> nat \<Rightarrow> dpumesh_ctx \<Rightarrow> bool" where
  "ready_to_place port len ctx \<longleftrightarrow> role (ports ctx port) \<noteq> ROLE_FREE \<and> tx_gate (ports ctx port)
     \<and> resv_len (tx (ports ctx port)) = 0 \<and> 0 < len \<and> len \<le> block_size ctx"

lemma placed_resv:
  assumes "chain_inv bs n nb tc" and "resv_ok bs n tc" and "resv_len tc \<noteq> 0"
  shows "0 < nblk_owned tc"
proof -
  note d = chain_invD [OF assms(1)]
  from assms(2,3) have "tx_w tc div bs < head_blk_next tc" by (simp add: resv_ok_def)
  moreover have "tail_blk tc * bs \<le> tx_w tc" using d(2) by (simp add: cursors_def)
  then have "tail_blk tc \<le> tx_w tc div bs" using d(5) by (simp add: less_eq_div_iff_mult_less_eq)
  ultimately show ?thesis using countedD(3) [OF d(1)] by simp
qed

lemma inv_place:
  assumes I: "host_inv {} {} ctx" and rp: "ready_to_place p len ctx"
    and can: "head_blk_next (tx (ports ctx p)) > need_block (block_size ctx) len (tx (ports ctx p))
      \<or> head_blk_next (tx (ports ctx p)) - tail_blk (tx (ports ctx p)) < blocks_per_conn ctx \<and> 0 < nrec (tx (ports ctx p))"
    and pl: "place_message (block_size ctx) (blocks_per_conn ctx) len (-1) (tx (ports ctx p)) = (moff, t)"
  shows "host_inv {} {} (upd_tx p (\<lambda>_. t) ctx) \<and> reserved p len moff (upd_tx p (\<lambda>_. t) ctx)"
proof -
  let ?tc = "tx (ports ctx p)"
  note I' = host_invD [OF I]
  from rp have r: "role (ports ctx p) \<noteq> ROLE_FREE" "tx_gate (ports ctx p)" "0 < len" "len \<le> block_size ctx"
    by (auto simp: ready_to_place_def)
  note op = open_chain [OF I'(3) disjI2 [OF r(1)]]
  have ti: "tight (block_size ctx) ?tc" using I'(5) [of p] r(1) by (simp add: settled_def Let_def)
  have c: "can_place (blocks_per_conn ctx) (n_blocks (pool ctx)) (need_block (block_size ctx) len ?tc) (-1) ?tc"
    "\<not> takes_phys (need_block (block_size ctx) len ?tc) ?tc"
    using can by (auto simp: can_place_def takes_phys_def)
  note k = chain_place [OF op(1) ti r(3,4) c(1) pl]
  have "ends_ok t (units (su_depth ctx) (su (ports ctx p)))" using k op(2) by (simp add: ends_ok_def)
  moreover have "0 < nblk_owned t" using k placed_resv r(3) by blast
  ultimately show ?thesis using k c(2) r by (auto simp: reserved_def intro!: inv_chain [OF I])
qed

lemma inv_grab:
  assumes I: "host_inv {} {} ctx" and rp: "ready_to_place p len ctx"
    and need: "head_blk_next (tx (ports ctx p)) \<le> need_block (block_size ctx) len (tx (ports ctx p))"
    and can: "head_blk_next (tx (ports ctx p)) - tail_blk (tx (ports ctx p)) < blocks_per_conn ctx"
      "nrec (tx (ports ctx p)) = 0" "nblk_owned (tx (ports ctx p)) < int (blocks_per_conn ctx)"
    and g: "block_pool_grab (pool ctx) = Some (b, pool')" and f: "tx_frame (ctx\<lparr>pool := pool'\<rparr>) c"
    and pl: "place_message (block_size ctx) (blocks_per_conn ctx) len (int b) (tx (ports ctx p)) = (moff, t)"
  shows "host_inv {} {} (upd_tx p (\<lambda>_. t) c) \<and> reserved p len moff (upd_tx p (\<lambda>_. t) c)"
proof -
  let ?tc = "tx (ports ctx p)" and ?c = "upd_tx p (\<lambda>_. t) c"
  note I' = host_invD [OF I] and fs = tx_frame_slots [OF f, simplified]
  from rp have r: "role (ports ctx p) \<noteq> ROLE_FREE" "tx_gate (ports ctx p)" "0 < len" "len \<le> block_size ctx"
    by (auto simp: ready_to_place_def)
  note op = open_chain [OF I'(3) disjI2 [OF r(1)]] and gr = pool_grab_ok [OF I'(2) g]
  have b: "b < n_blocks (pool ctx)" "b \<notin> set (free_blocks pool')"
    using bp.grab_fresh [OF I'(2) g] gr I'(2) by (auto simp: pool_ok_def)
  have "int b \<in> pooled ctx" using gr by (simp add: pooled_def)
  then have nb: "int b \<notin> held ctx p" using census_apart [OF I'(4), of p] by auto
  have ti: "tight (block_size ctx) ?tc" using I'(5) [of p] r(1) by (simp add: settled_def Let_def)
  have c: "can_place (blocks_per_conn ctx) (n_blocks (pool ctx)) (need_block (block_size ctx) len ?tc) (int b) ?tc"
    "takes_phys (need_block (block_size ctx) len ?tc) ?tc"
    using can need b nb by (auto simp: can_place_def takes_phys_def held_def)
  note k = chain_place [OF op(1) ti r(3,4) c(1) pl]
  have "ends_ok t (units (su_depth ctx) (su (ports ctx p)))" using k op(2) by (simp add: ends_ok_def)
  moreover have "0 < nblk_owned t" using k placed_resv r(3) by blast
  moreover have fr: "tx_frame_but {p} ctx ?c"
    using f gr by (auto simp: tx_frame_def tx_frame_but_def same_slot_def geo_def)
  have h: "held ?c p = insert (int b) (held ctx p)"
    using k c(2) mset_eq_setD [of "owned (blocks_per_conn ctx) t" "int b # owned (blocks_per_conn ctx) ?tc"]
    by (simp add: held_def fs)
  have q: "pooled ctx = insert (int b) (pooled ?c)" "int b \<notin> pooled ?c"
    using gr b by (auto simp: pooled_def fs)
  have "host_inv {} {} ?c"
  proof (rule inv_move [OF I fr])
    show "pool_ok (pool ?c)" using gr by (simp add: fs)
    from calculation k I'(3) [of p] gr show "port_ok ?c p" by (simp add: port_ok_def slot_ok_def fs)
    show "settled {} {} ?c p" using k r by (simp add: settled_def Let_def fs)
    show "held ?c p \<union> pooled ?c = held ctx p \<union> pooled ctx" using h q by auto
    show "held ?c p \<inter> pooled ?c = {}" using h q census_apart [OF I'(4), of p] by auto
  qed (simp_all add: fs)
  with k show ?thesis by (simp add: reserved_def)
qed

lemma ready_frame: "tx_frame a b \<Longrightarrow> ready_to_place p len b = ready_to_place p len a"
  by (simp add: ready_to_place_def tx_frame_slots [of a b])

lemma inv_reserve_tail:
  assumes I: "host_inv {} {} ctx" and rp: "ready_to_place p len ctx" and e: "reserve_tail p len ctx = (res, ctx')"
  shows "host_inv {} {} ctx' \<and> (case res of Inr moff \<Rightarrow> reserved p len moff ctx' | Inl _ \<Rightarrow> tx_frame ctx ctx')"
proof -
  let ?tc = "tx (ports ctx p)" and ?c = "tx_wait_cancel p ctx"
  note cf = ev_frame_tx [OF ev_cancel [of ctx p]]
  note cs = tx_frame_slots [OF cf] and cI = inv_frame [OF I cf]
  have arm: ?thesis if "res = Inl EAGAIN" "ctx' = tx_wait_arm p reason ctx" for reason
    using that ev_frame_tx [OF ev_arm [of ctx p reason]] inv_frame [OF I] by simp
  have place: ?thesis if can: "head_blk_next ?tc > need_block (block_size ctx) len ?tc
      \<or> head_blk_next ?tc - tail_blk ?tc < blocks_per_conn ctx \<and> 0 < nrec ?tc"
    and x: "(let (moff, t) = place_message (block_size ctx) (blocks_per_conn ctx) len (-1) (tx (ports ?c p))
             in (Inr moff, upd_tx p (\<lambda>_. t) ?c)) = (res, ctx')"
  proof -
    obtain moff t where m: "place_message (block_size ctx) (blocks_per_conn ctx) len (-1) ?tc = (moff, t)" by fastforce
    from inv_place [OF cI, of p len moff t] can m ready_frame [OF cf] rp cs x show ?thesis by auto
  qed
  let ?room = "head_blk_next ?tc - tail_blk ?tc < blocks_per_conn ctx \<and> (nrec ?tc > 0 \<or> nblk_owned ?tc < int (blocks_per_conn ctx))"
  consider (fits) "head_blk_next ?tc > need_block (block_size ctx) len ?tc"
    | (full) "head_blk_next ?tc \<le> need_block (block_size ctx) len ?tc" "\<not> ?room"
    | (rec) "head_blk_next ?tc \<le> need_block (block_size ctx) len ?tc" ?room "0 < nrec ?tc"
    | (grab) "head_blk_next ?tc \<le> need_block (block_size ctx) len ?tc" ?room "nrec ?tc = 0"
    by linarith
  then show ?thesis
  proof cases
    case fits
    then show ?thesis using e place unfolding reserve_tail_def Let_def by simp
  next
    case full
    then show ?thesis using e arm [of TX_WAIT_QP_RECLAIM] unfolding reserve_tail_def Let_def by simp
  next
    case rec
    then show ?thesis using e place unfolding reserve_tail_def Let_def by simp
  next
    case grab
    show ?thesis
    proof (cases "block_pool_grab (pool ctx)")
      case None
      with grab show ?thesis using e arm [of TX_WAIT_SHARED_POOL] unfolding reserve_tail_def Let_def by simp
    next
      case (Some bp)
      then obtain b pl where g: "block_pool_grab (pool ctx) = Some (b, pl)" by (cases bp) auto
      let ?d = "tx_wait_cancel p (ctx\<lparr>pool := pl\<rparr>)"
      note df = ev_frame_tx [OF ev_cancel [of "ctx\<lparr>pool := pl\<rparr>" p]]
      obtain moff t where m: "place_message (block_size ctx) (blocks_per_conn ctx) len (int b) ?tc = (moff, t)" by fastforce
      from grab g e m tx_frame_slots [OF df] have "res = Inr moff" "ctx' = upd_tx p (\<lambda>_. t) ?d"
        unfolding reserve_tail_def Let_def by auto
      with inv_grab [OF I rp _ _ _ _ g df m] grab show ?thesis by simp
    qed
  qed
qed

lemma inv_reserve:
  assumes I: "host_inv {} {} ctx" and "tx_gate (ports ctx p)" and e: "dpumesh_tx_reserve mem p len ctx = (res, ctx')"
  shows "host_inv {} {} ctx' \<and> (case res of Inr moff \<Rightarrow> reserved p len moff ctx' \<and> 0 < len \<and> len \<le> block_size ctx
    | Inl _ \<Rightarrow> True)"
proof (cases "p = 0 \<or> len = 0 \<or> len > block_size ctx \<or> \<not> live_role (role (ports ctx p)) \<or> tx_error (ports ctx p) \<noteq> None
    \<or> resv_len (tx (ports ctx p)) \<noteq> 0 \<or> isl (tx_tracking_ensure mem (su_depth ctx) (su (ports ctx p)))")
  case True
  with e I show ?thesis unfolding reserve_eq Let_def by (auto split: if_splits sum.splits)
next
  case False
  then obtain q where q: "tx_tracking_ensure mem (su_depth ctx) (su (ports ctx p)) = Inr q"
    by (cases "tx_tracking_ensure mem (su_depth ctx) (su (ports ctx p))") auto
  let ?c = "upd_port p (\<lambda>psl. psl\<lparr>su := q\<rparr>) ctx"
  let ?d = "if head_blk_next (tx (ports ?c p)) \<le> need_block (block_size ctx) len (tx (ports ?c p)) then tx_refresh_blocks p ?c else ?c"
  note cI = inv_ensure [OF I q]
  have e': "(if \<not> tx_tracking_reserve_room ?c (ports ?c p) len then (Inl EAGAIN, tx_wait_arm p TX_WAIT_SU_RECLAIM ?c)
      else reserve_tail p len ?d) = (res, ctx')"
    using e False q unfolding reserve_eq Let_def by simp
  have ro: "role (ports ctx p) \<noteq> ROLE_FREE" using False by (auto simp: live_role_def)
  show ?thesis
  proof (cases "tx_tracking_reserve_room ?c (ports ?c p) len")
    case False
    with e' inv_frame [OF cI ev_frame_tx [OF ev_arm]] show ?thesis by auto
  next
    case room: True
    note rf = inv_refresh [OF cI, of p]
    have d: "host_inv {} {} ?d" using rf cI ro False by simp
    have "ready_to_place p len ?d"
    proof (cases "head_blk_next (tx (ports ?c p)) \<le> need_block (block_size ctx) len (tx (ports ?c p))")
      case True
      with rf ro False refresh_fields [of p ?c p] assms(2) show ?thesis by (simp add: ready_to_place_def owner_fields_def)
    qed (use False ro assms(2) in \<open>simp add: ready_to_place_def\<close>)
    from inv_reserve_tail [OF d this, of res ctx'] e' room False show ?thesis by (auto split: sum.splits)
  qed
qed

end
