(* ===== verification/Host_Post.thy ===== *)
theory Host_Post
  imports Host_Owner
begin

text \<open>
  Committing, publishing and discarding under the ownership invariant. Recording a unit and posting
  its descriptor keep the invariant, and so does taking the record back when the post fails; the
  drain loop posts only descriptors that lie in one block of the connection, and it ends.
\<close>

section \<open>Commit and discard\<close>

lemma inv_commit:
  assumes I: "host_inv {} {} ctx" and e: "dpumesh_tx_commit p buf len ctx = (r, ctx')"
  shows "host_inv {} {} ctx' \<and> (case r of Inr _ \<Rightarrow> resv_len (tx (ports ctx' p)) = 0 | Inl _ \<Rightarrow> ctx' = ctx)"
proof (cases r)
  case (Inl x)
  with e I show ?thesis by (auto simp: dpumesh_tx_commit_def Let_def split: if_splits)
next
  case (Inr u)
  let ?tc = "tx (ports ctx p)" and ?t = "commit_chain (block_size ctx) (blocks_per_conn ctx) len (tx (ports ctx p))"
  note I' = host_invD [OF I]
  from e Inr have g: "0 < nblk_owned ?tc" "resv_len ?tc \<noteq> 0" "0 < len" "len \<le> resv_len ?tc"
    and c: "ctx' = upd_tx p (commit_chain (block_size ctx) (blocks_per_conn ctx) len) ctx"
    by (auto simp: dpumesh_tx_commit_def Let_def split: if_splits)
  have c: "ctx' = upd_tx p (\<lambda>_. ?t) ctx" unfolding c by (simp add: upd_tx_def upd_port_def)
  note op = open_chain [OF I'(3) disjI1 [OF g(1)]]
  have s: "tight (block_size ctx) ?tc" "resv_ok (block_size ctx) (blocks_per_conn ctx) ?tc" "role (ports ctx p) \<noteq> ROLE_FREE"
    using I'(5) [of p] g(2) by (auto simp: settled_def Let_def)
  note k = chain_commit [OF op(1) s(2) g(3,4)]
  have "ends_ok ?t (units (su_depth ctx) (su (ports ctx p)))"
    using op(2) by (simp add: ends_ok_def commit_chain_def Let_def)
  with k s have "host_inv {} {} (upd_tx p (\<lambda>_. ?t) ctx)"
    by (intro inv_chain [OF I]) (auto simp: resv_ok_def)
  with k Inr show ?thesis by (simp add: c)
qed

lemma inv_discard:
  assumes I: "host_inv X R ctx"
  shows "host_inv (insert p X) (R - {p}) (dpumesh_tx_discard_unsent p ctx)"
proof (cases "nblk_owned (tx (ports ctx p)) \<le> 0")
  case True
  note I' = host_invD [OF I]
  have z: "resv_len (tx (ports ctx p)) = 0" using I'(3) [of p] True by (auto simp: port_ok_def slot_ok_def)
  have "settled (insert p X) (R - {p}) ctx q" for q
    using I'(5) [of q] z by (auto simp: settled_def Let_def resv_ok_def)
  with I True show ?thesis by (simp add: dpumesh_tx_discard_unsent_def host_inv_def Let_def)
next
  case False
  note I' = host_invD [OF I]
  let ?tc = "tx (ports ctx p)" and ?bs = "block_size ctx" and ?n = "blocks_per_conn ctx"
  let ?t = "?tc\<lparr>tx_c := tx_s ?tc, tx_w := tx_s ?tc, resv_len := 0, resv_moff := 0,
    blk_used := (blk_used ?tc)[tx_s ?tc div ?bs mod ?n := tx_s ?tc - tx_s ?tc div ?bs * ?bs]\<rparr>"
  from False have "0 < nblk_owned ?tc \<or> role (ports ctx p) \<noteq> ROLE_FREE" by simp
  note op = open_chain [OF I'(3) this]
  have "ends_ok ?t (units (su_depth ctx) (su (ports ctx p)))" using op(2) by (simp add: ends_ok_def)
  with chain_discard [OF op(1)] have "host_inv (insert p X) (R - {p}) (upd_tx p (\<lambda>_. ?t) ctx)"
    by (intro inv_chain [OF I]) (auto simp: resv_ok_def)
  moreover have "dpumesh_tx_discard_unsent p ctx = upd_tx p (\<lambda>_. ?t) ctx"
    using False by (simp add: dpumesh_tx_discard_unsent_def Let_def upd_tx_def upd_port_def)
  ultimately show ?thesis by simp
qed

section \<open>Tracking and posting\<close>

lemma fifo_clean_snoc:
  assumes "fifo_clean depth q" and "units depth q' = units depth q @ [(seq, e, False)]"
  shows "fifo_clean depth q'"
proof (cases "units depth q")
  case (Cons u us)
  with assms show ?thesis by (simp add: fifo_clean_def)
qed (use assms in \<open>simp add: fifo_clean_def unit_done_def\<close>)

lemma ends_snoc: "ends_ok tc us \<Longrightarrow> ends_ok (tc\<lparr>tx_s := tx_s tc + len\<rparr>) (us @ [(seq, tx_s tc + len, False)])"
  by (auto simp: ends_ok_def sorted_append)

text \<open>A unit of \<open>len\<close> bytes may be recorded when that many committed bytes are unsent.\<close>

definition may_send :: "nat \<Rightarrow> dmesh_port_slot \<Rightarrow> bool" where
  "may_send len psl \<longleftrightarrow> len = 0 \<or> role psl \<noteq> ROLE_FREE \<and> tx_s (tx psl) + len \<le> tx_c (tx psl)"

lemma slot_track:
  assumes "slot_ok bs n nb depth psl" and "may_send len psl" and "fifo_track depth seq len (tx_s (tx psl)) (su psl) = Inr (sent, q)"
  shows "slot_ok bs n nb depth (psl\<lparr>tx := (tx psl)\<lparr>tx_s := sent\<rparr>, su := q\<rparr>) \<and> sent = tx_s (tx psl) + len"
proof -
  from assms(1) have k: "fifo_ok depth (su psl)" "fifo_clean depth (su psl)" by (auto simp: slot_ok_def)
  note t = fifo_track_ok [OF k(1) assms(3)]
  have "chain_inv bs n nb ((tx psl)\<lparr>tx_s := sent\<rparr>)" if "chain_inv bs n nb (tx psl)"
    using that t assms(2) by (intro chain_send [OF that]) (auto simp: may_send_def chain_inv_def cursors_def)
  with assms(1) t fifo_clean_snoc [OF k(2), of q seq] ends_snoc [of "tx psl" "units depth (su psl)" len seq] show ?thesis
    by (auto simp: slot_ok_def returned_def)
qed

lemma settled_send:
  assumes "settled X R ctx p"
  shows "settled X R (upd_port p (\<lambda>psl. psl\<lparr>tx := (tx psl)\<lparr>tx_s := s\<rparr>, su := q\<rparr>) ctx) p"
  using assms by (simp add: settled_def Let_def tight_def resv_ok_def)

lemma inv_track:
  assumes I: "host_inv X R ctx" and m: "may_send len (ports ctx p)" and t: "dpumesh_tx_track p seq len ctx = Inr ctx'"
  shows "host_inv X R ctx'"
proof -
  from t obtain sent q where k: "fifo_track (su_depth ctx) seq len (tx_s (tx (ports ctx p))) (su (ports ctx p)) = Inr (sent, q)"
    and c: "ctx' = upd_port p (\<lambda>psl. psl\<lparr>tx := (tx psl)\<lparr>tx_s := sent\<rparr>, su := q\<rparr>) ctx"
    by (auto simp: dpumesh_tx_track_def split: sum.splits)
  note I' = host_invD [OF I]
  show ?thesis unfolding c
  proof (rule inv_slot [OF I _ settled_send [OF I'(5)]])
    show "port_ok (upd_port p (\<lambda>psl. psl\<lparr>tx := (tx psl)\<lparr>tx_s := sent\<rparr>, su := q\<rparr>) ctx) p"
      using conjunct1 [OF slot_track [OF I'(3) [unfolded port_ok_def] m k]] by (simp add: port_ok_def)
  qed (simp_all add: held_def)
qed

text \<open>The post: it appends to the ring on success, else it touches nothing the invariant reads.\<close>

lemma enqueue_cases:
  assumes "dpumesh_enqueue claims d ctx = (r, ctx')"
  shows "(\<exists>e. r = Inl e) \<and> tx_frame ctx ctx' \<and> ports ctx' = ports ctx \<and> qps ctx' = qps ctx
    \<or> r = Inr () \<and> \<not> enqueue_rejects ctx d \<and> ports ctx' = ports ctx \<and> pool ctx' = pool ctx \<and> geo ctx' = geo ctx
      \<and> qps ctx' = qps ctx
      \<and> (\<exists>i. fwd_posted ctx' = (fwd_posted ctx)(i := fwd_posted ctx i @ [fill_dma_desc ctx d]))"
proof (cases "enqueue_rejects ctx d \<or> ring_dead ctx (nat (dmesh_forward_ring (src_port d) (int (k_rings ctx))))")
  case True
  with assms have "ctx' = ctx" "\<exists>e. r = Inl e" by (auto simp: dpumesh_enqueue_def Let_def split: if_splits)
  then show ?thesis by simp
next
  case False
  let ?i = "nat (dmesh_forward_ring (src_port d) (int (k_rings ctx)))"
  let ?c = "ctx\<lparr>claim_calls := claim_calls ctx + 1\<rparr>"
  have dead: "tx_frame ctx (?c\<lparr>ring_dead := x\<rparr>)" for x
    by (simp add: tx_frame_def tx_frame_but_def same_slot_def geo_def)
  show ?thesis
  proof (cases "claims (claim_calls ctx)")
    case Claim_Ok
    with assms False have "r = Inr ()"
      "ctx' = ?c\<lparr>fwd_posted := (fwd_posted ctx)(?i := fwd_posted ctx ?i @ [fill_dma_desc ctx d])\<rparr>"
      by (simp_all add: dpumesh_enqueue_def Let_def)
    with False show ?thesis by (simp add: geo_def) blast
  next
    case Claim_Dead
    with assms False have "r = Inl (Some EIO)" "ctx' = ?c\<lparr>ring_dead := (ring_dead ctx)(?i := True)\<rparr>"
      by (simp_all add: dpumesh_enqueue_def Let_def)
    with dead show ?thesis by simp
  next
    case Claim_Stalled
    with assms False have "r = Inl (Some EIO)" "ctx' = ?c\<lparr>ring_dead := (ring_dead ctx)(?i := True)\<rparr>"
      by (simp_all add: dpumesh_enqueue_def Let_def)
    with dead show ?thesis by simp
  qed
qed

lemma inv_posted:
  assumes I: "host_inv X R ctx" and "ports ctx' = ports ctx" "pool ctx' = pool ctx" "geo ctx' = geo ctx"
    and "fwd_posted ctx' = (fwd_posted ctx)(i := fwd_posted ctx i @ [d])" and "desc_in_block ctx d"
  shows "host_inv X R ctx'"
proof -
  note I' = host_invD [OF I]
  have f: "tx_frame_but {} ctx ctx'" using assms(2-4) by (simp add: tx_frame_but_def same_slot_def)
  have "posted_ok ctx'" using I'(6) assms(5,6) desc_frame [OF f] by (auto simp: posted_ok_def)
  moreover have "census ctx'" using I'(4) assms(2,3) tx_frame_butD(3) [OF f] by (simp add: census_def held_def pooled_def)
  ultimately show ?thesis
    using I' geometry_frame [OF f] port_frame [OF f] settled_frame [OF f, of _ X R X R] assms(3) by (simp add: host_inv_def)
qed

text \<open>What recording and posting one unit changes: the chain and the queue of one port, and a ring.\<close>

definition sent_on :: "nat \<Rightarrow> tx_chain \<Rightarrow> dpumesh_ctx \<Rightarrow> dpumesh_ctx \<Rightarrow> bool" where
  "sent_on p tc ctx ctx' \<longleftrightarrow> (\<exists>q. ports ctx' = (ports ctx)(p := (ports ctx p)\<lparr>tx := tc, su := q\<rparr>))
     \<and> pool ctx' = pool ctx \<and> geo ctx' = geo ctx \<and> map_option local_port \<circ> qps ctx' = map_option local_port \<circ> qps ctx"

lemma sent_on_frame: "sent_on p tc ctx ctx' \<Longrightarrow> tx_frame_but {p} ctx ctx'"
  by (auto simp: sent_on_def tx_frame_but_def same_slot_def)

lemma sent_onD:
  assumes "sent_on p tc ctx ctx'"
  shows "tx (ports ctx' p) = tc" "role (ports ctx' p) = role (ports ctx p)" "tx_gate (ports ctx' p) = tx_gate (ports ctx p)"
  using assms by (auto simp: sent_on_def)

lemma inv_track_post:
  assumes I: "host_inv X R ctx" and m: "may_send adv (ports ctx p)" and dd: "desc_in_block ctx (fill_dma_desc ctx d)"
    and e: "track_and_post claims p d adv ctx = (r, ctx')"
  shows "host_inv X R ctx' \<and> sent_on p (case r of Inr _ \<Rightarrow> (tx (ports ctx p))\<lparr>tx_s := tx_s (tx (ports ctx p)) + adv\<rparr>
    | Inl _ \<Rightarrow> tx (ports ctx p)) ctx ctx'"
proof (cases "dpumesh_tx_track p (sw_seq d) adv ctx")
  case (Inl x)
  with e I show ?thesis by (auto simp: track_and_post_def sent_on_def intro: exI [of _ "su (ports ctx p)"])
next
  case (Inr c1)
  let ?psl = "ports ctx p" and ?s = "tx_s (tx (ports ctx p))"
  from Inr obtain q where k: "fifo_track (su_depth ctx) (sw_seq d) adv ?s (su ?psl) = Inr (?s + adv, q)"
    and c1: "c1 = upd_port p (\<lambda>psl. psl\<lparr>tx := (tx psl)\<lparr>tx_s := ?s + adv\<rparr>, su := q\<rparr>) ctx"
    by (auto simp: dpumesh_tx_track_def fifo_track_def Let_def split: sum.splits if_splits)
  note I1 = inv_track [OF I m Inr] and I' = host_invD [OF I]
  obtain w c2 where en: "dpumesh_enqueue claims d c1 = (w, c2)" by fastforce
  from enqueue_cases [OF en] show ?thesis
  proof (elim disjE conjE exE)
    fix x assume w: "w = Inl x" and f: "tx_frame c1 c2" and po: "ports c2 = ports c1" "qps c2 = qps c1"
    from I'(3) [of p] have "fifo_ok (su_depth ctx) (su ?psl)" by (simp add: port_ok_def slot_ok_def)
    from fifo_untrack_track [OF this k] obtain q2 where u: "fifo_untrack (su_depth ctx) (sw_seq d) adv (?s + adv) q = Some (?s, q2)"
      "fifo_ok (su_depth ctx) q2" "units (su_depth ctx) q2 = units (su_depth ctx) (su ?psl)" by blast
    have p2: "ports c2 p = ?psl\<lparr>tx := (tx ?psl)\<lparr>tx_s := ?s + adv\<rparr>, su := q\<rparr>" by (simp add: po c1)
    have sd: "su_depth c2 = su_depth ctx" using tx_frame_slots(11) [OF f] by (simp add: c1)
    have c': "ctx' = upd_port p (\<lambda>psl. psl\<lparr>tx := (tx psl)\<lparr>tx_s := ?s\<rparr>, su := q2\<rparr>) c2" "r = Inl (post_error x)"
      using e Inr en w u(1) p2 sd by (auto simp: track_and_post_def dpumesh_tx_untrack_def)
    have z: "(tx ?psl)\<lparr>tx_s := ?s\<rparr> = tx ?psl" by simp
    have "ports ctx' = (ports ctx)(p := ?psl\<lparr>tx := tx ?psl, su := q2\<rparr>)" using z by (auto simp: c' po c1 fun_eq_iff)
    moreover have "pool ctx' = pool ctx" "geo ctx' = geo ctx" "qps ctx' = qps ctx" "fwd_posted ctx' = fwd_posted ctx"
      using f by (simp_all add: c' c1 po tx_frame_def tx_frame_but_def)
    ultimately have so: "sent_on p (tx ?psl) ctx ctx'" "fwd_posted ctx' = fwd_posted ctx" by (auto simp: sent_on_def)
    have "host_inv X R ctx'"
    proof (rule inv_local [OF I sent_on_frame [OF so(1)]])
      show "port_ok ctx' p" using I'(3) [of p] u(2,3) tx_frame_butD [OF sent_on_frame [OF so(1)]]
        by (simp add: port_ok_def slot_ok_def fifo_clean_def c' p2)
      show "settled X R ctx' p" using I'(5) [of p] tx_frame_butD [OF sent_on_frame [OF so(1)]]
        by (simp add: settled_def Let_def c' p2)
      show "held ctx' p = held ctx p" using tx_frame_butD [OF sent_on_frame [OF so(1)]] sent_onD(1) [OF so(1)] by (simp add: held_def)
      show "pool ctx' = pool ctx" using so by (simp add: sent_on_def)
    qed (use so in auto)
    with so show ?thesis by (simp add: c')
  next
    fix i assume w: "w = Inr ()" and po: "ports c2 = ports c1" "pool c2 = pool c1" "geo c2 = geo c1" "qps c2 = qps c1"
      and fp: "fwd_posted c2 = (fwd_posted c1)(i := fwd_posted c1 i @ [fill_dma_desc c1 d])"
    have c': "ctx' = c2" "r = Inr ()" using e Inr en w by (auto simp: track_and_post_def)
    have "desc_in_block c1 (fill_dma_desc c1 d)"
      using dd by (simp add: desc_in_block_def c1 fill_dma_desc_def upd_port_def)
    note i2 = inv_posted [OF I1 po(1,2,3) fp this]
    have "ports ctx' = (ports ctx)(p := ?psl\<lparr>tx := (tx ?psl)\<lparr>tx_s := ?s + adv\<rparr>, su := q\<rparr>)"
      by (simp add: c' po c1 upd_port_def)
    moreover have "pool ctx' = pool ctx" "geo ctx' = geo ctx" "qps ctx' = qps ctx" by (simp_all add: c' po c1)
    ultimately have "sent_on p ((tx ?psl)\<lparr>tx_s := ?s + adv\<rparr>) ctx ctx'" unfolding sent_on_def by metis
    with i2 show ?thesis by (simp add: c')
  qed
qed

section \<open>The drain loop\<close>

lemma pblk_range:
  assumes inv: "chain_inv bs n nb tc" and "tail_blk tc \<le> k" and "k < head_blk_next tc"
  shows "0 \<le> pblk tc ! (k mod n)" "pblk tc ! (k mod n) < int nb"
proof -
  note d = chain_invD [OF inv]
  have "pblk tc ! (k mod n) \<in> set (owned n tc)" using assms(2,3) by (auto simp: owned_backed [OF d(4)] assigned_def)
  with d(1) show "0 \<le> pblk tc ! (k mod n)" "pblk tc ! (k mod n) < int nb" by (auto simp: chain_blocks_def counted_def)
qed

lemma unit_in_block:
  assumes inv: "chain_inv bs n nb tc" and u: "unit_ok bs n sz lim moff len tc"
  obtains b where "b < nb" "b * bs \<le> moff" "moff + len \<le> (b + 1) * bs" "int b \<in> set (owned n tc)"
proof -
  let ?k = "tx_s tc div bs" and ?off = "tx_s tc mod bs"
  let ?b = "nat (pblk tc ! (?k mod n))"
  note d = chain_invD [OF inv]
  from u have k: "tail_blk tc \<le> ?k" "?k < head_blk_next tc" "moff = ?b * bs + ?off" "?off + len \<le> blk_used tc ! (?k mod n)"
    by (auto simp: unit_ok_def Let_def)
  note r = pblk_range [OF inv k(1,2)]
  have "blk_used tc ! (?k mod n) \<le> bs" using d(2) slot_lt [OF d(3)] by (simp add: cursors_def)
  with k have "moff + len \<le> (?b + 1) * bs" by (simp add: distrib_right)
  moreover have "int ?b \<in> set (owned n tc)" using k(1,2) r by (auto simp: owned_backed [OF d(4)] assigned_def)
  moreover have "?b < nb" "?b * bs \<le> moff" using r k(3) by auto
  ultimately show thesis using that by blast
qed

lemma geometry_bytes:
  assumes "geometry_ok ctx" and "b < n_blocks (pool ctx)" and "x \<le> (b + 1) * block_size ctx"
  shows "x \<le> num_slots ctx * slot_size ctx" "x \<le> DPU_BUFFER_SIZE"
proof -
  have "(b + 1) * block_size ctx \<le> n_blocks (pool ctx) * block_size ctx" using assms(2) by (intro mult_le_mono) auto
  with assms(1,3) show "x \<le> num_slots ctx * slot_size ctx" "x \<le> DPU_BUFFER_SIZE" by (auto simp: geometry_ok_def)
qed

lemma unit_words:
  assumes "geometry_ok ctx" and "unit_ok bs n (slot_size ctx) lim moff len tc" and "moff + len \<le> DPU_BUFFER_SIZE"
  shows "unat (of_nat moff :: u64) = moff" "unat (of_nat len :: u32) = len" "len \<le> 8192" "0 < len"
    "len \<le> slot_size ctx" "unat (of_nat len :: u32) \<le> unat (dpa_dma_payload_cap (of_nat moff) (of_nat (slot_size ctx)))"
proof -
  let ?cap = "unat (dpa_dma_payload_cap (of_nat moff) (of_nat (slot_size ctx)))"
  from assms(1) have ss: "0 < slot_size ctx" "slot_size ctx \<le> 8192" by (auto simp: geometry_ok_def dmesh_const)
  show m: "unat (of_nat moff :: u64) = moff" using assms(3) by (simp add: unat_of_nat_mod dmesh_const)
  have "unat (of_nat (slot_size ctx) :: u32) = slot_size ctx" using ss by (simp add: unat_of_nat_mod)
  then have cap: "?cap = min (slot_size ctx) (8192 - moff mod 128)" by (simp add: unat_payload_cap m)
  then have "0 < ?cap" using ss(1) by simp
  moreover have l: "len \<le> ?cap" "0 < ?cap \<Longrightarrow> 0 < len" using assms(2) by (auto simp: unit_ok_def Let_def)
  ultimately show "0 < len" "len \<le> 8192" "len \<le> slot_size ctx" using cap ss by auto
  then show lw: "unat (of_nat len :: u32) = len" by (simp add: unat_of_nat_mod)
  then show "unat (of_nat len :: u32) \<le> ?cap" using l by simp
qed

lemma unit_posted_ok:
  assumes I: "host_inv X R ctx" and ro: "role (ports ctx p) \<noteq> ROLE_FREE"
    and u: "unit_ok (block_size ctx) (blocks_per_conn ctx) (slot_size ctx) lim moff len (tx (ports ctx p))"
  shows "desc_in_block ctx (fill_dma_desc ctx (data_desc c moff len))" "\<not> enqueue_rejects ctx (data_desc c moff len)" "0 < len"
proof -
  note I' = host_invD [OF I]
  from unit_in_block [OF open_chain(1) [OF I'(3) disjI2 [OF ro]] u] obtain b where
    b: "b < n_blocks (pool ctx)" "b * block_size ctx \<le> moff" "moff + len \<le> (b + 1) * block_size ctx" by blast
  note g = geometry_bytes [OF I'(1) b(1,3)] and w = unit_words [OF I'(1) u geometry_bytes(2) [OF I'(1) b(1,3)]]
  show "desc_in_block ctx (fill_dma_desc ctx (data_desc c moff len))"
    using b w(1,2) by (auto simp: desc_in_block_def fill_dma_desc_def data_desc_def)
  have "int moff + int len \<le> int (num_slots ctx * slot_size ctx)" using g(1) by linarith
  with w show "\<not> enqueue_rejects ctx (data_desc c moff len)"
    by (simp add: enqueue_rejects_def data_desc_def word_less_nat_alt not_less del: of_nat_mult)
  show "0 < len" by (fact w(4))
qed

lemma fill_upd_tx [simp]: "fill_dma_desc (upd_tx p f ctx) d = fill_dma_desc ctx d"
  by (simp add: fill_dma_desc_def upd_tx_def upd_port_def)

lemma inv_emit:
  assumes I: "host_inv X R ctx" and q: "qps ctx h = Some c" and m: "may_send adv (ports ctx (local_port c))"
    and dd: "desc_in_block ctx (fill_dma_desc ctx (data_desc c moff len))" and e: "emit_desc claims h moff len adv ctx = (r, ctx')"
  shows "host_inv X R ctx' \<and> sent_on (local_port c) (case r of
      Inr _ \<Rightarrow> (tx (ports ctx (local_port c)))\<lparr>tx_s := tx_s (tx (ports ctx (local_port c))) + adv\<rparr>
    | Inl _ \<Rightarrow> tx (ports ctx (local_port c))) ctx ctx'"
proof -
  obtain w c1 where t: "track_and_post claims (local_port c) (data_desc c moff len) adv ctx = (w, c1)" by fastforce
  note p = inv_track_post [OF I m dd t]
  show ?thesis
  proof (cases w)
    case (Inl x)
    with e q t p show ?thesis by (simp add: emit_desc_def)
  next
    case (Inr u)
    with e q t have r: "r = Inr ()" "ctx' = upd_qp h (\<lambda>c. c\<lparr>qp_seq := qp_seq c + 1\<rparr>) c1" by (simp_all add: emit_desc_def)
    have "tx_frame c1 ctx'" by (simp add: r upd_qp_def tx_frame_def tx_frame_but_def same_slot_def geo_def)
    from inv_frame [OF _ this] p have "host_inv X R ctx'" by simp
    moreover have "map_option local_port \<circ> qps ctx' = map_option local_port \<circ> qps c1"
      by (simp add: r upd_qp_def fun_eq_iff option.map_comp comp_def)
    with p Inr have "sent_on (local_port c) ((tx (ports ctx (local_port c)))\<lparr>tx_s := tx_s (tx (ports ctx (local_port c))) + adv\<rparr>) ctx ctx'"
      by (simp add: sent_on_def r upd_qp_def geo_def)
    ultimately show ?thesis by (simp add: r)
  qed
qed

lemma align128_le: "x \<le> m \<Longrightarrow> 128 dvd m \<Longrightarrow> align128 x \<le> m"
  by (auto simp: align128_def)

lemma align128_ge: "x \<le> align128 x"
  by (simp add: align128_def align_up_ge)

lemma chain_pad_end:
  assumes inv: "chain_inv bs n nb tc" and "128 dvd bs" and "tx_s tc < tx_c tc" and "tx_w tc = tx_c tc"
  defines "block \<equiv> (tx_c tc - 1) div bs"
  shows "block < head_blk_next tc" "block * bs < tx_c tc" "tx_c tc \<le> (block + 1) * bs" "align128 (tx_c tc) \<le> (block + 1) * bs"
proof -
  note d = chain_invD [OF inv]
  have "tx_c tc - 1 < head_blk_next tc * bs" using d(2) assms(3) by (auto simp: cursors_def)
  then show "block < head_blk_next tc" unfolding block_def by (rule div_lt_of_lt_mult)
  have "block * bs \<le> tx_c tc - 1" unfolding block_def by simp
  with assms(3) show "block * bs < tx_c tc" by linarith
  have "tx_c tc - 1 < (block + 1) * bs" unfolding block_def by (rule next_block_gt [OF d(5)])
  then show "tx_c tc \<le> (block + 1) * bs" using assms(3) by linarith
  then show "align128 (tx_c tc) \<le> (block + 1) * bs" using assms(2) by (intro align128_le) auto
qed

lemma inv_tail_end:
  assumes I: "host_inv X R ctx" and ro: "role (ports ctx p) \<noteq> ROLE_FREE" and "p \<in> R \<or> resv_len (tx (ports ctx p)) = 0"
    and "block < head_blk_next (tx (ports ctx p))" and "tx_s (tx (ports ctx p)) \<le> e" and "block * block_size ctx < e"
    and "e \<le> (block + 1) * block_size ctx"
    and "p \<notin> X \<Longrightarrow> head_blk_next (tx (ports ctx p)) * block_size ctx \<le> e + block_size ctx"
  shows "host_inv X R (upd_tx p (set_tail_end (block_size ctx) (blocks_per_conn ctx) block e) ctx)"
proof -
  let ?t = "set_tail_end (block_size ctx) (blocks_per_conn ctx) block e (tx (ports ctx p))"
  note I' = host_invD [OF I]
  note op = open_chain [OF I'(3) disjI2 [OF ro]]
  have "chain_inv (block_size ctx) (blocks_per_conn ctx) (n_blocks (pool ctx)) ?t"
    using chain_set_end [OF op(1) assms(5-7,4)] by (simp add: set_tail_end_def)
  moreover have "ends_ok ?t (units (su_depth ctx) (su (ports ctx p)))" using op(2) by (simp add: ends_ok_def set_tail_end_def)
  moreover have "resv_len ?t \<noteq> 0 \<longrightarrow> 0 < nblk_owned ?t"
    using I'(3) [of p] by (simp add: port_ok_def slot_ok_def set_tail_end_def)
  moreover have "p \<in> X \<longrightarrow> resv_len ?t = 0" using I'(5) [of p] by (simp add: settled_def Let_def set_tail_end_def)
  ultimately have "host_inv X R (upd_tx p (\<lambda>_. ?t) ctx)"
    using assms(3,8) by (intro inv_chain [OF I]) (auto simp: set_tail_end_def tight_def resv_ok_def)
  moreover have "upd_tx p (set_tail_end (block_size ctx) (blocks_per_conn ctx) block e) ctx = upd_tx p (\<lambda>_. ?t) ctx"
    by (simp add: upd_tx_def upd_port_def)
  ultimately show ?thesis by simp
qed

lemma sent_on_trans: "sent_on p t a b \<Longrightarrow> sent_on p t' b c \<Longrightarrow> sent_on p t' a c"
  by (auto simp: sent_on_def)

lemma sent_on_upd: "sent_on p (f (tx (ports ctx p))) ctx (upd_tx p f ctx)"
  unfolding sent_on_def by (intro conjI exI [of _ "su (ports ctx p)"]) (auto simp: upd_tx_def upd_port_def fun_eq_iff geo_def)

lemma sent_on_refl: "sent_on p (tx (ports ctx p)) ctx ctx"
  unfolding sent_on_def by (intro conjI exI [of _ "su (ports ctx p)"]) (auto simp: fun_eq_iff)

text \<open>What one round of the loop, or all of it, leaves of a connection.\<close>

definition drained :: "nat \<Rightarrow> dpumesh_ctx \<Rightarrow> dpumesh_ctx \<Rightarrow> bool" where
  "drained p ctx ctx' \<longleftrightarrow> (\<exists>t. sent_on p t ctx ctx' \<and> resv_len t = resv_len (tx (ports ctx p)))"

lemma drained_refl [simp]: "drained p ctx ctx"
  using sent_on_refl by (auto simp: drained_def)

lemma drained_trans: "drained p a b \<Longrightarrow> drained p b c \<Longrightarrow> drained p a c"
  by (metis drained_def sent_on_trans sent_onD(1))

lemma drainedD:
  assumes "drained p ctx ctx'"
  shows "resv_len (tx (ports ctx' p)) = resv_len (tx (ports ctx p))" "role (ports ctx' p) = role (ports ctx p)"
    "tx_gate (ports ctx' p) = tx_gate (ports ctx p)" "map_option local_port \<circ> qps ctx' = map_option local_port \<circ> qps ctx"
    "tx_frame_but {p} ctx ctx'" "geo ctx' = geo ctx"
proof -
  from assms obtain t where s: "sent_on p t ctx ctx'" "resv_len t = resv_len (tx (ports ctx p))" by (auto simp: drained_def)
  from s(1) show "tx_frame_but {p} ctx ctx'" "role (ports ctx' p) = role (ports ctx p)" "tx_gate (ports ctx' p) = tx_gate (ports ctx p)"
    by (auto simp: sent_on_frame sent_onD)
  from s show "resv_len (tx (ports ctx' p)) = resv_len (tx (ports ctx p))" by (simp add: sent_onD)
  from s(1) show "map_option local_port \<circ> qps ctx' = map_option local_port \<circ> qps ctx" "geo ctx' = geo ctx"
    by (auto simp: sent_on_def)
qed

lemma inv_drain_step:
  assumes I: "host_inv X R ctx" and q: "qps ctx h = Some c" and lp: "local_port c = p"
    and ro: "role (ports ctx p) \<noteq> ROLE_FREE" and rs: "p \<in> R \<or> resv_len (tx (ports ctx p)) = 0"
    and u: "unit_ok (block_size ctx) (blocks_per_conn ctx) (slot_size ctx) lim moff len (tx (ports ctx p))"
    and e: "drain_step claims h p lim moff len ctx = (r, ctx')"
  shows "host_inv X R ctx' \<and> drained p ctx ctx'
    \<and> (r = Inr () \<longrightarrow> tx_c (tx (ports ctx' p)) - tx_s (tx (ports ctx' p)) < tx_c (tx (ports ctx p)) - tx_s (tx (ports ctx p)))"
proof -
  let ?tc = "tx (ports ctx p)" and ?bs = "block_size ctx" and ?n = "blocks_per_conn ctx"
  let ?oe = "tx_s ?tc + len" and ?block = "(tx_s ?tc + len - 1) div block_size ctx"
  let ?ends = "?oe = limited lim ?tc \<and> limited lim ?tc = tx_c ?tc \<and> tx_w ?tc = tx_c ?tc"
  let ?pad = "?ends \<and> ?oe < align128 ?oe" and ?set = "set_tail_end ?bs ?n ?block"
  note I' = host_invD [OF I] and un = unit_posted_ok [OF I ro u]
  note op = open_chain [OF I'(3) disjI2 [OF ro]]
  have oe: "?oe \<le> tx_c ?tc" using u limited_le [of lim ?tc] by (auto simp: unit_ok_def Let_def)
  have lt: "tx_s ?tc < tx_c ?tc" using oe un(3) by simp
  have e0: "drain_step claims h p lim moff len ctx =
      (let pe = (if ?ends then align128 ?oe else ?oe); c1 = (if ?oe < pe then upd_tx p (?set pe) ctx else ctx)
       in case emit_desc claims h moff len (pe - tx_s ?tc) c1 of
            (Inr _, c2) \<Rightarrow> (Inr (), c2)
          | (Inl x, c2) \<Rightarrow> (Inl (post_error (Some x)), if ?oe < pe then upd_tx p (?set ?oe) c2 else c2))"
    unfolding drain_step_def Let_def limited_def by simp
  show ?thesis
  proof (cases ?pad)
    case False
    then have pe: "(if ?ends then align128 ?oe else ?oe) = ?oe" using align128_ge [of ?oe] by (auto simp: order_antisym_conv)
    obtain w c2 where em: "emit_desc claims h moff len len ctx = (w, c2)" by fastforce
    have "may_send len (ports ctx (local_port c))" using oe ro lp by (simp add: may_send_def)
    note k = inv_emit [OF I q this un(1) em, unfolded lp]
    have r: "ctx' = c2" "(\<exists>x. r = Inl x \<and> isl w) \<or> (r = Inr () \<and> w = Inr ())"
      using e e0 em unfolding pe Let_def by (auto split: sum.splits)
    with k un(3) oe show ?thesis
      by (cases w) (auto simp: drained_def sent_onD(1) dest: sent_onD(1) split: sum.splits)
  next
    case True
    then have c: "tx_c ?tc = ?oe" "tx_w ?tc = ?oe" by auto
    from I'(1) have "128 dvd ?bs" by (simp add: geometry_ok_def)
    note pd = chain_pad_end [OF op(1) this lt, unfolded c, OF refl]
    have ti: "p \<notin> X \<Longrightarrow> head_blk_next ?tc * ?bs \<le> ?oe + ?bs"
      using I'(5) [of p] ro c by (simp add: settled_def Let_def tight_def)
    let ?pe = "align128 ?oe" and ?c1 = "upd_tx p (?set (align128 ?oe)) ctx"
    have I1: "host_inv X R ?c1"
      by (rule inv_tail_end [OF I ro rs pd(1)]) (use pd True ti in auto)
    obtain w c2 where em: "emit_desc claims h moff len (?pe - tx_s ?tc) ?c1 = (w, c2)" by fastforce
    have sp: "tx_s ?tc + (?pe - tx_s ?tc) = ?pe" using True by linarith
    then have ms: "may_send (?pe - tx_s ?tc) (ports ?c1 (local_port c))"
      using ro lp by (simp add: may_send_def set_tail_end_def)
    have dd: "desc_in_block ?c1 (fill_dma_desc ?c1 (data_desc c moff len))"
      using un(1) by (simp add: desc_in_block_def)
    have q1: "qps ?c1 h = Some c" using q by simp
    note k = inv_emit [OF I1 q1 ms dd em, unfolded lp]
    have so1: "sent_on p (?set ?pe ?tc) ctx ?c1" by (rule sent_on_upd)
    from True have en: ?ends and pl: "?oe < ?pe" by blast+
    have e1: "(case (w, c2) of (Inr _, c2) \<Rightarrow> (Inr (), c2)
        | (Inl x, c2) \<Rightarrow> (Inl (post_error (Some x)), upd_tx p (?set ?oe) c2)) = (r, ctx')"
      using e unfolding e0 Let_def by (simp only: if_P [OF en] if_P [OF pl] em)
    show ?thesis
    proof (cases w)
      case (Inr x)
      with e1 have r: "r = Inr ()" "ctx' = c2" by simp_all
      have "sent_on p ((?set ?pe ?tc)\<lparr>tx_s := ?pe\<rparr>) ctx c2"
        using k Inr sp sent_on_trans [OF so1] by (simp add: set_tail_end_def)
      with k r lt show ?thesis by (auto simp: drained_def sent_onD(1) set_tail_end_def)
    next
      case (Inl x)
      with e1 have r: "r = Inl (post_error (Some x))" "ctx' = upd_tx p (?set ?oe) c2" by simp_all
      from k Inl have so2: "sent_on p (?set ?pe ?tc) ctx c2" "host_inv X R c2"
        using sent_on_trans [OF so1] by simp_all
      note t2 = sent_onD [OF so2(1)] and fr = tx_frame_butD [OF sent_on_frame [OF so2(1)]]
      have "host_inv X R (upd_tx p (set_tail_end (block_size c2) (blocks_per_conn c2) ?block ?oe) c2)"
        by (rule inv_tail_end [OF so2(2)])
          (use pd ti t2 fr ro rs in \<open>auto simp: set_tail_end_def\<close>)
      moreover have "sent_on p (?set ?oe (?set ?pe ?tc)) ctx ctx'"
        using sent_on_trans [OF so2(1) sent_on_upd [of p "?set ?oe" c2]] t2 r by simp
      ultimately show ?thesis using r fr by (auto simp: drained_def set_tail_end_def)
    qed
  qed
qed

lemma inv_next_send:
  assumes I: "host_inv X R ctx" and ro: "role (ports ctx p) \<noteq> ROLE_FREE"
    and e: "dpumesh_tx_next_send_upto p fl lim ctx = (u, ctx')"
  shows "host_inv X R ctx' \<and> drained p ctx ctx' \<and> qps ctx' = qps ctx
    \<and> tx_c (tx (ports ctx' p)) - tx_s (tx (ports ctx' p)) \<le> tx_c (tx (ports ctx p)) - tx_s (tx (ports ctx p))
    \<and> (\<forall>moff len. u = Some (moff, len) \<longrightarrow>
         unit_ok (block_size ctx') (blocks_per_conn ctx') (slot_size ctx') lim moff len (tx (ports ctx' p)))"
proof -
  let ?tc = "tx (ports ctx p)"
  note I' = host_invD [OF I]
  note op = open_chain [OF I'(3) disjI2 [OF ro]]
  obtain t where n: "next_send_upto (block_size ctx) (blocks_per_conn ctx) (slot_size ctx) fl lim ?tc = (u, t)"
    and c: "ctx' = upd_tx p (\<lambda>_. t) ctx" using e by (auto simp: dpumesh_tx_next_send_upto_def split: prod.splits)
  from next_send_spec [OF chain_invD(2) [OF op(1)] n] obtain s where s: "t = ?tc\<lparr>tx_s := s\<rparr>" "tx_s ?tc \<le> s" "s \<le> tx_c ?tc"
    and un: "\<forall>moff len. u = Some (moff, len) \<longrightarrow> unit_ok (block_size ctx) (blocks_per_conn ctx) (slot_size ctx) lim moff len t"
    by blast
  have "ends_ok t (units (su_depth ctx) (su (ports ctx p)))" using op(2) s by (auto simp: ends_ok_def sorted_append)
  moreover note chain_send [OF op(1) s(2,3), folded s(1)]
  moreover have "resv_len t \<noteq> 0 \<longrightarrow> 0 < nblk_owned t" using I'(3) [of p] s(1) by (simp add: port_ok_def slot_ok_def)
  ultimately have "host_inv X R ctx'" unfolding c using I'(5) [of p] ro s(1)
    by (intro inv_chain [OF I]) (auto simp: settled_def Let_def tight_def resv_ok_def)
  moreover have "sent_on p t ctx ctx'" unfolding c using sent_on_upd [of p "\<lambda>_. t" ctx] by simp
  ultimately show ?thesis using un s by (auto simp: drained_def c)
qed

lemma handle_port: "map_option local_port \<circ> qps ctx' = map_option local_port \<circ> qps ctx \<Longrightarrow> qps ctx h = Some c \<Longrightarrow>
  \<exists>c'. qps ctx' h = Some c' \<and> local_port c' = local_port c"
  by (metis comp_apply map_option_eq_Some)

lemma inv_drain_loop:
  assumes "host_inv X R ctx" and "qps ctx h = Some c" and "local_port c = p" and "role (ports ctx p) \<noteq> ROLE_FREE"
    and "p \<in> R \<or> resv_len (tx (ports ctx p)) = 0" and "drain_tx_loop claims h p fl lim fuel ctx = (r, ctx')"
  shows "host_inv X R ctx' \<and> drained p ctx ctx' \<and> (tx_c (tx (ports ctx p)) - tx_s (tx (ports ctx p)) < fuel \<longrightarrow> r \<noteq> None)"
  using assms
proof (induction fuel arbitrary: ctx c)
  case (Suc fuel)
  obtain u c1 where n: "dpumesh_tx_next_send_upto p fl lim ctx = (u, c1)" by fastforce
  note k = inv_next_send [OF Suc.prems(1,4) n]
  show ?case
  proof (cases u)
    case None
    with n k Suc.prems(6) show ?thesis by auto
  next
    case (Some ml)
    obtain moff len where ml: "u = Some (moff, len)" using Some by (cases ml) auto
    obtain w c2 where d: "drain_step claims h p lim moff len c1 = (w, c2)" by fastforce
    have k1: "host_inv X R c1" "qps c1 h = Some c" "role (ports c1 p) \<noteq> ROLE_FREE" "p \<in> R \<or> resv_len (tx (ports c1 p)) = 0"
      using k Suc.prems drainedD [of p ctx c1] by auto
    have un: "unit_ok (block_size c1) (blocks_per_conn c1) (slot_size c1) lim moff len (tx (ports c1 p))" using k ml by blast
    note st = inv_drain_step [OF k1(1,2) Suc.prems(3) k1(3,4) un d]
    show ?thesis
    proof (cases w)
      case (Inl x)
      with Suc.prems(6) n ml d have "r = Some (Inl x)" "ctx' = c2" by simp_all
      with st k drained_trans show ?thesis by blast
    next
      case (Inr x)
      with Suc.prems(6) n ml d have rec: "drain_tx_loop claims h p fl lim fuel c2 = (r, ctx')" by simp
      from st have s2: "host_inv X R c2" "drained p c1 c2" by auto
      note dd = drainedD [OF s2(2)]
      from handle_port [OF dd(4) k1(2)] obtain cc where cc: "qps c2 h = Some cc" "local_port cc = p" using Suc.prems(3) by auto
      have "role (ports c2 p) \<noteq> ROLE_FREE" "p \<in> R \<or> resv_len (tx (ports c2 p)) = 0" using dd k1 by auto
      note ih = Suc.IH [OF s2(1) cc this rec]
      have "drained p ctx ctx'" using ih k s2(2) drained_trans by blast
      moreover have "r \<noteq> None" if "tx_c (tx (ports ctx p)) - tx_s (tx (ports ctx p)) < Suc fuel"
        using that ih st k Inr by auto
      ultimately show ?thesis using ih by blast
    qed
  qed
qed auto

text \<open>The drain always ends: the fuel of the loop is never used up.\<close>

lemma inv_drain:
  assumes "host_inv X R ctx" and "qps ctx h = Some c" and "role (ports ctx (local_port c)) \<noteq> ROLE_FREE"
    and "local_port c \<in> R \<or> resv_len (tx (ports ctx (local_port c))) = 0"
    and "dmesh_drain_tx_upto_locked claims h fl lim ctx = (r, ctx')"
  shows "host_inv X R ctx' \<and> drained (local_port c) ctx ctx' \<and> r \<noteq> None"
proof -
  let ?tc = "tx (ports ctx (local_port c))"
  have "drain_tx_loop claims h (local_port c) fl lim (tx_c ?tc - tx_s ?tc + 1) ctx = (r, ctx')"
    using assms(2,5) unfolding dmesh_drain_tx_upto_locked_def Let_def by simp
  from inv_drain_loop [OF assms(1,2) refl assms(3,4) this] show ?thesis by simp
qed

end
