(* ===== verification/Host_Return.thy ===== *)
theory Host_Return
  imports Host_Post
begin

text \<open>
  Acknowledgement and the return of a closed connection's blocks under the ownership invariant. An
  acknowledgement releases a prefix of the units, moves the free cursor to the end of the last one
  released, and lets a closed connection with nothing outstanding give all its blocks back.
\<close>

section \<open>Giving back everything\<close>

text \<open>What holds between two blocks given back: the blocks of the port and the pool together stay the same.\<close>

definition giving :: "int set \<Rightarrow> nat \<Rightarrow> dpumesh_ctx \<Rightarrow> bool" where
  "giving U p ctx \<longleftrightarrow> (let tc = tx (ports ctx p); n = blocks_per_conn ctx
     in pool_ok (pool ctx) \<and> held ctx p \<union> pooled ctx = U \<and> held ctx p \<inter> pooled ctx = {}
        \<and> shape n tc \<and> tail_blk tc \<le> head_blk_next tc \<and> head_blk_next tc - tail_blk tc \<le> n \<and> nrec tc \<le> TX_BLOCKS_PER_CONN
        \<and> distinct (owned n tc) \<and> (\<forall>b \<in> set (owned n tc). 0 \<le> b \<and> b < int (n_blocks (pool ctx))))"

lemma giving_start:
  assumes I: "host_inv X R ctx"
    and "chain_inv (block_size ctx) (blocks_per_conn ctx) (n_blocks (pool ctx)) (tx (ports ctx p))"
  shows "giving (held ctx p \<union> pooled ctx) p ctx"
proof -
  note I' = host_invD [OF I] and d = chain_invD [OF assms(2)]
  from d(4) have "tail_blk (tx (ports ctx p)) \<le> head_blk_next (tx (ports ctx p))"
    "head_blk_next (tx (ports ctx p)) - tail_blk (tx (ports ctx p)) \<le> blocks_per_conn ctx" by (auto simp: backed_def)
  with I'(2) d(1,3) census_apart [OF I'(4), of p] show ?thesis
    by (auto simp: giving_def Let_def chain_blocks_def counted_def)
qed

lemma give_step:
  assumes g: "giving U p ctx" and f: "tx_frame_but {p} ctx ctx'" and "pool_ok (pool ctx')"
    and "pooled ctx' = insert b (pooled ctx)" and "b \<notin> pooled ctx" and t: "tx (ports ctx' p) = t"
    and "mset (owned (blocks_per_conn ctx) (tx (ports ctx p))) = add_mset b (mset (owned (blocks_per_conn ctx) t))"
    and "shape (blocks_per_conn ctx) t" "tail_blk t \<le> head_blk_next t" "head_blk_next t - tail_blk t \<le> blocks_per_conn ctx"
      "nrec t \<le> TX_BLOCKS_PER_CONN"
  shows "giving U p ctx'"
proof -
  let ?n = "blocks_per_conn ctx" and ?tc = "tx (ports ctx p)"
  note fr = tx_frame_butD(2-) [OF f]
  from g have d: "distinct (owned ?n ?tc)" "\<forall>b \<in> set (owned ?n ?tc). 0 \<le> b \<and> b < int (n_blocks (pool ctx))"
    by (simp_all add: giving_def Let_def)
  have m: "mset (owned ?n ?tc) = mset (b # owned ?n t)" using assms(7) by simp
  have dt: "distinct (b # owned ?n t)" using d(1) mset_eq_imp_distinct_iff [OF m] by simp
  have s: "set (owned ?n ?tc) = insert b (set (owned ?n t))" using mset_eq_setD [OF m] by simp
  have h: "held ctx p = insert b (held ctx' p)" "b \<notin> held ctx' p" using s dt fr t by (simp_all add: held_def)
  have "held ctx' p \<union> pooled ctx' = U" "held ctx' p \<inter> pooled ctx' = {}" using g h assms(4,5) by (auto simp: giving_def Let_def)
  moreover have "\<forall>b \<in> set (owned ?n t). 0 \<le> b \<and> b < int (n_blocks (pool ctx))" using d(2) s by simp
  ultimately show ?thesis using assms(3,8-11) dt fr t by (simp add: giving_def Let_def)
qed

text \<open>Clearing the slot of one logical block in the window.\<close>

lemma clear_slot_owned:
  assumes "shape n tc" and "head_blk_next tc - tail_blk tc \<le> n" and "tail_blk tc \<le> k" and "k < head_blk_next tc"
    and "0 \<le> pblk tc ! (k mod n)"
  defines "t \<equiv> tc\<lparr>pblk := (pblk tc)[k mod n := -1]\<rparr>"
  shows "mset (owned n tc) = add_mset (pblk tc ! (k mod n)) (mset (owned n t))"
proof -
  let ?g = "\<lambda>k. pblk tc ! (k mod n)" and ?a = "tail_blk tc" and ?h = "head_blk_next tc"
  have other: "pblk t ! (j mod n) = ?g j" if "?a \<le> j" "j < ?h" "j \<noteq> k" for j
  proof -
    have "j < ?a + n" "k < ?a + n" using that assms(2-4) by linarith+
    with mod_window [of ?a j n k] that assms(3) have "j mod n \<noteq> k mod n" by blast
    then show ?thesis by (simp add: t_def)
  qed
  have self: "pblk t ! (k mod n) = -1" using assms(1) slot_lt [OF assms(1), of k] by (simp add: t_def shape_def)
  have sp: "[?a..<?h] = [?a..<k] @ k # [Suc k..<?h]" using assms(3,4) by (metis le_add_diff_inverse less_imp_le upt_add_eq_append upt_conv_Cons)
  have w: "map (\<lambda>j. pblk t ! (j mod n)) [?a..<k] = map ?g [?a..<k]" "map (\<lambda>j. pblk t ! (j mod n)) [Suc k..<?h] = map ?g [Suc k..<?h]"
    using assms(3,4) other by auto
  have th: "tail_blk t = ?a" "head_blk_next t = ?h" "stack t = stack tc" by (simp_all add: t_def stack_def)
  show ?thesis
    by (simp only: owned_def assigned_def th sp map_append list.map w filter_append filter.simps self)
      (use assms(5) in simp)
qed

lemma return_assigned_giving:
  assumes "giving U p ctx" and "set ks \<subseteq> {tail_blk (tx (ports ctx p))..<head_blk_next (tx (ports ctx p))}"
    and "\<forall>s < TX_BLOCKS_PER_CONN. 0 \<le> pblk (tx (ports ctx p)) ! s \<longrightarrow> (\<exists>k \<in> set ks. s = k mod blocks_per_conn ctx)"
  defines "ctx' \<equiv> return_assigned p ks ctx"
  shows "giving U p ctx' \<and> tx_frame_but {p} ctx ctx' \<and> owner_fields (ports ctx' p) = owner_fields (ports ctx p)
    \<and> fwd_posted ctx' = fwd_posted ctx \<and> (\<forall>s < TX_BLOCKS_PER_CONN. pblk (tx (ports ctx' p)) ! s < 0)
    \<and> resv_len (tx (ports ctx' p)) = resv_len (tx (ports ctx p))"
  using assms(1-3) unfolding ctx'_def
proof (induction ks arbitrary: ctx)
  case Nil
  then show ?case by (auto simp: tx_frame_but_def same_slot_def not_le [symmetric])
next
  case (Cons k ks)
  let ?n = "blocks_per_conn ctx" and ?tc = "tx (ports ctx p)"
  let ?b = "pblk ?tc ! (k mod ?n)" and ?t = "?tc\<lparr>pblk := (pblk ?tc)[k mod ?n := -1]\<rparr>"
  let ?c = "if 0 \<le> ?b then upd_tx p (\<lambda>tc. tc\<lparr>pblk := (pblk tc)[k mod ?n := -1]\<rparr>) (block_pool_return ?b ctx) else ctx"
  from Cons.prems(1) have sh: "shape ?n ?tc" and w: "head_blk_next ?tc - tail_blk ?tc \<le> ?n" "tail_blk ?tc \<le> head_blk_next ?tc"
    "nrec ?tc \<le> TX_BLOCKS_PER_CONN" "pool_ok (pool ctx)" by (auto simp: giving_def Let_def)
  have step: "giving U p ?c \<and> tx_frame_but {p} ctx ?c \<and> owner_fields (ports ?c p) = owner_fields (ports ctx p)
      \<and> fwd_posted ?c = fwd_posted ctx \<and> tx (ports ?c p) = (if 0 \<le> ?b then ?t else ?tc)"
  proof (cases "0 \<le> ?b")
    case True
    note m = clear_slot_owned [OF sh w(1) _ _ True]
    have mm: "mset (owned ?n ?tc) = add_mset ?b (mset (owned ?n ?t))" using m Cons.prems(2) by auto
    then have "?b \<in> set (owned ?n ?tc)" by (metis set_mset_mset union_single_eq_member)
    then have bh: "?b \<in> held ctx p" "?b < int (n_blocks (pool ctx))" "?b \<notin> pooled ctx"
      using Cons.prems(1) by (auto simp: held_def giving_def Let_def)
    note r = pool_return_spec [OF w(4) True bh(2,3)]
    have tx: "tx (ports ?c p) = ?t" using True pool_return_fields [of ?b ctx p] by simp
    have fr: "tx_frame_but {p} ctx ?c" using r(1) True by (auto simp: tx_frame_but_def same_slot_def)
    have po: "pool_ok (pool ?c)" "pooled ?c = insert ?b (pooled ctx)" using r True by simp_all
    have "shape ?n ?t" using sh by (simp add: shape_def)
    from give_step [OF Cons.prems(1) fr po bh(3) tx mm this] w fr tx r(4) True pool_return_fields [of ?b ctx p]
    show ?thesis by simp
  qed (use Cons.prems in \<open>simp add: tx_frame_but_def same_slot_def\<close>)
  have n: "blocks_per_conn ?c = ?n" using step tx_frame_butD(3) by blast
  have th: "tail_blk (tx (ports ?c p)) = tail_blk ?tc" "head_blk_next (tx (ports ?c p)) = head_blk_next ?tc"
    "resv_len (tx (ports ?c p)) = resv_len ?tc" using step by simp_all
  have "\<forall>s < TX_BLOCKS_PER_CONN. 0 \<le> pblk (tx (ports ?c p)) ! s \<longrightarrow> (\<exists>k \<in> set ks. s = k mod blocks_per_conn ?c)"
  proof (intro allI impI)
    fix s assume s: "s < TX_BLOCKS_PER_CONN" "0 \<le> pblk (tx (ports ?c p)) ! s"
    have sn: "s \<noteq> k mod ?n" using s step sh by (auto simp: shape_def split: if_splits)
    then have "0 \<le> pblk ?tc ! s" using s step by (simp split: if_splits)
    with Cons.prems(3) s(1) sn n show "\<exists>k \<in> set ks. s = k mod blocks_per_conn ?c" by auto
  qed
  from Cons.IH [OF conjunct1 [OF step] _ this] Cons.prems(2) th
  have ih: "giving U p (return_assigned p ks ?c)" "tx_frame_but {p} ?c (return_assigned p ks ?c)"
    "owner_fields (ports (return_assigned p ks ?c) p) = owner_fields (ports ?c p)"
    "fwd_posted (return_assigned p ks ?c) = fwd_posted ?c"
    "\<forall>s < TX_BLOCKS_PER_CONN. pblk (tx (ports (return_assigned p ks ?c) p)) ! s < 0"
    "resv_len (tx (ports (return_assigned p ks ?c) p)) = resv_len ?tc" by auto
  have e: "return_assigned p (k # ks) ctx = return_assigned p ks ?c" by (simp add: Let_def)
  from step have s: "tx_frame_but {p} ctx ?c" "owner_fields (ports ?c p) = owner_fields (ports ctx p)"
    "fwd_posted ?c = fwd_posted ctx" by blast+
  show ?case unfolding e
    by (intro conjI ih(1,5,6) tx_frame_but_trans [OF s(1) ih(2)] trans [OF ih(3) s(2)] trans [OF ih(4) s(3)])
qed

lemma return_recycled_giving:
  assumes "giving U p ctx" and "\<forall>s < TX_BLOCKS_PER_CONN. pblk (tx (ports ctx p)) ! s < 0"
  defines "ctx' \<equiv> return_recycled p (nrec (tx (ports ctx p))) ctx"
  shows "giving U p ctx' \<and> tx_frame_but {p} ctx ctx' \<and> owner_fields (ports ctx' p) = owner_fields (ports ctx p)
    \<and> fwd_posted ctx' = fwd_posted ctx \<and> (\<forall>s < TX_BLOCKS_PER_CONN. pblk (tx (ports ctx' p)) ! s < 0)
    \<and> resv_len (tx (ports ctx' p)) = resv_len (tx (ports ctx p)) \<and> nrec (tx (ports ctx' p)) = 0"
  using assms(1,2) unfolding ctx'_def
proof (induction "nrec (tx (ports ctx p))" arbitrary: ctx)
  case 0
  then show ?case by (simp flip: 0(1) add: tx_frame_but_def same_slot_def)
next
  case (Suc m)
  let ?n = "blocks_per_conn ctx" and ?tc = "tx (ports ctx p)"
  let ?b = "recyc ?tc ! m" and ?t = "?tc\<lparr>nrec := m\<rparr>"
  let ?c = "block_pool_return ?b (upd_tx p (\<lambda>_. ?t) ctx)"
  from Suc.prems(1) have sh: "shape ?n ?tc" and w: "head_blk_next ?tc - tail_blk ?tc \<le> ?n" "tail_blk ?tc \<le> head_blk_next ?tc"
    "nrec ?tc \<le> TX_BLOCKS_PER_CONN" "pool_ok (pool ctx)" by (auto simp: giving_def Let_def)
  have st: "stack ?tc = stack ?t @ [?b]"
    using Suc.hyps(2) [symmetric] sh w(3) by (simp add: stack_def shape_def take_Suc_conv_app_nth)
  then have mm: "mset (owned ?n ?tc) = add_mset ?b (mset (owned ?n ?t))" by (simp add: owned_def assigned_def)
  then have "?b \<in> set (owned ?n ?tc)" by (metis set_mset_mset union_single_eq_member)
  then have bh: "0 \<le> ?b" "?b < int (n_blocks (pool ctx))" "?b \<notin> pooled ctx"
    using Suc.prems(1) by (auto simp: held_def giving_def Let_def)
  note r = pool_return_spec [of "upd_tx p (\<lambda>_. ?t) ctx" ?b, simplified, OF w(4) bh]
  have tx: "tx (ports ?c p) = ?t" using pool_return_fields [of ?b "upd_tx p (\<lambda>_. ?t) ctx" p] by simp
  have fr: "tx_frame_but {p} ctx ?c" using r(1) by (auto simp: tx_frame_but_def same_slot_def)
  have o: "owner_fields (ports ?c p) = owner_fields (ports ctx p)"
    using pool_return_fields [of ?b "upd_tx p (\<lambda>_. ?t) ctx" p] by simp
  have "shape ?n ?t" using sh by (simp add: shape_def)
  from give_step [OF Suc.prems(1) fr r(2,3) bh(3) tx mm this] w have g: "giving U p ?c" using Suc.hyps(2) by simp
  have m: "m = nrec (tx (ports ?c p))" "\<forall>s < TX_BLOCKS_PER_CONN. pblk (tx (ports ?c p)) ! s < 0"
    using tx Suc.prems(2) by simp_all
  note ih = Suc.hyps(1) [OF m(1) g m(2), folded m(1)]
  have e: "return_recycled p (nrec ?tc) ctx = return_recycled p m ?c"
    using Suc.hyps(2) [symmetric] by (simp add: pop_recycled_def)
  show ?case unfolding e using ih tx_frame_but_trans [OF fr] o r(4) tx by simp
qed

lemma owned_nil:
  assumes "shape n tc" and "\<forall>s < TX_BLOCKS_PER_CONN. pblk tc ! s < 0" and "nrec tc = 0"
  shows "owned n tc = []"
proof -
  have "filter (\<lambda>b. 0 \<le> b) (assigned n tc) = []"
    using assms(2) slot_lt [OF assms(1)] by (auto simp: assigned_def filter_empty_conv not_le)
  with assms(3) show ?thesis by (simp add: owned_def stack_def)
qed

lemma inv_try_return:
  assumes I: "host_inv X {} ctx"
  shows "host_inv X {} (try_return_blocks p ctx)"
proof (cases "role (ports ctx p) \<noteq> ROLE_FREE \<or> nblk_owned (tx (ports ctx p)) \<le> 0 \<or> tx_w (tx (ports ctx p)) \<noteq> tx_f (tx (ports ctx p))")
  case True
  with I show ?thesis by (auto simp: try_return_blocks_def Let_def)
next
  case False
  let ?tc = "tx (ports ctx p)" and ?n = "blocks_per_conn ctx" and ?U = "held ctx p \<union> pooled ctx"
  let ?c1 = "return_assigned p [tail_blk ?tc..<head_blk_next ?tc] ctx"
  let ?c2 = "return_recycled p (nrec (tx (ports ?c1 p))) ?c1"
  let ?c3 = "upd_tx p (\<lambda>tc. tc\<lparr>nblk_owned := 0\<rparr>) ?c2"
  note I' = host_invD [OF I]
  have e: "try_return_blocks p ctx = ?c3" using False by (simp add: try_return_blocks_def Let_def)
  have op: "chain_inv (block_size ctx) ?n (n_blocks (pool ctx)) ?tc" using open_chain(1) [OF I'(3)] False by simp
  have r0: "resv_len ?tc = 0" using I'(5) [of p] False by (auto simp: settled_def Let_def)
  have bk: "\<forall>s < TX_BLOCKS_PER_CONN. 0 \<le> pblk ?tc ! s \<longrightarrow> (\<exists>k \<in> set [tail_blk ?tc..<head_blk_next ?tc]. s = k mod ?n)"
    using chain_invD(4) [OF op] by (fastforce simp: backed_def)
  note a = return_assigned_giving [OF giving_start [OF I op] _ bk]
  have a1: "giving ?U p ?c1" "tx_frame_but {p} ctx ?c1" "owner_fields (ports ?c1 p) = owner_fields (ports ctx p)"
    "fwd_posted ?c1 = fwd_posted ctx" "\<forall>s < TX_BLOCKS_PER_CONN. pblk (tx (ports ?c1 p)) ! s < 0"
    "resv_len (tx (ports ?c1 p)) = 0" using a r0 by simp_all
  note b = return_recycled_giving [OF a1(1,5)]
  have fr: "tx_frame_but {p} ctx ?c2" using tx_frame_but_trans [OF a1(2)] b by blast
  then have fr3: "tx_frame_but {p} ctx ?c3" by (auto simp: tx_frame_but_def same_slot_def)
  from b have g: "giving ?U p ?c2" by blast
  have of: "owner_fields (ports ?c3 p) = owner_fields (ports ctx p)" using b a1(3) by simp
  have rt: "returned (tx (ports ?c3 p))"
    using b a1(6) g by (auto simp: returned_def giving_def Let_def shape_def)
  have "shape (blocks_per_conn ?c2) (tx (ports ?c2 p))" using g by (simp add: giving_def Let_def)
  from owned_nil [OF this] b have h0: "held ?c2 p = {}" by (simp add: held_def)
  have h3: "held ?c3 p = {}" "pooled ?c3 = pooled ?c2"
    using h0 by (simp_all add: held_def owned_def assigned_def stack_def)
  show ?thesis unfolding e
  proof (rule inv_move [OF I fr3])
    show "pool_ok (pool ?c3)" using g by (simp add: giving_def Let_def)
    show "port_ok ?c3 p"
      using I'(3) [of p] rt of False tx_frame_butD(2-) [OF fr3]
      by (auto simp: port_ok_def slot_ok_def owner_fields_def returned_def)
    show "settled X {} ?c3 p" using rt of False by (simp add: settled_def Let_def owner_fields_def resv_ok_def returned_def)
    show "held ?c3 p \<union> pooled ?c3 = held ctx p \<union> pooled ctx" using g h0 h3 by (simp add: giving_def Let_def)
    show "held ?c3 p \<inter> pooled ?c3 = {}" using h3 by simp
    show "fwd_posted ?c3 = fwd_posted ctx" using b a1(4) by simp
  qed auto
qed

section \<open>Acknowledgement\<close>

lemma ack_units_ends: "map (\<lambda>u. fst (snd u)) (ack_units seq us) = map (\<lambda>u. fst (snd u)) us"
  by (simp add: ack_units_def Let_def map_update list_update_same_conv)

lemma ends_ack:
  assumes "ends_ok tc us" and "us = rel @ rest"
  shows "ends_ok (tc\<lparr>tx_f := (if rel = [] then tx_f tc else fst (snd (last rel)))\<rparr>) rest"
    "rel \<noteq> [] \<Longrightarrow> tx_f tc \<le> fst (snd (last rel)) \<and> fst (snd (last rel)) \<le> tx_s tc"
proof -
  from assms have s: "sorted (tx_f tc # map (\<lambda>u. fst (snd u)) rel @ map (\<lambda>u. fst (snd u)) rest @ [tx_s tc])"
    by (simp add: ends_ok_def)
  show "ends_ok (tc\<lparr>tx_f := (if rel = [] then tx_f tc else fst (snd (last rel)))\<rparr>) rest"
    using s by (cases "rel = []") (auto simp: ends_ok_def sorted_append)
  show "rel \<noteq> [] \<Longrightarrow> tx_f tc \<le> fst (snd (last rel)) \<and> fst (snd (last rel)) \<le> tx_s tc"
    using s by (auto simp: sorted_append)
qed

lemma slot_ack:
  assumes ok: "slot_ok bs n nb depth psl" and a: "fifo_ack depth seq (su psl) = (newf, q)"
  shows "slot_ok bs n nb depth (psl\<lparr>su := q, tx := (case newf of None \<Rightarrow> tx psl | Some f \<Rightarrow> (tx psl)\<lparr>tx_f := f\<rparr>)\<rparr>)"
proof -
  let ?us = "ack_units seq (units depth (su psl))"
  from ok have k: "fifo_ok depth (su psl)" "fifo_clean depth (su psl)" by (auto simp: slot_ok_def)
  note s = fifo_ack_spec [OF k a]
  have u: "?us = takeWhile unit_done ?us @ units depth q" using s by simp
  let ?rel = "takeWhile unit_done ?us"
  have nf: "newf = (if ?rel = [] then None else Some (fst (snd (last ?rel))))" using s by (simp add: Let_def)
  have e: "ends_ok (tx psl) ?us" if "ends_ok (tx psl) (units depth (su psl))"
    using that ack_units_ends [of seq "units depth (su psl)"] by (simp add: ends_ok_def)
  have "chain_inv bs n nb (case newf of None \<Rightarrow> tx psl | Some f \<Rightarrow> (tx psl)\<lparr>tx_f := f\<rparr>)
      \<and> ends_ok (case newf of None \<Rightarrow> tx psl | Some f \<Rightarrow> (tx psl)\<lparr>tx_f := f\<rparr>) (units depth q)"
    if "chain_inv bs n nb (tx psl)" "ends_ok (tx psl) (units depth (su psl))"
    using ends_ack [OF e [OF that(2)] u] chain_free [OF that(1)] that(1) by (cases "?rel = []") (auto simp: nf)
  with ok s show ?thesis by (auto simp: slot_ok_def returned_def split: option.splits)
qed

lemma inv_ack:
  assumes I: "host_inv X {} ctx"
  shows "host_inv X {} (tx_reclaim_ack p seq ctx)"
proof (cases "p = 0")
  case False
  obtain newf q where a: "fifo_ack (su_depth ctx) seq (su (ports ctx p)) = (newf, q)" by fastforce
  note I' = host_invD [OF I]
  let ?f = "\<lambda>psl. psl\<lparr>su := q, tx := (case newf of None \<Rightarrow> tx psl | Some f \<Rightarrow> (tx psl)\<lparr>tx_f := f\<rparr>)\<rparr>"
  have I1: "host_inv X {} (upd_port p ?f ctx)"
  proof (rule inv_slot [OF I])
    show "port_ok (upd_port p ?f ctx) p"
      using slot_ack [OF I'(3) [unfolded port_ok_def] a] by (simp add: port_ok_def)
    show "settled X {} (upd_port p ?f ctx) p"
      using I'(5) [of p] by (simp add: settled_def Let_def tight_def resv_ok_def split: option.split)
  qed (auto simp: held_def split: option.split)
  show ?thesis
  proof (cases newf)
    case None
    then have "upd_port p ?f ctx = upd_port p (\<lambda>psl. psl\<lparr>su := q\<rparr>) ctx" by (simp add: upd_port_def)
    with I1 None a False show ?thesis by (simp add: tx_reclaim_ack_def)
  next
    case (Some f)
    let ?c = "upd_tx p (\<lambda>tc. tc\<lparr>tx_f := f\<rparr>) (upd_port p (\<lambda>psl. psl\<lparr>su := q\<rparr>) ctx)"
    have e: "upd_port p ?f ctx = ?c" using Some by (simp add: upd_port_def upd_tx_def)
    obtain b where "tx_reclaim_ack p seq ctx = try_return_blocks p (tx_arm_idle_tail p
        (if b then snd (tx_wait_make_ready p ?c) else ?c))"
      using a Some False unfolding tx_reclaim_ack_def Let_def by simp
    moreover have "host_inv X {} (if b then snd (tx_wait_make_ready p ?c) else ?c)"
      using I1 inv_frame [OF I1 [unfolded e] ev_frame_tx [OF ev_make_ready]] unfolding e by (cases b) simp_all
    ultimately show ?thesis using inv_try_return [OF inv_frame [OF _ ev_frame_tx [OF ev_arm_idle_tail]]] by simp
  qed
qed (use I in \<open>simp add: tx_reclaim_ack_def\<close>)

end
