(* ===== verification/Host_Calls.thy ===== *)
theory Host_Calls
  imports Host_Return Host_Api
begin

text \<open>
  The calls of the library under the ownership invariant: receive and delivery leave the transmit
  side alone, a port taken into use starts with an empty chain, a port is released only with its
  blocks accounted for, and a handle and its port name each other.
\<close>

section \<open>Handles\<close>

definition handles_ok :: "nat set \<Rightarrow> dpumesh_ctx \<Rightarrow> bool" where
  "handles_ok H ctx \<longleftrightarrow>
     (\<forall>h c. h \<notin> H \<longrightarrow> qps ctx h = Some c \<longrightarrow> local_port c \<noteq> 0
        \<and> live_role (role (ports ctx (local_port c))) \<and> user (ports ctx (local_port c)) = Some h)
     \<and> (\<forall>p h. h \<notin> H \<longrightarrow> live_role (role (ports ctx p)) \<longrightarrow> user (ports ctx p) = Some h \<longrightarrow>
          map_option local_port (qps ctx h) = Some p)
     \<and> (\<forall>h. next_handle ctx \<le> h \<longrightarrow> qps ctx h = None)"

definition id_frame :: "dpumesh_ctx \<Rightarrow> dpumesh_ctx \<Rightarrow> bool" where
  "id_frame ctx ctx' \<longleftrightarrow> (\<forall>q. role (ports ctx' q) = role (ports ctx q) \<and> user (ports ctx' q) = user (ports ctx q))
     \<and> map_option local_port \<circ> qps ctx' = map_option local_port \<circ> qps ctx \<and> next_handle ctx' = next_handle ctx"

lemma id_frame_refl [simp]: "id_frame ctx ctx"
  by (simp add: id_frame_def)

lemma id_frame_trans [trans]: "id_frame a b \<Longrightarrow> id_frame b c \<Longrightarrow> id_frame a c"
  by (simp add: id_frame_def)

text \<open>The invariant on handles reads only the ports they name.\<close>

lemma handles_alt:
  "handles_ok H ctx \<longleftrightarrow>
     (\<forall>h p. h \<notin> H \<longrightarrow> map_option local_port (qps ctx h) = Some p \<longrightarrow>
        p \<noteq> 0 \<and> live_role (role (ports ctx p)) \<and> user (ports ctx p) = Some h)
     \<and> (\<forall>p h. h \<notin> H \<longrightarrow> live_role (role (ports ctx p)) \<longrightarrow> user (ports ctx p) = Some h \<longrightarrow>
          map_option local_port (qps ctx h) = Some p)
     \<and> (\<forall>h. next_handle ctx \<le> h \<longrightarrow> map_option local_port (qps ctx h) = None)"
  unfolding handles_ok_def by auto

lemma handles_frame:
  assumes "handles_ok H ctx" and "id_frame ctx ctx'"
  shows "handles_ok H ctx'"
proof -
  from assms(2) have p: "\<And>q. role (ports ctx' q) = role (ports ctx q)" "\<And>q. user (ports ctx' q) = user (ports ctx q)"
    and m: "map_option local_port \<circ> qps ctx' = map_option local_port \<circ> qps ctx" and n: "next_handle ctx' = next_handle ctx"
    by (auto simp: id_frame_def)
  have q: "map_option local_port (qps ctx' h) = map_option local_port (qps ctx h)" for h using fun_cong [OF m, of h] by simp
  show ?thesis using assms(1) unfolding handles_alt p n q .
qed

lemma id_ev: "ev_frame a b \<Longrightarrow> id_frame a b"
  by (simp add: id_frame_def ev_frameD [of a b])

lemma id_drained: "drained p a b \<Longrightarrow> id_frame a b"
  by (auto simp: drained_def sent_on_def id_frame_def geo_def)

lemma id_upd_tx [simp]: "id_frame ctx (upd_tx p f ctx)"
  by (simp add: id_frame_def upd_tx_def)

lemma id_upd_port: "(\<And>psl. role (f psl) = role psl \<and> user (f psl) = user psl) \<Longrightarrow> id_frame ctx (upd_port p f ctx)"
  by (simp add: id_frame_def)

lemma id_upd_qp: "(\<And>c. local_port (f c) = local_port c) \<Longrightarrow> id_frame ctx (upd_qp h f ctx)"
  by (auto simp: id_frame_def upd_qp_def fun_eq_iff option.map_comp comp_def)

lemma id_pool_return: "id_frame ctx (block_pool_return b ctx)"
  using id_ev [OF ev_wake_waiter, of "ctx\<lparr>pool := block_pool_push (nat b) (pool ctx), pool_epoch := pool_epoch ctx + 1\<rparr>"]
  by (simp add: block_pool_return_def id_frame_def)

lemma id_return_surplus: "id_frame ctx (return_surplus p m ctx)"
proof (induction m arbitrary: ctx)
  case (Suc m)
  show ?case
    by (simp add: split_def Let_def)
      (rule id_frame_trans [OF id_upd_tx id_frame_trans [OF id_pool_return id_frame_trans [OF id_upd_tx Suc]]])
qed simp

lemma id_refresh: "id_frame ctx (tx_refresh_blocks p ctx)"
  unfolding tx_refresh_blocks_def Let_def by (rule id_frame_trans [OF id_upd_tx id_return_surplus])

lemma id_return_assigned: "id_frame ctx (return_assigned p ks ctx)"
proof (induction ks arbitrary: ctx)
  case (Cons k ks)
  then show ?case
    using id_frame_trans [OF id_frame_trans [OF id_pool_return id_upd_tx] Cons] by (simp add: Let_def)
qed simp

lemma id_return_recycled: "id_frame ctx (return_recycled p m ctx)"
proof (induction m arbitrary: ctx)
  case (Suc m)
  show ?case by (simp add: split_def Let_def) (rule id_frame_trans [OF id_upd_tx id_frame_trans [OF id_pool_return Suc]])
qed simp

lemma id_try_return: "id_frame ctx (try_return_blocks p ctx)"
  unfolding try_return_blocks_def Let_def
  by (simp add: id_frame_trans [OF id_return_assigned id_frame_trans [OF id_return_recycled id_upd_tx]])

lemma id_ack: "id_frame ctx (tx_reclaim_ack p seq ctx)"
proof -
  obtain newf q where a: "fifo_ack (su_depth ctx) seq (su (ports ctx p)) = (newf, q)" by fastforce
  let ?c1 = "upd_port p (\<lambda>psl. psl\<lparr>su := q\<rparr>) ctx"
  have 1: "id_frame ctx ?c1" by (rule id_upd_port) simp
  let ?c2 = "\<lambda>f. upd_tx p (\<lambda>tc. tc\<lparr>tx_f := f\<rparr>) ?c1"
  have 2: "id_frame ctx (try_return_blocks p (tx_arm_idle_tail p (if b then snd (tx_wait_make_ready p (?c2 f)) else ?c2 f)))" for b f
  proof -
    have "id_frame (?c2 f) (if b then snd (tx_wait_make_ready p (?c2 f)) else ?c2 f)"
      by (cases b) (simp_all add: id_ev ev_make_ready)
    from id_frame_trans [OF id_frame_trans [OF 1 id_upd_tx] this]
    show ?thesis by (rule id_frame_trans [OF _ id_frame_trans [OF id_ev [OF ev_arm_idle_tail] id_try_return]])
  qed
  show ?thesis
  proof (cases newf)
    case None
    with a 1 show ?thesis by (simp add: tx_reclaim_ack_def)
  next
    case (Some f)
    with a 2 [of _ f] show ?thesis unfolding tx_reclaim_ack_def Let_def by simp
  qed
qed

section \<open>Receiving\<close>

definition rx_frame :: "dpumesh_ctx \<Rightarrow> dpumesh_ctx \<Rightarrow> bool" where
  "rx_frame ctx ctx' \<longleftrightarrow> tx_frame ctx ctx' \<and> id_frame ctx ctx'"

lemma rx_frame_refl [simp]: "rx_frame ctx ctx"
  by (simp add: rx_frame_def)

lemma rx_frame_trans [trans]: "rx_frame a b \<Longrightarrow> rx_frame b c \<Longrightarrow> rx_frame a c"
  unfolding rx_frame_def by (blast intro: tx_frame_trans id_frame_trans)

lemma rx_ev: "ev_frame a b \<Longrightarrow> rx_frame a b"
  by (simp add: rx_frame_def ev_frame_tx id_ev)

text \<open>Updates of a slot that keep its transmit side and its identity.\<close>

definition keeps :: "(dmesh_port_slot \<Rightarrow> dmesh_port_slot) \<Rightarrow> dmesh_port_slot \<Rightarrow> bool" where
  "keeps f psl \<longleftrightarrow> same_slot (f psl) psl \<and> user (f psl) = user psl"

lemma rx_upd_port: "keeps f (ports ctx p) \<Longrightarrow> rx_frame ctx (upd_port p f ctx)"
  by (simp add: keeps_def rx_frame_def id_frame_def tx_frame_def tx_frame_but_def same_slot_def)

lemma rx_credit [simp]: "rx_frame ctx (rx_credit_return pos ctx)"
  by (auto simp: rx_credit_return_def rx_frame_def id_frame_def tx_frame_def tx_frame_but_def same_slot_def geo_def
      split: option.split)

lemma keeps_pop: "inbox_pop psl = Some (d, psl') \<Longrightarrow> keeps (\<lambda>_. psl') psl"
  by (auto simp: inbox_pop_def Let_def keeps_def same_slot_def split: if_splits)

lemma rx_drain_credits: "rx_frame ctx (inbox_drain_credits p n ctx)"
proof (induction n arbitrary: ctx)
  case (Suc n)
  show ?case
  proof (cases "inbox_pop (ports ctx p)")
    case (Some dp)
    then obtain d psl where e: "inbox_pop (ports ctx p) = Some (d, psl)" by (cases dp) auto
    from rx_frame_trans [OF rx_upd_port [OF keeps_pop [OF e]] rx_frame_trans [OF rx_credit Suc]] e show ?thesis by simp
  qed simp
qed simp

lemma rx_inbox_drain: "rx_frame ctx (inbox_drain p ctx)"
  by (simp add: inbox_drain_def rx_drain_credits)

lemma rx_prepare: "inbox_prepare mem p ctx = Some ctx' \<Longrightarrow> rx_frame ctx ctx'"
  by (auto simp: inbox_prepare_def rx_inbox_drain keeps_def same_slot_def intro!: rx_upd_port split: option.splits if_splits)

lemma rx_arm_ready: "rx_frame ctx (arm_ready_after_push p ctx)"
  by (auto simp: arm_ready_after_push_def Let_def intro!: rx_ev ev_frame_trans [OF ev_upd_port ev_upd_eq] split: option.split)

lemma keeps_seq: "rx_seq_accept d psl = (ok, psl') \<Longrightarrow> keeps (\<lambda>_. psl') psl"
  by (auto simp: rx_seq_accept_def Let_def keeps_def same_slot_def split: if_splits)

lemma keeps_push: "inbox_push d psl = (r, psl') \<Longrightarrow> keeps (\<lambda>_. psl') psl"
  by (auto simp: inbox_push_def Let_def keeps_def same_slot_def split: if_splits)

lemma rx_drops: "rx_frame ctx (ctx\<lparr>st_rx_inbox_drops := x\<rparr>)" "rx_frame ctx (ctx\<lparr>st_rx_accept_drops := x\<rparr>)"
  by (simp_all add: rx_frame_def id_frame_def tx_frame_def tx_frame_but_def same_slot_def geo_def)

lemma rx_deliver_inbox_frame: "rx_frame ctx (rx_deliver_inbox d slot ctx)"
proof -
  let ?p = "unat (dst_port d)"
  obtain ok psl where s: "rx_seq_accept d (ports ctx ?p) = (ok, psl)" by fastforce
  obtain r psl2 where q: "inbox_push d psl = (r, psl2)" by fastforce
  let ?c1 = "upd_port ?p (\<lambda>_. psl) ctx" and ?c2 = "upd_port ?p (\<lambda>_. psl2) (upd_port ?p (\<lambda>_. psl) ctx)"
  have 1: "rx_frame ctx ?c1" by (rule rx_upd_port [OF keeps_seq [OF s]])
  have 2: "rx_frame ?c1 ?c2" by (rule rx_upd_port) (use keeps_push [OF q] in simp)
  note 3 = rx_frame_trans [OF 1 2]
  have "rx_deliver_inbox d slot ctx = (if \<not> ok then rx_credit_return slot ?c1
      else if r = Inbox_Full then rx_credit_return slot (?c2\<lparr>st_rx_inbox_drops := st_rx_inbox_drops ?c2 + 1\<rparr>)
      else arm_ready_after_push ?p ?c2)"
    by (simp add: rx_deliver_inbox_def s q Let_def)
  then show ?thesis
    using rx_frame_trans [OF 1 rx_credit] rx_frame_trans [OF rx_frame_trans [OF 3 rx_drops(1)] rx_credit]
      rx_frame_trans [OF 3 rx_arm_ready] by simp
qed

section \<open>Taking a port into use\<close>

text \<open>The invariant of the library: ownership of the blocks, and handles and ports that name each other.\<close>

definition lib_inv :: "nat set \<Rightarrow> nat set \<Rightarrow> nat set \<Rightarrow> dpumesh_ctx \<Rightarrow> bool" where
  "lib_inv X R H ctx \<longleftrightarrow> host_inv X R ctx \<and> handles_ok H ctx"

lemma lib_rx: "lib_inv X R H ctx \<Longrightarrow> rx_frame ctx ctx' \<Longrightarrow> lib_inv X R H ctx'"
  unfolding lib_inv_def rx_frame_def using inv_frame handles_frame by blast

lemma lib_ev: "lib_inv X R H ctx \<Longrightarrow> ev_frame ctx ctx' \<Longrightarrow> lib_inv X R H ctx'"
  using lib_rx rx_ev by blast

lemma held_empty:
  assumes "host_inv X R ctx" and "nblk_owned (tx (ports ctx p)) \<le> 0"
  shows "held ctx p = {}"
proof -
  note I' = host_invD [OF assms(1)]
  from I'(1) have n: "0 < blocks_per_conn ctx" "blocks_per_conn ctx \<le> TX_BLOCKS_PER_CONN" by (auto simp: geometry_ok_def)
  from I'(3) [of p] have "chain_inv (block_size ctx) (blocks_per_conn ctx) (n_blocks (pool ctx)) (tx (ports ctx p))
      \<or> returned (tx (ports ctx p))" by (auto simp: port_ok_def slot_ok_def)
  then show ?thesis
  proof
    assume "chain_inv (block_size ctx) (blocks_per_conn ctx) (n_blocks (pool ctx)) (tx (ports ctx p))"
    then have "nblk_owned (tx (ports ctx p)) = int (length (owned (blocks_per_conn ctx) (tx (ports ctx p))))"
      by (simp add: chain_inv_def chain_blocks_def counted_def)
    with assms(2) show ?thesis by (simp add: held_def)
  next
    assume r: "returned (tx (ports ctx p))"
    with n have "shape (blocks_per_conn ctx) (tx (ports ctx p))" by (simp add: returned_def shape_def)
    from owned_nil [OF this] r show ?thesis by (simp add: held_def returned_def)
  qed
qed

lemma reset_slot_ok:
  assumes "slot_ok bs n nb depth psl" and "0 < bs" and "0 < n" and "n \<le> TX_BLOCKS_PER_CONN"
    and "tx psl' = tx (port_reset_tx psl)" and "su psl' = su (port_reset_tx psl)"
  shows "slot_ok bs n nb depth psl'" "owned n (tx psl') = []" "resv_len (tx psl') = 0" "tight bs (tx psl')"
proof -
  from assms(1) have k: "fifo_ok depth (su psl)" "length (recyc (tx psl)) = TX_BLOCKS_PER_CONN"
    by (auto simp: slot_ok_def returned_def chain_inv_def chain_blocks_def shape_def)
  have f: "fifo_ok depth (su psl')" "units depth (su psl') = []"
    using k(1) by (simp_all add: assms(6) port_reset_tx_def fifo_ok_def units_def)
  show o: "owned n (tx psl') = []" by (simp add: assms(5) port_reset_tx_def owned_def assigned_def stack_def)
  have "shape n (tx psl')" "backed n (tx psl')" "cursors bs n (tx psl')"
    using assms(2-4) k(2) by (simp_all add: assms(5) port_reset_tx_def shape_def backed_def cursors_def)
  moreover have "counted n nb (tx psl')" using o by (simp add: counted_def) (simp add: assms(5) port_reset_tx_def)
  ultimately have "chain_inv bs n nb (tx psl')" by (simp add: chain_inv_def chain_blocks_def)
  moreover have "ends_ok (tx psl') []" by (simp add: ends_ok_def assms(5) port_reset_tx_def)
  ultimately show "slot_ok bs n nb depth psl'" using f by (simp add: slot_ok_def fifo_clean_def) (simp add: assms(5) port_reset_tx_def)
  show "resv_len (tx psl') = 0" "tight bs (tx psl')" by (simp_all add: assms(5) port_reset_tx_def tight_def)
qed

lemma inv_reset:
  assumes I: "host_inv X R ctx" and "nblk_owned (tx (ports ctx p)) \<le> 0"
    and "tx (f (ports ctx p)) = tx (port_reset_tx (ports ctx p))" and "su (f (ports ctx p)) = su (port_reset_tx (ports ctx p))"
  shows "host_inv X R (upd_port p f ctx)"
proof (rule inv_slot [OF I])
  note I' = host_invD [OF I]
  have g: "0 < block_size ctx" "0 < blocks_per_conn ctx" "blocks_per_conn ctx \<le> TX_BLOCKS_PER_CONN"
    using I'(1) by (auto simp: geometry_ok_def)
  note r = reset_slot_ok [OF I'(3) [of p, unfolded port_ok_def] g assms(3,4)]
  from r(1) show "port_ok (upd_port p f ctx) p" by (simp add: port_ok_def)
  from r(3,4) show "settled X R (upd_port p f ctx) p" by (simp add: settled_def Let_def resv_ok_def)
  from r(2) held_empty [OF I assms(2)] show "set (owned (blocks_per_conn ctx) (tx (f (ports ctx p)))) = held ctx p" by simp
qed auto

lemma handles_new:
  assumes "handles_ok H ctx" and "\<not> live_role (role (ports ctx p))"
    and "live_role (role (f (ports ctx p))) \<longrightarrow> (\<exists>h \<in> H. user (f (ports ctx p)) = Some h)"
  shows "handles_ok H (upd_port p f ctx)"
  unfolding handles_alt
proof (intro conjI allI impI)
  fix h q assume h: "h \<notin> H" "map_option local_port (qps (upd_port p f ctx) h) = Some q"
  with assms(1) have "q \<noteq> 0" "live_role (role (ports ctx q))" "user (ports ctx q) = Some h" by (auto simp: handles_ok_def)
  with assms(2) show "q \<noteq> 0" "live_role (role (ports (upd_port p f ctx) q))" "user (ports (upd_port p f ctx) q) = Some h"
    by auto
next
  fix q h assume h: "h \<notin> H" "live_role (role (ports (upd_port p f ctx) q))" "user (ports (upd_port p f ctx) q) = Some h"
  then have "q \<noteq> p" using assms(3) by auto
  with h assms(1) have "map_option local_port (qps ctx h) = Some q" unfolding handles_ok_def by (metis upd_port_simps(1))
  then show "map_option local_port (qps (upd_port p f ctx) h) = Some q" by simp
next
  fix h assume "next_handle (upd_port p f ctx) \<le> h"
  then show "map_option local_port (qps (upd_port p f ctx) h) = None" using assms(1) by (simp add: handles_ok_def)
qed

lemma rx_notify_all: "rx_frame ctx (notify_all_eqs ctx)"
proof -
  have "rx_frame ctx (fold (\<lambda>i. upd_eq i g) xs ctx)" for g xs
  proof (induction xs arbitrary: ctx)
    case (Cons x xs)
    show ?case using rx_frame_trans [OF rx_ev [OF ev_upd_eq] Cons] by simp
  qed simp
  then show ?thesis by (simp add: notify_all_eqs_def)
qed

lemma rx_try_push: "rxq_try_push d ctx = Some ctx' \<Longrightarrow> rx_frame ctx ctx'"
  by (auto simp: rxq_try_push_def Let_def rx_frame_def id_frame_def tx_frame_def tx_frame_but_def same_slot_def geo_def
      split: if_splits)

lemma lib_deliver_new:
  assumes I: "lib_inv X R H ctx" and fr: "role (ports ctx (unat (dst_port d))) = ROLE_FREE"
  shows "lib_inv X R H (rx_deliver_new mem d slot ctx)"
proof (cases "nblk_owned (tx (ports ctx (unat (dst_port d)))) > 0 \<or> tx_inflight (ports ctx (unat (dst_port d)))
    \<or> inbox_prepare mem (unat (dst_port d)) ctx = None")
  case True
  then have "rx_deliver_new mem d slot ctx = rx_credit_return slot ctx" by (auto simp: rx_deliver_new_def Let_def)
  with I show ?thesis by (simp add: lib_rx)
next
  case False
  let ?p = "unat (dst_port d)"
  from False obtain c1 where c1: "inbox_prepare mem ?p ctx = Some c1" by auto
  note f1 = rx_prepare [OF c1]
  from f1 have same: "tx (ports c1 ?p) = tx (ports ctx ?p)" "role (ports c1 ?p) = ROLE_FREE"
    using tx_frame_slots [of ctx c1] fr by (auto simp: rx_frame_def)
  have I1: "lib_inv X R H c1" by (rule lib_rx [OF I f1])
  have new: "lib_inv X R H (upd_port ?p f c1)" if "tx (f (ports c1 ?p)) = tx (port_reset_tx (ports c1 ?p))"
    "su (f (ports c1 ?p)) = su (port_reset_tx (ports c1 ?p))" "\<not> live_role (role (f (ports c1 ?p)))" for f
    using I1 inv_reset [of X R c1 ?p f] handles_new [of H c1 ?p f] that same False by (auto simp: lib_inv_def live_role_def)
  let ?c2 = "upd_port ?p (pending_slot d) c1"
  have I2: "lib_inv X R H ?c2" by (rule new) (simp_all add: pending_slot_def port_reset_tx_def live_role_def)
  show ?thesis
  proof (cases "rxq_try_push d ?c2")
    case (Some c3)
    from lib_rx [OF I2 rx_frame_trans [OF rx_try_push [OF Some] rx_notify_all]] False c1 Some show ?thesis
      by (simp add: rx_deliver_new_def Let_def)
  next
    case None
    have e: "upd_port ?p (\<lambda>psl. psl\<lparr>role := ROLE_FREE\<rparr>) ?c2 = upd_port ?p (\<lambda>psl. (pending_slot d psl)\<lparr>role := ROLE_FREE\<rparr>) c1"
      by (simp add: upd_port_def)
    have "lib_inv X R H (upd_port ?p (\<lambda>psl. psl\<lparr>role := ROLE_FREE\<rparr>) ?c2)"
      unfolding e by (rule new) (simp_all add: pending_slot_def port_reset_tx_def live_role_def)
    from lib_rx [OF this rx_frame_trans [OF rx_drops(2) rx_credit]] None False c1 show ?thesis
      by (simp add: rx_deliver_new_def Let_def)
  qed
qed

lemma lib_deliver: "lib_inv X R H ctx \<Longrightarrow> lib_inv X R H (rx_deliver_desc mem d slot ctx)"
  using lib_deliver_new [of X R H ctx d mem slot] lib_rx [OF _ rx_deliver_inbox_frame, of X R H ctx d slot]
    lib_rx [OF _ rx_credit, of X R H ctx slot] by (simp add: rx_deliver_desc_def Let_def)

lemma lib_ack: "lib_inv X {} H ctx \<Longrightarrow> lib_inv X {} H (tx_reclaim_ack p seq ctx)"
  unfolding lib_inv_def using inv_ack handles_frame [OF _ id_ack] by blast

lemma lib_rev_entry:
  assumes "lib_inv X {} H ctx"
  shows "lib_inv X {} H (process_rev_entry mem e ctx)"
proof (cases e)
  case (REV_ENTRY_TX_ACK a)
  have "lib_inv X {} H (fold (\<lambda>i. tx_reclaim_ack p (g i)) xs ctx)" if "lib_inv X {} H ctx" for xs :: "nat list" and p g ctx
    using that by (induction xs arbitrary: ctx) (simp_all add: lib_ack)
  with assms REV_ENTRY_TX_ACK show ?thesis by (simp add: process_rev_entry_def)
next
  case (REV_ENTRY_DONE d)
  with assms lib_deliver show ?thesis by (simp add: process_rev_entry_def process_rx_dma_entry_def)
qed (use assms in \<open>simp add: process_rev_entry_def\<close>)

lemma lib_fold_rev: "lib_inv X {} H ctx \<Longrightarrow> lib_inv X {} H (fold (process_rev_entry mem) es ctx)"
  by (induction es arbitrary: ctx) (simp_all add: lib_rev_entry)

lemma lib_drain_stripe: "lib_inv X {} H ctx \<Longrightarrow> lib_inv X {} H (snd (drain_stripe mem ring hi n ctx))"
  by (induction n arbitrary: hi ctx) (simp_all add: Let_def lib_rev_entry)

lemma rx_rev_rings: "rx_frame ctx (ctx\<lparr>rev_rings := r\<rparr>)" "rx_frame ctx (ctx\<lparr>assist_progress := n\<rparr>)"
  by (simp_all add: rx_frame_def id_frame_def tx_frame_def tx_frame_but_def same_slot_def geo_def)

lemma lib_drain_stripes: "lib_inv X {} H ctx \<Longrightarrow> lib_inv X {} H (snd (drain_stripes mem shard ns rs budget ctx))"
proof (induction rs arbitrary: budget ctx)
  case (Cons r rs)
  show ?case
  proof (cases "budget = 0 \<or> r mod ns \<noteq> shard \<or> rev_rings ctx r = None")
    case True
    with Cons show ?thesis by auto
  next
    case False
    then obtain ring where r: "rev_rings ctx r = Some ring" by auto
    obtain hi c1 where d: "drain_stripe mem ring (rev_head ring) budget ctx = (hi, c1)" by fastforce
    let ?c2 = "if hi \<noteq> rev_head ring then c1\<lparr>rev_rings := (rev_rings c1)(r := Some (ring\<lparr>rev_head := hi, consumer_head := hi\<rparr>))\<rparr> else c1"
    have "lib_inv X {} H c1" using lib_drain_stripe [OF Cons.prems, of mem ring "rev_head ring" budget] d by simp
    then have "lib_inv X {} H ?c2" using lib_rx [OF _ rx_rev_rings(1)] by simp
    from Cons.IH [OF this, of "budget - (hi - rev_head ring)"] False r d show ?thesis
      by (cases "hi = rev_head ring") (simp_all add: Let_def split_def)
  qed
qed simp

lemma lib_assist: "lib_inv X {} H ctx \<Longrightarrow> lib_inv X {} H (snd (dpumesh_drain_assist mem e ctx))"
proof -
  assume I: "lib_inv X {} H ctx"
  let ?c1 = "upd_eq e (dmesh_eq_suppress_notify ctx 1) ctx"
  obtain n c2 where d: "drain_rev_rings_span mem 0 1 256 ?c1 = (n, c2)" by fastforce
  have "lib_inv X {} H ?c1" by (rule lib_ev [OF I ev_upd_eq])
  from lib_drain_stripes [OF this, of mem 0 1 "[0..<landing_stripes ?c1]" 256] d
  have "lib_inv X {} H c2" by (simp add: drain_rev_rings_span_def)
  then have "lib_inv X {} H (upd_eq e (dmesh_eq_suppress_notify c2 (-1)) c2)" by (rule lib_ev [OF _ ev_upd_eq])
  then show ?thesis using d lib_rx [OF _ rx_rev_rings(2)] by (simp add: dpumesh_drain_assist_def Let_def)
qed

section \<open>Allocating a port\<close>

text \<open>The \<open>i\<close>-th port a sweep of the window \<open>[1, span)\<close> looks at when it starts at \<open>s\<close>.\<close>

definition sweep_at :: "nat \<Rightarrow> nat \<Rightarrow> nat \<Rightarrow> nat" where
  "sweep_at span s i = (s - 1 + i) mod (span - 1) + 1"

lemma sweep_next:
  assumes "0 < s" and "s < span"
  shows "sweep_at span (if s + 1 \<ge> span then 1 else s + 1) i = sweep_at span s (Suc i)"
proof (cases "s + 1 \<ge> span")
  case True
  then have "span = s + 1" using assms by simp
  then show ?thesis using assms by (simp add: sweep_at_def)
qed (use assms in \<open>simp add: sweep_at_def\<close>)

lemma alloc_scan_spec:
  assumes "0 < next_port ctx" and "next_port ctx < span" and "alloc_scan span n ctx = (r, ctx')"
  shows "rx_frame ctx ctx' \<and> ports ctx' = ports ctx \<and> port_span ctx' = port_span ctx
    \<and> (case r of Some p \<Rightarrow> 0 < p \<and> p < span \<and> \<not> port_busy (ports ctx p)
       | None \<Rightarrow> \<forall>i < n. port_busy (ports ctx (sweep_at span (next_port ctx) i)))"
  using assms
proof (induction n arbitrary: ctx)
  case (Suc n)
  let ?p = "next_port ctx" and ?c = "ctx\<lparr>next_port := (if next_port ctx + 1 \<ge> span then 1 else next_port ctx + 1)\<rparr>"
  have f: "rx_frame ctx ?c"
    by (simp add: rx_frame_def id_frame_def tx_frame_def tx_frame_but_def same_slot_def geo_def)
  have p: "ports ?c = ports ctx" "port_span ?c = port_span ctx" by simp_all
  show ?case
  proof (cases "port_busy (ports ctx ?p)")
    case False
    then have "r = Some ?p" "ctx' = ?c" using Suc.prems(3) by (simp_all add: Let_def)
    with f p False Suc.prems show ?thesis by simp
  next
    case True
    have sc: "alloc_scan span n ?c = (r, ctx')" using Suc.prems(3) True by (simp add: Let_def)
    have n0: "0 < next_port ?c" "next_port ?c < span" using Suc.prems(1,2) by simp_all
    from Suc.IH [OF n0 sc] have ih: "rx_frame ?c ctx'" "ports ctx' = ports ctx" "port_span ctx' = port_span ctx"
      "case r of Some p \<Rightarrow> 0 < p \<and> p < span \<and> \<not> port_busy (ports ctx p)
       | None \<Rightarrow> \<forall>i < n. port_busy (ports ctx (sweep_at span (next_port ?c) i))" unfolding p by blast+
    have "port_busy (ports ctx (sweep_at span ?p i))" if "r = None" "i < Suc n" for i
    proof (cases i)
      case 0
      then show ?thesis using True Suc.prems(1,2) by (simp add: sweep_at_def)
    next
      case (Suc j)
      with that ih(4) have "port_busy (ports ctx (sweep_at span (next_port ?c) j))" by simp
      with sweep_next [OF Suc.prems(1,2), of j] Suc show ?thesis by simp
    qed
    with ih rx_frame_trans [OF f ih(1)] show ?thesis by (auto split: option.splits)
  qed
qed simp

lemma sweep_covers:
  assumes "0 < q" and "q < span" and "0 < s" and "s < span"
  shows "\<exists>i < span - 1. sweep_at span s i = q"
proof -
  let ?m = "span - 1"
  let ?i = "(q - 1 + (?m - (s - 1))) mod ?m"
  have "(s - 1 + ?i) mod ?m = (s - 1 + (q - 1 + (?m - (s - 1)))) mod ?m" by (rule mod_add_right_eq)
  also have "s - 1 + (q - 1 + (?m - (s - 1))) = q - 1 + ?m" using assms by simp
  also have "(q - 1 + ?m) mod ?m = (q - 1) mod ?m" by (rule mod_add_self2)
  also have "\<dots> = q - 1" using assms by simp
  finally have "sweep_at span s ?i = q" using assms by (simp add: sweep_at_def)
  moreover have "?i < ?m" using assms by simp
  ultimately show ?thesis by blast
qed

lemma rx_ports: "rx_frame ctx (ctx\<lparr>next_port := x\<rparr>)" "rx_frame ctx (ctx\<lparr>port_span := y\<rparr>)"
    "rx_frame ctx (ctx\<lparr>port_span := y, next_port := x\<rparr>)"
  by (simp_all add: rx_frame_def id_frame_def tx_frame_def tx_frame_but_def same_slot_def geo_def)

lemma alloc_sweep_spec:
  assumes "alloc_sweep ctx = (r, ctx')"
  shows "rx_frame ctx ctx' \<and> ports ctx' = ports ctx
    \<and> (case r of Some p \<Rightarrow> 0 < p \<and> p < max (port_span ctx) DMESH_UPORT_BASE \<and> \<not> port_busy (ports ctx p)
       | None \<Rightarrow> 0 < port_span ctx \<longrightarrow> (\<forall>p. 0 < p \<longrightarrow> p < DMESH_UPORT_BASE \<longrightarrow> port_busy (ports ctx p)))"
  using assms
proof (induction ctx rule: alloc_sweep.induct)
  case (1 ctx)
  let ?s = "port_span ctx" and ?c1 = "if next_port ctx = 0 \<or> next_port ctx \<ge> port_span ctx then ctx\<lparr>next_port := 1\<rparr> else ctx"
  obtain r1 c2 where sc: "alloc_scan ?s (?s - 1) ?c1 = (r1, c2)" by fastforce
  have c1: "rx_frame ctx ?c1" "ports ?c1 = ports ctx" "port_span ?c1 = ?s" using rx_ports by simp_all
  have sp: "rx_frame ?c1 c2 \<and> ports c2 = ports ?c1 \<and> port_span c2 = port_span ?c1
      \<and> (case r1 of Some p \<Rightarrow> 0 < p \<and> p < ?s \<and> \<not> port_busy (ports ?c1 p)
         | None \<Rightarrow> \<forall>i < ?s - 1. port_busy (ports ?c1 (sweep_at ?s (next_port ?c1) i)))"
  proof (cases "?s \<le> 1")
    case True
    with sc have "r1 = None" "c2 = ?c1" by (simp_all split: if_splits)
    with True show ?thesis by simp
  qed (intro alloc_scan_spec [OF _ _ sc], auto)
  have f2: "rx_frame ctx c2" using rx_frame_trans [OF c1(1)] sp by blast
  show ?case
  proof (cases r1)
    case (Some p)
    with 1(2) sc have "r = Some p" "ctx' = c2" by (simp_all add: alloc_sweep.simps [of ctx] Let_def split: if_splits)
    with sp f2 c1 Some show ?thesis by auto
  next
    case None
    have busy: "port_busy (ports ctx q)" if "0 < q" "q < ?s" for q
    proof -
      have "0 < next_port ?c1" "next_port ?c1 < ?s" using that by auto
      from sweep_covers [OF that this] sp None c1(2) show ?thesis by auto
    qed
    show ?thesis
    proof (cases "?s \<ge> DMESH_UPORT_BASE \<or> ?s = 0")
      case True
      with 1(2) sc None have "r = None" "ctx' = c2"
        by (simp_all add: alloc_sweep.simps [of ctx] Let_def split: if_splits)
      with True busy sp f2 c1 show ?thesis by auto
    next
      case False
      let ?c3 = "c2\<lparr>port_span := min (?s * 2) DMESH_UPORT_BASE, next_port := ?s\<rparr>"
      have rec: "alloc_sweep ?c3 = (r, ctx')"
        using 1(2) sc None False by (simp add: alloc_sweep.simps [of ctx] Let_def split: if_splits)
      have ih: "rx_frame ?c3 ctx' \<and> ports ctx' = ports ?c3
        \<and> (case r of Some p \<Rightarrow> 0 < p \<and> p < max (port_span ?c3) DMESH_UPORT_BASE \<and> \<not> port_busy (ports ?c3 p)
         | None \<Rightarrow> 0 < port_span ?c3 \<longrightarrow> (\<forall>p. 0 < p \<longrightarrow> p < DMESH_UPORT_BASE \<longrightarrow> port_busy (ports ?c3 p)))"
        by (rule 1(1) [OF refl refl sc [symmetric] None False rec])
      have e: "ports ?c3 = ports ctx" using sp c1 by simp
      have "rx_frame ctx ctx'" using ih rx_frame_trans [OF rx_frame_trans [OF f2 rx_ports(3)]] by blast
      with ih e False show ?thesis by (auto split: option.splits)
    qed
  qed
qed

lemma lib_alloc:
  assumes I: "lib_inv X R H ctx" and hH: "h \<in> H" and a: "dpumesh_alloc_port mem r h e ctx = (p, ctx')"
  shows "lib_inv X R H ctx' \<and> map_option local_port \<circ> qps ctx' = map_option local_port \<circ> qps ctx
    \<and> next_handle ctx' = next_handle ctx \<and> (p \<noteq> 0 \<longrightarrow> role (ports ctx' p) = r \<and> user (ports ctx' p) = Some h \<and> \<not> live_role (role (ports ctx p)))
    \<and> (\<forall>q. q \<noteq> p \<or> p = 0 \<longrightarrow> role (ports ctx' q) = role (ports ctx q) \<and> user (ports ctx' q) = user (ports ctx q))"
proof -
  obtain w c1 where s: "alloc_sweep ctx = (w, c1)" by fastforce
  note sp = alloc_sweep_spec [OF s]
  have I1: "lib_inv X R H c1" using lib_rx [OF I] sp by blast
  have q1: "map_option local_port \<circ> qps c1 = map_option local_port \<circ> qps ctx" "next_handle c1 = next_handle ctx"
    "role (ports c1 q) = role (ports ctx q)" "user (ports c1 q) = user (ports ctx q)" for q
    using sp by (simp_all add: rx_frame_def id_frame_def)
  show ?thesis
  proof (cases w)
    case None
    with a s have "p = 0" "ctx' = c1" by (simp_all add: dpumesh_alloc_port_def)
    with I1 q1 show ?thesis by simp
  next
    case (Some p')
    show ?thesis
    proof (cases "inbox_prepare mem p' c1")
      case None
      with a s Some have "p = 0" "ctx' = c1" by (simp_all add: dpumesh_alloc_port_def)
      with I1 q1 show ?thesis by simp
    next
      case c2: (Some c2)
      with a s Some have p: "p = p'" "ctx' = upd_port p (open_slot r h e) c2" by (auto simp: dpumesh_alloc_port_def)
      note f2 = rx_prepare [OF c2]
      have I2: "lib_inv X R H c2" by (rule lib_rx [OF I1 f2])
      from sp Some p(1) have busy: "\<not> port_busy (ports ctx p)" by simp
      have sl: "tx (ports c2 p) = tx (ports ctx p)" "role (ports c2 p) = role (ports ctx p)"
        using f2 sp tx_frame_slots [of c1 c2] by (auto simp: rx_frame_def)
      from busy have fr: "role (ports c2 p) = ROLE_FREE" "nblk_owned (tx (ports c2 p)) \<le> 0" by (auto simp: port_busy_def sl)
      have "host_inv X R ctx'" unfolding p(2)
        using I2 fr(2) by (intro inv_reset) (simp_all add: lib_inv_def open_slot_def port_reset_tx_def)
      moreover have "handles_ok H ctx'" unfolding p(2)
        using I2 fr(1) hH by (intro handles_new) (simp_all add: lib_inv_def live_role_def open_slot_def port_reset_tx_def)
      moreover have "map_option local_port \<circ> qps ctx' = map_option local_port \<circ> qps ctx" "next_handle ctx' = next_handle ctx"
        using f2 q1 by (simp_all add: p(2) rx_frame_def id_frame_def)
      moreover have "q \<noteq> p \<longrightarrow> role (ports ctx' q) = role (ports ctx q) \<and> user (ports ctx' q) = user (ports ctx q)" for q
        using f2 q1 by (simp add: p(2) rx_frame_def id_frame_def)
      moreover have "p \<noteq> 0" using sp Some p(1) by simp
      ultimately show ?thesis using fr(1) sl(2) by (simp add: lib_inv_def p(2) open_slot_def port_reset_tx_def live_role_def)
    qed
  qed
qed

end
