(* ===== verification/Host_Run.thy ===== *)
theory Host_Run
  imports Host_Calls
begin

text \<open>
  Runs of the host library: every sequence of API calls, polls, timer ticks and handled completions
  keeps the invariant, starting from an initialised context. The properties of the transmit side
  follow for every state such a run reaches.
\<close>

section \<open>The gate\<close>

lemma inv_gate:
  assumes I: "host_inv X R ctx" and "g \<or> resv_len (tx (ports ctx p)) = 0"
  shows "host_inv X R (upd_port p (\<lambda>psl. psl\<lparr>tx_gate := g\<rparr>) ctx)"
proof (rule inv_slot [OF I])
  note I' = host_invD [OF I]
  from I'(3) [of p] show "port_ok (upd_port p (\<lambda>psl. psl\<lparr>tx_gate := g\<rparr>) ctx) p" by (simp add: port_ok_def slot_ok_def)
  from I'(5) [of p] assms(2) show "settled X R (upd_port p (\<lambda>psl. psl\<lparr>tx_gate := g\<rparr>) ctx) p"
    by (auto simp: settled_def Let_def)
qed (auto simp: held_def)

lemma lib_gate:
  assumes "lib_inv X R H ctx" and "g \<or> resv_len (tx (ports ctx p)) = 0"
  shows "lib_inv X R H (upd_port p (\<lambda>psl. psl\<lparr>tx_gate := g\<rparr>) ctx)"
  using assms inv_gate handles_frame [OF _ id_upd_port, of H ctx "\<lambda>psl. psl\<lparr>tx_gate := g\<rparr>" p] by (simp add: lib_inv_def)

lemma gate_release_eq: "tx_gate_release = (\<lambda>psl. psl\<lparr>tx_gate := False\<rparr>)"
  by (rule ext) (simp add: tx_gate_release_def)

text \<open>What a call leaves of a port: its role, user and handle, and whether something is reserved.\<close>

definition calm :: "nat \<Rightarrow> dpumesh_ctx \<Rightarrow> dpumesh_ctx \<Rightarrow> bool" where
  "calm p ctx ctx' \<longleftrightarrow> id_frame ctx ctx' \<and> resv_len (tx (ports ctx' p)) = resv_len (tx (ports ctx p))"

lemma calm_refl [simp]: "calm p ctx ctx"
  by (simp add: calm_def)

lemma calm_trans: "calm p a b \<Longrightarrow> calm p b c \<Longrightarrow> calm p a c"
  unfolding calm_def using id_frame_trans by auto

lemma calm_ev: "ev_frame a b \<Longrightarrow> calm p a b"
  by (simp add: calm_def id_ev ev_frameD [of a b])

lemma calm_drained: "drained p a b \<Longrightarrow> calm p a b"
  by (simp add: calm_def id_drained drainedD)

lemma calmD:
  assumes "calm p a b"
  shows "role (ports b q) = role (ports a q)" "user (ports b q) = user (ports a q)"
    "resv_len (tx (ports b p)) = resv_len (tx (ports a p))" "qps a h = Some c \<Longrightarrow> \<exists>c'. qps b h = Some c' \<and> local_port c' = local_port c"
  using assms handle_port [of b a h c] by (auto simp: calm_def id_frame_def)

section \<open>Publishing\<close>

lemma lib_drain:
  assumes "lib_inv X R H ctx" and "qps ctx h = Some c" and "role (ports ctx (local_port c)) \<noteq> ROLE_FREE"
    and "local_port c \<in> R \<or> resv_len (tx (ports ctx (local_port c))) = 0"
    and "dmesh_drain_tx_locked claims h fl ctx = (r, ctx')"
  shows "lib_inv X R H ctx' \<and> calm (local_port c) ctx ctx' \<and> r \<noteq> None"
proof -
  from assms(1) have I: "host_inv X R ctx" "handles_ok H ctx" by (auto simp: lib_inv_def)
  from inv_drain [OF I(1) assms(2-4) assms(5) [unfolded dmesh_drain_tx_locked_def]]
  have d: "host_inv X R ctx'" "drained (local_port c) ctx ctx'" "r \<noteq> None" by auto
  from d handles_frame [OF I(2) id_drained [OF d(2)]] calm_drained show ?thesis by (simp add: lib_inv_def)
qed

text \<open>A handle of a call: it is known, its port is live, and nothing is reserved on it.\<close>

definition usable :: "nat \<Rightarrow> nat \<Rightarrow> dpumesh_ctx \<Rightarrow> bool" where
  "usable h p ctx \<longleftrightarrow> (\<exists>c. qps ctx h = Some c \<and> local_port c = p) \<and> role (ports ctx p) \<noteq> ROLE_FREE
     \<and> resv_len (tx (ports ctx p)) = 0"

lemma usable_calm: "usable h p a \<Longrightarrow> calm p a b \<Longrightarrow> usable h p b"
  unfolding usable_def using calmD [of p a b] by metis

lemma drain_usable:
  assumes "lib_inv X R H ctx" and "usable h p ctx" and "dmesh_drain_tx_locked claims h fl ctx = (r, ctx')"
  shows "lib_inv X R H ctx' \<and> calm p ctx ctx' \<and> r \<noteq> None"
  using assms lib_drain unfolding usable_def by blast

lemma retry_or_fail_ev: "ev_frame ctx (retry_or_fail now p (r, ctx))"
  by (auto simp: retry_or_fail_def ev_arm_tail ev_error_publish split: option.splits sum.splits)

lemma after_commit_branches:
  "x = (if a then (y, if b then u else v) else if c then d else if e then f else if g then d else z) \<Longrightarrow>
   x = (y, u) \<or> x = (y, v) \<or> x = d \<or> x = f \<or> x = z"
  by (simp split: if_splits)

lemma after_commit_lib:
  assumes I: "lib_inv X R H ctx" and u: "usable h p ctx" and e: "dmesh_tx_after_commit claims now h ctx = (r, ctx')"
  shows "lib_inv X R H ctx' \<and> calm p ctx ctx' \<and> r \<noteq> None"
proof -
  from u obtain c where c: "qps ctx h = Some c" "local_port c = p" by (auto simp: usable_def)
  show ?thesis
  proof (cases "tx_deadline_ns (ports ctx p) \<noteq> 0 \<and> tx_w (tx (ports ctx p)) - tx_s (tx (ports ctx p)) < slot_size ctx
      \<and> tx_inflight (ports ctx p)")
    case True
    with e c I show ?thesis by (auto simp: dmesh_tx_after_commit_def)
  next
    case False
    obtain r1 c1 where d: "dmesh_drain_tx_locked claims h False ctx = (r1, c1)" by fastforce
    note k = drain_usable [OF I u d]
    then obtain r2 where r1: "r1 = Some r2" by auto
    from k have I1: "lib_inv X R H c1" and c1: "calm p ctx c1" by auto
    have ev: "lib_inv X R H b \<and> calm p ctx b" if "ev_frame c1 b" for b
      using lib_ev [OF I1 that] calm_trans [OF c1 calm_ev [OF that]] by simp
    have again: ?thesis if "(r, ctx') = dmesh_drain_tx_locked claims h True (tx_disarm_tail p c1)"
    proof -
      from ev [OF ev_disarm_tail] have d1: "lib_inv X R H (tx_disarm_tail p c1)" "calm p ctx (tx_disarm_tail p c1)" by auto
      from drain_usable [OF d1(1) usable_calm [OF u d1(2)] that [symmetric]] calm_trans [OF d1(2)] show ?thesis by blast
    qed
    have fin: ?thesis if "(r, ctx') = (Some x, b)" "ev_frame c1 b" for x b
      using ev [OF that(2)] that(1) by simp
    let ?c2 = "case slot_eq (ports c1 p) of None \<Rightarrow> c1 | Some e \<Rightarrow> eq_tx_armed_clear e p c1"
    have e2: "ev_frame c1 ?c2" by (simp add: ev_armed_clear split: option.split)
    have e3: "ev_frame c1 (upd_port p (\<lambda>psl. psl\<lparr>tx_deadline_ns := 0\<rparr>) ?c2)"
      by (rule ev_frame_trans [OF e2 ev_upd_port]) simp
    note e1 = e [unfolded dmesh_tx_after_commit_def c(1) option.case Let_def c(2) if_not_P [OF False] d r1, symmetric]
    show ?thesis
    proof (cases r2)
      case (Inl x)
      with e1 have "(r, ctx') = (if x = EAGAIN then (Some (Inr ()), tx_arm_tail now p c1) else (Some (Inl x), tx_disarm_tail p c1))"
        by simp
      then show ?thesis using fin [OF _ ev_arm_tail] fin [OF _ ev_disarm_tail] by (simp split: if_splits)
    next
      case (Inr y)
      with e1 have "(r, ctx') =
         (let psl1 = ports c1 p
          in if tx_s (tx psl1) \<ge> tx_w (tx psl1) then
               (Some (Inr ()), if tx_inflight (ports ?c2 p) then ?c2 else upd_port p (\<lambda>psl. psl\<lparr>tx_deadline_ns := 0\<rparr>) ?c2)
             else if \<not> tx_inflight psl1 then dmesh_drain_tx_locked claims h True (tx_disarm_tail p c1)
             else if tx_deadline_ns psl1 = 0 then (Some (Inr ()), tx_arm_tail now p c1)
             else if now \<ge> tx_deadline_ns psl1 then dmesh_drain_tx_locked claims h True (tx_disarm_tail p c1)
             else (Some (Inr ()), c1))"
        by (simp add: Let_def)
      then have "(r, ctx') = (Some (Inr ()), ?c2) \<or> (r, ctx') = (Some (Inr ()), upd_port p (\<lambda>psl. psl\<lparr>tx_deadline_ns := 0\<rparr>) ?c2)
          \<or> (r, ctx') = dmesh_drain_tx_locked claims h True (tx_disarm_tail p c1)
          \<or> (r, ctx') = (Some (Inr ()), tx_arm_tail now p c1) \<or> (r, ctx') = (Some (Inr ()), c1)"
        unfolding Let_def by (rule after_commit_branches)
      then show ?thesis
        by (elim disjE) (erule fin [OF _ e2] fin [OF _ e3] again fin [OF _ ev_arm_tail] fin [OF _ ev_frame_refl])+
    qed
  qed
qed

lemma qp_valid_lib:
  assumes I: "lib_inv {} {} {} ctx" and v: "dmesh_tx_qp_valid h ctx = (w, ctx')"
  shows "lib_inv {} {} {} ctx' \<and> (case w of Inr p \<Rightarrow> usable h p ctx' \<and> tx_gate (ports ctx' p) \<and> p \<noteq> 0 | Inl _ \<Rightarrow> ctx' = ctx)"
proof (cases w)
  case (Inl e)
  with v I show ?thesis by (auto simp: dmesh_tx_qp_valid_def Let_def split: option.splits if_splits)
next
  case (Inr p)
  with v obtain c where c: "qps ctx h = Some c" "p = local_port c" "p \<noteq> 0" "live_role (role (ports ctx p))"
    "\<not> tx_call_open (ports ctx p)" "ctx' = upd_port p (\<lambda>psl. psl\<lparr>tx_gate := True\<rparr>) ctx"
    by (auto simp: dmesh_tx_qp_valid_def Let_def split: option.splits if_splits)
  with lib_gate [OF I, of True p] Inr show ?thesis by (auto simp: usable_def live_role_def tx_call_open_def)
qed

lemma lib_release_gate:
  assumes "lib_inv X R H ctx" and "usable h p ctx"
  shows "lib_inv X R H (upd_port p tx_gate_release ctx)"
  unfolding gate_release_eq using assms by (intro lib_gate) (auto simp: usable_def)

lemma pressure_lib:
  assumes I: "lib_inv X R H ctx" and u: "usable h p ctx"
  shows "lib_inv X R H (dmesh_tx_pressure claims now h ctx) \<and> usable h p (dmesh_tx_pressure claims now h ctx)"
proof -
  from u obtain c where c: "qps ctx h = Some c" "local_port c = p" by (auto simp: usable_def)
  let ?c1 = "tx_disarm_tail p ctx"
  have I1: "lib_inv X R H ?c1" by (rule lib_ev [OF I ev_disarm_tail])
  have u1: "usable h p ?c1" by (rule usable_calm [OF u calm_ev [OF ev_disarm_tail]])
  obtain r c2 where d: "dmesh_drain_tx_locked claims h True ?c1 = (r, c2)" by fastforce
  note k = drain_usable [OF I1 u1 d]
  have I2: "lib_inv X R H (retry_or_fail now p (r, c2))" using k lib_ev [OF _ retry_or_fail_ev] by blast
  have u2: "usable h p (retry_or_fail now p (r, c2))"
    using k usable_calm [OF u1] usable_calm [OF _ calm_ev [OF retry_or_fail_ev]] by blast
  show ?thesis using c I1 u1 I2 u2 d by (simp add: dmesh_tx_pressure_def Let_def)
qed

lemma flush_lib:
  assumes I: "lib_inv {} {} {} ctx" and e: "dmesh_flush claims h ctx = (r, ctx')"
  shows "lib_inv {} {} {} ctx' \<and> r \<noteq> None"
proof -
  obtain w c1 where v: "dmesh_tx_qp_valid h ctx = (w, c1)" by fastforce
  note k = qp_valid_lib [OF I v]
  show ?thesis
  proof (cases w)
    case (Inl x)
    with e v k I show ?thesis by (auto simp: dmesh_flush_def)
  next
    case (Inr p)
    with k have I1: "lib_inv {} {} {} c1" and u1: "usable h p c1" by auto
    obtain r2 c2 where d: "dmesh_drain_tx_locked claims h True (tx_disarm_tail p c1) = (r2, c2)" by fastforce
    note u2 = usable_calm [OF u1 calm_ev [OF ev_disarm_tail]]
    note k2 = drain_usable [OF lib_ev [OF I1 ev_disarm_tail] u2 d]
    have "lib_inv {} {} {} (upd_port p tx_gate_release c2)"
      using k2 lib_release_gate usable_calm [OF u2] by blast
    with e v Inr d k2 show ?thesis by (auto simp: dmesh_flush_def)
  qed
qed

section \<open>Retained tails\<close>

lemma armed_scan_due: "armed_scan bits due p rem n = Some q \<Longrightarrow> due q"
  by (induction n arbitrary: p rem) (auto split: if_splits)

lemma pop_due_lib:
  assumes I: "lib_inv {} {} {} ctx" and e: "eq_tx_armed_pop_due ev now ctx = Some (p, ctx')"
  shows "lib_inv {} {} {} ctx' \<and> resv_len (tx (ports ctx' p)) = 0"
proof -
  from e obtain eq where eq: "eqs ctx ev = Some eq" by (auto simp: eq_tx_armed_pop_due_def split: option.splits)
  let ?b = "snd (bitmap_clear p (tx_armed eq))"
  let ?c = "(upd_eq ev (\<lambda>eq. eq\<lparr>tx_armed := ?b\<lparr>bm_cursor := p div 64\<rparr>\<rparr>) ctx)\<lparr>tx_armed_total := tx_armed_total ctx - 1\<rparr>"
  from e eq have due: "tx_gate_try (ports ctx p) \<noteq> None"
    and c': "ctx' = upd_port p (\<lambda>psl. psl\<lparr>tx_gate := True, tx_deadline_ns := 0\<rparr>) ?c"
    by (auto simp: eq_tx_armed_pop_due_def Let_def split: option.splits dest: armed_scan_due)
  have f: "ev_frame ctx ?c" by (simp add: ev_frame_def geo_def)
  have r0: "resv_len (tx (ports ctx p)) = 0"
    using due host_invD(5) [of "{}" "{}" ctx p] I by (auto simp: tx_gate_try_def lib_inv_def settled_def Let_def split: if_splits)
  let ?g = "upd_port p (\<lambda>psl. psl\<lparr>tx_gate := True\<rparr>) ?c"
  have "lib_inv {} {} {} ?g" by (rule lib_gate [OF lib_ev [OF I f]]) simp
  moreover have "ctx' = upd_port p (\<lambda>psl. psl\<lparr>tx_deadline_ns := 0\<rparr>) ?g" by (simp add: c' upd_port_def)
  ultimately have "lib_inv {} {} {} ctx'" using lib_ev [OF _ ev_upd_port] by simp
  with r0 show ?thesis by (simp add: c')
qed

lemma publish_tail_lib:
  assumes I: "lib_inv {} {} {} ctx" and r0: "resv_len (tx (ports ctx p)) = 0"
  shows "lib_inv {} {} {} (publish_tail claims now e p ctx)"
proof (cases "live_role (role (ports ctx p)) \<and> slot_eq (ports ctx p) = Some e \<and> tx_error (ports ctx p) = None
    \<and> tx_s (tx (ports ctx p)) < tx_c (tx (ports ctx p)) \<and> user (ports ctx p) \<noteq> None")
  case False
  then have "publish_tail claims now e p ctx = upd_port p tx_gate_release ctx"
    by (auto simp: publish_tail_def Let_def)
  with lib_gate [OF I, of False p] r0 show ?thesis by (simp add: gate_release_eq)
next
  case True
  then obtain h where h: "user (ports ctx p) = Some h" by auto
  have "map_option local_port (qps ctx h) = Some p" using I True h by (auto simp: lib_inv_def handles_ok_def)
  then have u: "usable h p ctx" using True r0 by (auto simp: usable_def live_role_def)
  obtain r c1 where d: "dmesh_drain_tx_locked claims h True ctx = (r, c1)" by fastforce
  note k = drain_usable [OF I u d]
  have "lib_inv {} {} {} (retry_or_fail now p (r, c1))" "usable h p (retry_or_fail now p (r, c1))"
    using k lib_ev [OF _ retry_or_fail_ev] usable_calm [OF u] usable_calm [OF _ calm_ev [OF retry_or_fail_ev]] by blast+
  from lib_release_gate [OF this] True h d show ?thesis by (simp add: publish_tail_def Let_def)
qed

lemma publish_due_lib: "lib_inv {} {} {} ctx \<Longrightarrow> lib_inv {} {} {} (dpumesh_publish_due_tails claims now e ctx)"
proof -
  assume I: "lib_inv {} {} {} ctx"
  have loop: "lib_inv {} {} {} (publish_due_loop claims now e n c)" if "lib_inv {} {} {} c" for n c
    using that
  proof (induction n arbitrary: c)
    case (Suc n)
    show ?case
    proof (cases "eq_tx_armed_pop_due e now c")
      case (Some pc)
      obtain p c1 where pc: "pc = (p, c1)" by (cases pc)
      with pop_due_lib [OF Suc.prems] Some have "lib_inv {} {} {} c1" "resv_len (tx (ports c1 p)) = 0" by auto
      from Suc.IH [OF publish_tail_lib [OF this]] Some pc show ?thesis by simp
    qed (use Suc.prems in simp)
  qed simp
  have "lib_inv {} {} {} (eq_tx_armed_refresh e c)" if "lib_inv {} {} {} c" for c
    unfolding eq_tx_armed_refresh_def by (rule lib_ev [OF that ev_upd_eq])
  with I loop lib_ev [OF I ev_upd_eq] show ?thesis
    by (simp add: dpumesh_publish_due_tails_def del: publish_due_loop.simps split: option.split)
qed

section \<open>Closing\<close>

text \<open>Completions handled during a wait do not reserve anything.\<close>

lemma resv_return_assigned: "resv_len (tx (ports (return_assigned p ks ctx) q)) = resv_len (tx (ports ctx q))"
  by (induction ks arbitrary: ctx) (simp_all add: Let_def pool_return_fields)

lemma resv_return_recycled: "resv_len (tx (ports (return_recycled p m ctx) q)) = resv_len (tx (ports ctx q))"
  by (induction m arbitrary: ctx) (simp_all add: Let_def split_def pool_return_fields pop_recycled_def)

lemma resv_try_return: "resv_len (tx (ports (try_return_blocks p ctx) q)) = resv_len (tx (ports ctx q))"
  by (simp add: try_return_blocks_def Let_def resv_return_assigned resv_return_recycled)

lemma resv_ack: "resv_len (tx (ports (tx_reclaim_ack p seq ctx) q)) = resv_len (tx (ports ctx q))"
proof -
  obtain newf qq where a: "fifo_ack (su_depth ctx) seq (su (ports ctx p)) = (newf, qq)" by fastforce
  show ?thesis
    by (simp add: tx_reclaim_ack_def a Let_def resv_try_return ev_frameD(1) [OF ev_arm_idle_tail]
        ev_frameD(1) [OF ev_make_ready] split: option.split)
qed

lemma resv_rx: "rx_frame a b \<Longrightarrow> tx (ports b q) = tx (ports a q)"
  by (simp add: rx_frame_def tx_frame_slots)

lemma resv_deliver_new:
  assumes "resv_len (tx (ports ctx q)) = 0"
  shows "resv_len (tx (ports (rx_deliver_new mem d slot ctx) q)) = 0"
proof (cases "inbox_prepare mem (unat (dst_port d)) ctx")
  case None
  with assms show ?thesis by (simp add: rx_deliver_new_def Let_def resv_rx [OF rx_credit])
next
  case (Some c1)
  let ?p = "unat (dst_port d)"
  let ?c2 = "upd_port ?p (pending_slot d) c1"
  have z: "resv_len (tx (ports ?c2 q)) = 0"
    using assms resv_rx [OF rx_prepare [OF Some]] by (simp add: pending_slot_def port_reset_tx_def)
  have "resv_len (tx (ports c3 q)) = 0" if "rxq_try_push d ?c2 = Some c3" for c3
    using z resv_rx [OF rx_try_push [OF that], of q] by simp
  with Some assms z show ?thesis
    by (cases "q = ?p") (simp_all add: rx_deliver_new_def Let_def resv_rx [OF rx_credit] resv_rx [OF rx_notify_all] split: option.split)
qed

lemma resv_rev_entry:
  assumes "resv_len (tx (ports ctx q)) = 0"
  shows "resv_len (tx (ports (process_rev_entry mem e ctx) q)) = 0"
proof (cases e)
  case (REV_ENTRY_TX_ACK a)
  have "resv_len (tx (ports (fold (\<lambda>i. tx_reclaim_ack p (g i)) xs c) q)) = resv_len (tx (ports c q))" for xs :: "nat list" and p g c
    by (induction xs arbitrary: c) (simp_all add: resv_ack)
  with REV_ENTRY_TX_ACK assms show ?thesis by (simp add: process_rev_entry_def)
next
  case (REV_ENTRY_DONE d)
  then show ?thesis
    using assms resv_deliver_new [OF assms] resv_rx [OF rx_deliver_inbox_frame] resv_rx [OF rx_credit]
    by (simp add: process_rev_entry_def process_rx_dma_entry_def rx_deliver_desc_def Let_def)
qed (use assms in \<open>simp add: process_rev_entry_def\<close>)

lemma wait_reclaimed_lib:
  assumes I: "lib_inv X {} H ctx" and e: "dmesh_wait_tx_reclaimed_locked mem acks p ctx = (r, ctx')"
  shows "lib_inv X {} H ctx' \<and> (resv_len (tx (ports ctx p)) = 0 \<longrightarrow> resv_len (tx (ports ctx' p)) = 0)"
proof -
  have "resv_len (tx (ports (fold (process_rev_entry mem) acks c) p)) = 0" if "resv_len (tx (ports c p)) = 0" for c
    using that by (induction acks arbitrary: c) (simp_all add: resv_rev_entry)
  with I e lib_fold_rev [OF I, of mem acks] show ?thesis
    by (auto simp: dmesh_wait_tx_reclaimed_locked_def Let_def split: if_splits)
qed

lemma send_marker_lib:
  assumes I: "lib_inv X R H ctx" and e: "send_marker claims mem h pod ctx = (r, ctx')"
  shows "lib_inv X R H ctx' \<and> calm p ctx ctx'"
proof (cases "qps ctx h")
  case None
  with e I show ?thesis by (simp add: send_marker_def)
next
  case (Some c)
  let ?p = "local_port c"
  show ?thesis
  proof (cases "fin_sent c \<or> isl (tx_tracking_ensure mem (su_depth ctx) (su (ports ctx ?p)))")
    case True
    with e I Some show ?thesis by (auto simp: send_marker_def Let_def split: sum.splits if_splits)
  next
    case False
    then obtain q where q: "tx_tracking_ensure mem (su_depth ctx) (su (ports ctx ?p)) = Inr q"
      by (cases "tx_tracking_ensure mem (su_depth ctx) (su (ports ctx ?p))") auto
    let ?c1 = "upd_port ?p (\<lambda>psl. psl\<lparr>su := q\<rparr>) ctx"
    have f1: "id_frame ctx ?c1" by (rule id_upd_port) simp
    obtain w c2 where t: "track_and_post claims ?p (marker_desc c (pod c)) 0 ?c1 = (w, c2)" by fastforce
    have "desc_in_block ?c1 (fill_dma_desc ?c1 (marker_desc c (pod c)))"
      by (simp add: desc_in_block_def fill_dma_desc_def marker_desc_def empty_sw_descriptor_def)
    moreover have "host_inv X R ?c1" using I by (intro inv_ensure [OF _ q]) (simp add: lib_inv_def)
    moreover have "may_send 0 (ports ?c1 ?p)" by (simp add: may_send_def)
    ultimately have tp: "host_inv X R c2 \<and> sent_on ?p (case w of
        Inr _ \<Rightarrow> (tx (ports ?c1 ?p))\<lparr>tx_s := tx_s (tx (ports ?c1 ?p)) + 0\<rparr> | Inl _ \<Rightarrow> tx (ports ?c1 ?p)) ?c1 c2"
      using inv_track_post t by blast
    then have k: "host_inv X R c2" "drained ?p ?c1 c2"
      unfolding drained_def by (blast, cases w, auto)
    have f2: "id_frame ctx c2" by (rule id_frame_trans [OF f1 id_drained [OF k(2)]])
    have z: "resv_len (tx (ports c2 p)) = resv_len (tx (ports ctx p))"
      using drainedD(1,5) [OF k(2)] tx_frame_butD(1) [of "{?p}" ?c1 c2 p] by (cases "p = ?p") (auto simp: same_slot_def)
    have I2: "lib_inv X R H c2" using k(1) I handles_frame [OF _ f2] by (simp add: lib_inv_def)
    let ?f = "\<lambda>c. c\<lparr>qp_seq := qp_seq c + 1, fin_sent := True\<rparr>"
    have f3: "rx_frame c2 (upd_qp h ?f c2)"
      using id_upd_qp [of ?f c2 h] by (simp add: rx_frame_def tx_frame_def tx_frame_but_def same_slot_def upd_qp_def geo_def)
    have "ctx' = c2 \<or> ctx' = upd_qp h ?f c2" using e Some q t False by (auto simp: send_marker_def Let_def split: sum.splits)
    then show ?thesis
      using I2 f2 z lib_rx [OF I2 f3] f3 id_frame_trans [OF f2] resv_rx [OF f3] by (auto simp: calm_def rx_frame_def)
  qed
qed

lemma handles_drop:
  assumes "handles_ok H ctx" and "\<And>h. user (ports ctx p) = Some h \<Longrightarrow> h \<in> H" and "\<not> live_role r"
  shows "handles_ok H (upd_port p (\<lambda>psl. psl\<lparr>role := r\<rparr>) ctx)"
  unfolding handles_alt
proof (intro conjI allI impI)
  fix h q assume h: "h \<notin> H" "map_option local_port (qps (upd_port p (\<lambda>psl. psl\<lparr>role := r\<rparr>) ctx) h) = Some q"
  with assms(1) have k: "q \<noteq> 0" "live_role (role (ports ctx q))" "user (ports ctx q) = Some h" by (auto simp: handles_ok_def)
  with assms(2) h(1) have "q \<noteq> p" by auto
  with k show "q \<noteq> 0" "live_role (role (ports (upd_port p (\<lambda>psl. psl\<lparr>role := r\<rparr>) ctx) q))"
    "user (ports (upd_port p (\<lambda>psl. psl\<lparr>role := r\<rparr>) ctx) q) = Some h" by auto
next
  fix q h assume h: "h \<notin> H" "live_role (role (ports (upd_port p (\<lambda>psl. psl\<lparr>role := r\<rparr>) ctx) q))"
    "user (ports (upd_port p (\<lambda>psl. psl\<lparr>role := r\<rparr>) ctx) q) = Some h"
  then have "q \<noteq> p" using assms(3) by auto
  with h have "live_role (role (ports ctx q))" "user (ports ctx q) = Some h" by simp_all
  with h(1) assms(1) show "map_option local_port (qps (upd_port p (\<lambda>psl. psl\<lparr>role := r\<rparr>) ctx) h) = Some q"
    by (simp add: handles_ok_def)
next
  fix h assume "next_handle (upd_port p (\<lambda>psl. psl\<lparr>role := r\<rparr>) ctx) \<le> h"
  then show "map_option local_port (qps (upd_port p (\<lambda>psl. psl\<lparr>role := r\<rparr>) ctx) h) = None"
    using assms(1) by (simp add: handles_ok_def)
qed

lemma free_role_lib:
  assumes I: "lib_inv {p} {} H ctx" and u: "\<And>h. user (ports ctx p) = Some h \<Longrightarrow> h \<in> H"
  shows "lib_inv {} {} H (upd_port p (\<lambda>psl. psl\<lparr>role := ROLE_FREE\<rparr>) ctx)"
proof -
  let ?f = "\<lambda>psl. psl\<lparr>role := ROLE_FREE\<rparr>"
  from I have h: "host_inv {p} {} ctx" and ha: "handles_ok H ctx" by (auto simp: lib_inv_def)
  note I' = host_invD [OF h]
  have "host_inv {} {} (upd_port p ?f ctx)"
  proof (rule inv_slot [OF h])
    from I'(3) [of p] show "port_ok (upd_port p ?f ctx) p" by (auto simp: port_ok_def slot_ok_def)
    from I'(5) [of p] show "settled {} {} (upd_port p ?f ctx) p" by (simp add: settled_def Let_def)
  qed (auto simp: held_def)
  moreover have "handles_ok H (upd_port p ?f ctx)" by (rule handles_drop [OF ha u]) (simp_all add: live_role_def)
  ultimately show ?thesis by (simp add: lib_inv_def)
qed

lemma free_clear_lib:
  assumes I: "lib_inv {} {} H ctx" and r: "role (ports ctx p) = ROLE_FREE"
  shows "lib_inv {} {} H (upd_port p (\<lambda>psl. psl\<lparr>tx_deadline_ns := 0, tx_error := None, user := None, slot_eq := None\<rparr>) ctx)"
    (is "lib_inv _ _ _ (upd_port p ?f ctx)")
proof -
  from I have h: "host_inv {} {} ctx" and ha: "handles_ok H ctx" by (auto simp: lib_inv_def)
  have "tx_frame ctx (upd_port p ?f ctx)" by (simp add: tx_frame_def tx_frame_but_def same_slot_def geo_def)
  then have "host_inv {} {} (upd_port p ?f ctx)" by (rule inv_frame [OF h])
  moreover have "handles_ok H (upd_port p ?f ctx)"
    by (rule handles_new [OF ha]) (simp_all add: r live_role_def)
  ultimately show ?thesis by (simp add: lib_inv_def)
qed

lemma free_return_lib:
  assumes I: "lib_inv {} {} H ctx"
  shows "lib_inv {} {} H (try_return_blocks p ctx)"
  using assms inv_try_return [of "{}" ctx p] handles_frame [OF _ id_try_return, of H ctx p] unfolding lib_inv_def by blast

lemma qps_return [simp]: "qps (return_assigned p ks c) = qps c" "qps (return_recycled p m c) = qps c"
  "qps (inbox_drain_credits p m c) = qps c"
proof -
  show "qps (return_assigned p ks c) = qps c" by (induction ks arbitrary: c) (simp_all add: Let_def pool_return_fields)
  show "qps (return_recycled p m c) = qps c" by (induction m arbitrary: c) (simp_all add: Let_def split_def pool_return_fields)
  show "qps (inbox_drain_credits p m c) = qps c"
    by (induction m arbitrary: c) (auto simp: rx_credit_return_def split: option.split)
qed

lemma free_port_lib:
  assumes I: "lib_inv {p} {} H ctx" and p: "p \<noteq> 0" and u: "\<And>h. user (ports ctx p) = Some h \<Longrightarrow> h \<in> H"
  shows "lib_inv {} {} H (dpumesh_free_port p ctx)" "qps (dpumesh_free_port p ctx) = qps ctx"
proof -
  define c0 where "c0 = upd_port p (\<lambda>psl. psl\<lparr>role := ROLE_FREE\<rparr>) ctx"
  define c1 where "c1 = tx_wait_cancel p c0"
  define c2 where "c2 = (case slot_eq (ports c1 p) of None \<Rightarrow> c1
    | Some e \<Rightarrow> eq_tx_armed_clear e p (upd_eq e (eq_tx_error_clear p) c1))"
  define c3 where "c3 = upd_port p (\<lambda>psl. psl\<lparr>tx_deadline_ns := 0, tx_error := None, user := None, slot_eq := None\<rparr>) c2"
  define c4 where "c4 = try_return_blocks p c3"
  define c5 where "c5 = (if inbox (ports c4 p) \<noteq> None then inbox_drain p c4 else c4)"
  have e: "dpumesh_free_port p ctx = upd_port p (\<lambda>psl. psl\<lparr>on_ready := False\<rparr>) c5"
    unfolding dpumesh_free_port_def Let_def if_not_P [OF p] c0_def c1_def c2_def c3_def c4_def c5_def ..
  have f1: "ev_frame c0 c1" unfolding c1_def by (rule ev_cancel)
  have "ev_frame c1 c2" unfolding c2_def
    by (cases "slot_eq (ports c1 p)") (simp_all add: ev_frame_trans [OF ev_upd_eq ev_armed_clear])
  with f1 have f2: "ev_frame c0 c2" by (rule ev_frame_trans)
  have I2: "lib_inv {} {} H c2" by (rule lib_ev [OF free_role_lib [OF I u] f2 [unfolded c0_def]])
  have r2: "role (ports c2 p) = ROLE_FREE" using ev_frameD(3) [OF f2, of p] by (simp add: c0_def)
  have I4: "lib_inv {} {} H c4" unfolding c4_def c3_def by (rule free_return_lib [OF free_clear_lib [OF I2 r2]])
  have I5: "lib_inv {} {} H c5" using I4 lib_rx [OF I4 rx_inbox_drain] by (simp add: c5_def)
  show "lib_inv {} {} H (dpumesh_free_port p ctx)" unfolding e by (rule lib_ev [OF I5 ev_upd_port]) simp
  have "qps c2 = qps ctx" using ev_frameD(8) [OF f2] by (simp add: c0_def)
  then show "qps (dpumesh_free_port p ctx) = qps ctx"
    unfolding e c5_def c4_def c3_def by (simp add: inbox_drain_def try_return_blocks_def Let_def)
qed

lemma conn_free_rx_frame: "rx_frame ctx (conn_free_rx h ctx)"
proof (cases "qps ctx h")
  case (Some c)
  let ?f = "\<lambda>c. c\<lparr>qp_rx_slot := -1, qp_rx_len := 0\<rparr>"
  have q: "rx_frame c' (upd_qp h ?f c')" for c'
    using id_upd_qp [of ?f c' h] by (simp add: rx_frame_def tx_frame_def tx_frame_but_def same_slot_def upd_qp_def geo_def)
  show ?thesis using Some q rx_frame_trans [OF rx_credit q] by (simp add: conn_free_rx_def dpumesh_rx_free_def)
qed (simp add: conn_free_rx_def)

lemma discard_lib:
  assumes "lib_inv X R H ctx"
  shows "lib_inv (insert p X) (R - {p}) H (dpumesh_tx_discard_unsent p ctx)" "id_frame ctx (dpumesh_tx_discard_unsent p ctx)"
proof -
  show f: "id_frame ctx (dpumesh_tx_discard_unsent p ctx)" by (simp add: dpumesh_tx_discard_unsent_def Let_def)
  show "lib_inv (insert p X) (R - {p}) H (dpumesh_tx_discard_unsent p ctx)"
    using assms inv_discard handles_frame [OF _ f] by (simp add: lib_inv_def)
qed

end
