(* ===== verification/Host_Close.thy ===== *)
theory Host_Close
  imports Host_Run
begin

text \<open>
  Closing and opening a connection under the invariant: the end-of-stream marker, the release of a
  connection with its flush, wait and discard, and the handles a new connection is given.
\<close>

section \<open>End of stream\<close>

lemma send_fin_lib:
  assumes I: "lib_inv {} {} {} ctx" and e: "dmesh_send_fin claims mem acks h ctx = (r, ctx')"
  shows "lib_inv {} {} {} ctx' \<and> r \<noteq> None"
proof -
  obtain w c1 where v: "dmesh_tx_qp_valid h ctx = (w, c1)" by fastforce
  note k = qp_valid_lib [OF I v]
  show ?thesis
  proof (cases w)
    case (Inl x)
    with e v k I show ?thesis by (auto simp: dmesh_send_fin_def)
  next
    case (Inr p)
    with k have I1: "lib_inv {} {} {} c1" and u1: "usable h p c1" by auto
    obtain r2 c2 where d: "dmesh_drain_tx_locked claims h True (tx_disarm_tail p c1) = (r2, c2)" by fastforce
    note u2 = usable_calm [OF u1 calm_ev [OF ev_disarm_tail]]
    from drain_usable [OF lib_ev [OF I1 ev_disarm_tail] u2 d]
    have I2: "lib_inv {} {} {} c2" and r2: "r2 \<noteq> None" and z2: "resv_len (tx (ports c2 p)) = 0"
      using u2 by (auto simp: usable_def calm_def)
    have fin: ?thesis if "r = s" "ctx' = upd_port p tx_gate_release c" "lib_inv {} {} {} c" "s \<noteq> None" "resv_len (tx (ports c p)) = 0" for s c
      using lib_gate [OF that(3), of False p] that by (simp add: gate_release_eq)
    obtain w3 c3 where wt: "dmesh_wait_tx_reclaimed_locked mem acks p c2 = (w3, c3)" by fastforce
    from wait_reclaimed_lib [OF I2 wt] z2 have I3: "lib_inv {} {} {} c3" "resv_len (tx (ports c3 p)) = 0" by auto
    obtain w4 c4 where m: "dmesh_send_fin_locked claims mem h c3 = (w4, c4)" by fastforce
    from send_marker_lib [OF I3(1) m [unfolded dmesh_send_fin_locked_def], of p] I3(2)
    have I4: "lib_inv {} {} {} c4" "resv_len (tx (ports c4 p)) = 0" by (auto simp: calm_def)
    show ?thesis
    proof (cases r2)
      case (Some y)
      then show ?thesis
      proof (cases y)
        case (Inl x)
        with e v Inr d Some show ?thesis by (intro fin [OF _ _ I2 _ z2, of r]) (auto simp: dmesh_send_fin_def)
      next
        case y: (Inr u)
        show ?thesis
        proof (cases w3)
          case (Inl x)
          with e v Inr d Some y wt show ?thesis by (intro fin [OF _ _ I3(1) _ I3(2), of r]) (auto simp: dmesh_send_fin_def)
        next
          case w3: (Inr u)
          with e v Inr d Some y wt m show ?thesis by (intro fin [OF _ _ I4(1) _ I4(2), of r]) (auto simp: dmesh_send_fin_def)
        qed
      qed
    qed (use r2 in simp)
  qed
qed

section \<open>Release\<close>

text \<open>Which port a handle names; only opening and releasing change it.\<close>

definition named :: "dpumesh_ctx \<Rightarrow> nat \<Rightarrow> nat option" where
  "named ctx h = map_option local_port (qps ctx h)"

lemma named_live:
  assumes "lib_inv X R {} ctx" and "named ctx h = Some p"
  shows "p \<noteq> 0" "live_role (role (ports ctx p))" "user (ports ctx p) = Some h" "role (ports ctx p) \<noteq> ROLE_FREE"
proof -
  show "p \<noteq> 0" "live_role (role (ports ctx p))" "user (ports ctx p) = Some h"
    using assms by (auto simp: lib_inv_def handles_ok_def named_def)
  then show "role (ports ctx p) \<noteq> ROLE_FREE" by (auto simp: live_role_def)
qed

lemma named_id: "id_frame a b \<Longrightarrow> named b = named a"
  by (rule ext) (auto simp: named_def id_frame_def dest: fun_cong)

lemma named_rx: "rx_frame a b \<Longrightarrow> named b = named a"
  by (rule named_id) (simp add: rx_frame_def)

lemma named_deliver_new: "named (rx_deliver_new mem d slot ctx) = named ctx"
proof (cases "inbox_prepare mem (unat (dst_port d)) ctx")
  case None
  then show ?thesis by (simp add: rx_deliver_new_def Let_def named_rx [OF rx_credit])
next
  case (Some c1)
  let ?p = "unat (dst_port d)"
  let ?c2 = "upd_port ?p (pending_slot d) c1"
  have z: "named (upd_port ?p f c) = named c" for f c by (rule ext) (simp add: named_def)
  have st: "named (c\<lparr>st_rx_accept_drops := n\<rparr>) = named c" for n c by (rule ext) (simp add: named_def)
  have "named c3 = named c1" if "rxq_try_push d ?c2 = Some c3" for c3
    using named_rx [OF rx_try_push [OF that]] z by simp
  with Some named_rx [OF rx_prepare [OF Some]] z show ?thesis
    by (simp add: st rx_deliver_new_def Let_def named_rx [OF rx_credit] named_rx [OF rx_notify_all] split: option.split)
qed

lemma named_rev_entry: "named (process_rev_entry mem e ctx) = named ctx"
proof (cases e)
  case (REV_ENTRY_TX_ACK a)
  have "named (fold (\<lambda>i. tx_reclaim_ack p (g i)) xs c) = named c" for xs :: "nat list" and p g c
    by (induction xs arbitrary: c) (simp_all add: named_id [OF id_ack])
  with REV_ENTRY_TX_ACK show ?thesis by (simp add: process_rev_entry_def)
next
  case (REV_ENTRY_DONE d)
  then show ?thesis
    by (simp add: process_rev_entry_def process_rx_dma_entry_def rx_deliver_desc_def Let_def named_deliver_new
        named_rx [OF rx_deliver_inbox_frame] named_rx [OF rx_credit])
qed (simp add: process_rev_entry_def)

lemma named_wait: "dmesh_wait_tx_reclaimed_locked mem acks p ctx = (r, ctx') \<Longrightarrow> named ctx' = named ctx"
proof -
  have "named (fold (process_rev_entry mem) acks c) = named c" for c
    by (induction acks arbitrary: c) (simp_all add: named_rev_entry)
  then show "dmesh_wait_tx_reclaimed_locked mem acks p ctx = (r, ctx') \<Longrightarrow> named ctx' = named ctx"
    by (auto simp: dmesh_wait_tx_reclaimed_locked_def Let_def split: if_splits)
qed

lemma release_flush_lib:
  assumes I: "lib_inv X {p} {} ctx" and n: "named ctx h = Some p" and e: "release_flush claims graceful h ctx = (s, ctx')"
  shows "lib_inv X {p} {} ctx' \<and> named ctx' = named ctx"
proof (cases graceful)
  case True
  from n obtain c where c: "qps ctx h = Some c" "local_port c = p" by (auto simp: named_def)
  have "role (ports ctx (local_port c)) \<noteq> ROLE_FREE" using named_live(4) [OF I n] c(2) by simp
  moreover obtain r c1 where d: "dmesh_drain_tx_locked claims h True ctx = (r, c1)" by fastforce
  ultimately have k: "lib_inv X {p} {} c1" "calm p ctx c1" using lib_drain [OF I c(1) _ _ d] c(2) by auto
  have "ctx' = c1" using e True d by (auto simp: release_flush_def split: option.splits sum.splits)
  with k named_id show ?thesis by (auto simp: calm_def)
qed (use I e in \<open>simp add: release_flush_def\<close>)

lemma release_wait_lib:
  assumes "lib_inv X {} H ctx" and "release_wait mem acks p (s, ctx) = (s', ctx')"
  shows "lib_inv X {} H ctx' \<and> named ctx' = named ctx"
proof -
  obtain r c1 where w: "dmesh_wait_tx_reclaimed_locked mem acks p ctx = (r, c1)" by fastforce
  obtain res reset where s: "s = (res, reset)" by (cases s)
  have "ctx' = ctx \<or> ctx' = c1" using assms(2) w s by (auto simp: release_wait_def split: if_splits sum.splits)
  with assms(1) wait_reclaimed_lib [OF assms(1) w] named_wait [OF w] show ?thesis by auto
qed

lemma release_end_lib:
  assumes I: "lib_inv X R H ctx" and e: "release_end claims mem h (s, ctx) = (res, ctx')"
  shows "lib_inv X R H ctx' \<and> named ctx' = named ctx"
proof -
  obtain r0 reset where s: "s = (r0, reset)" by (cases s)
  obtain w1 c1 where a: "dmesh_send_abort_locked claims mem h ctx = (w1, c1)" by fastforce
  obtain w2 c2 where f: "dmesh_send_fin_locked claims mem h ctx = (w2, c2)" by fastforce
  have "ctx' = ctx \<or> ctx' = c1 \<or> ctx' = c2"
    using e a f s by (auto simp: release_end_def split: option.splits if_splits sum.splits)
  with I send_marker_lib [OF I a [unfolded dmesh_send_abort_locked_def]]
    send_marker_lib [OF I f [unfolded dmesh_send_fin_locked_def]] named_id show ?thesis by (auto simp: calm_def)
qed

lemma lib_weaken: "lib_inv X R {} ctx \<Longrightarrow> lib_inv X R H ctx"
  by (auto simp: lib_inv_def handles_ok_def)

lemma lib_relax: "lib_inv X {} H ctx \<Longrightarrow> lib_inv X R H ctx"
  by (simp add: lib_inv_def host_inv_def settled_def Let_def)

lemma handles_forget:
  assumes "handles_ok {h} ctx" and "\<And>q. live_role (role (ports ctx q)) \<Longrightarrow> user (ports ctx q) \<noteq> Some h"
  shows "handles_ok {} (ctx\<lparr>qps := (qps ctx)(h := None)\<rparr>)"
  using assms unfolding handles_ok_def by (auto split: if_splits)

lemma free_port_gone:
  assumes "p \<noteq> 0" shows "\<not> live_role (role (ports (dpumesh_free_port p ctx) p))"
    "q \<noteq> p \<Longrightarrow> role (ports (dpumesh_free_port p ctx) q) = role (ports ctx q) \<and> user (ports (dpumesh_free_port p ctx) q) = user (ports ctx q)"
proof -
  let ?c1 = "tx_wait_cancel p (upd_port p (\<lambda>psl. psl\<lparr>role := ROLE_FREE\<rparr>) ctx)"
  define c2 where "c2 = (case slot_eq (ports ?c1 p) of None \<Rightarrow> ?c1
    | Some e \<Rightarrow> eq_tx_armed_clear e p (upd_eq e (eq_tx_error_clear p) ?c1))"
  define c3 where "c3 = upd_port p (\<lambda>psl. psl\<lparr>tx_deadline_ns := 0, tx_error := None, user := None, slot_eq := None\<rparr>) c2"
  define c5 where "c5 = (if inbox (ports (try_return_blocks p c3) p) \<noteq> None then inbox_drain p (try_return_blocks p c3)
    else try_return_blocks p c3)"
  have e: "dpumesh_free_port p ctx = upd_port p (\<lambda>psl. psl\<lparr>on_ready := False\<rparr>) c5"
    unfolding dpumesh_free_port_def Let_def if_not_P [OF assms] c2_def c3_def c5_def ..
  have "ev_frame ?c1 c2" unfolding c2_def
    by (cases "slot_eq (ports ?c1 p)") (simp_all add: ev_frame_trans [OF ev_upd_eq ev_armed_clear])
  from ev_frame_trans [OF ev_cancel this] have f: "ev_frame (upd_port p (\<lambda>psl. psl\<lparr>role := ROLE_FREE\<rparr>) ctx) c2" .
  have "rx_frame (try_return_blocks p c3) (inbox_drain p (try_return_blocks p c3))" by (rule rx_inbox_drain)
  then have "id_frame (try_return_blocks p c3) c5" by (simp add: c5_def rx_frame_def)
  from id_frame_trans [OF id_try_return this] have g: "id_frame c3 c5" .
  show "\<not> live_role (role (ports (dpumesh_free_port p ctx) p))"
    unfolding e using g ev_frameD(3) [OF f, of p] by (simp add: id_frame_def c3_def live_role_def)
  assume "q \<noteq> p"
  with g ev_frameD(3) [OF f, of q] ev_frameD(5) [OF f, of q]
  show "role (ports (dpumesh_free_port p ctx) q) = role (ports ctx q) \<and> user (ports (dpumesh_free_port p ctx) q) = user (ports ctx q)"
    unfolding e by (simp add: id_frame_def c3_def)
qed

lemma free_named_lib:
  assumes I: "lib_inv {p} {} {} ctx" and n: "named ctx h = Some p"
  defines "ctx' \<equiv> dpumesh_free_port p ctx"
  shows "lib_inv {} {} {} (ctx'\<lparr>qps := (qps ctx')(h := None)\<rparr>)"
proof -
  note l = named_live [OF I n]
  have k: "lib_inv {} {} {h} ctx'" unfolding ctx'_def
    using l(3) by (intro free_port_lib(1) [OF lib_weaken [OF I] l(1)]) simp
  have "user (ports ctx' q) \<noteq> Some h" if "live_role (role (ports ctx' q))" for q
  proof
    assume u: "user (ports ctx' q) = Some h"
    have "q \<noteq> p" using that free_port_gone(1) [OF l(1)] by (auto simp: ctx'_def)
    with that u free_port_gone(2) [OF l(1), of q ctx] have "live_role (role (ports ctx q))" "user (ports ctx q) = Some h"
      by (simp_all add: ctx'_def)
    with I have "named ctx h = Some q" by (simp add: lib_inv_def handles_ok_def named_def)
    with n \<open>q \<noteq> p\<close> show False by simp
  qed
  then have "handles_ok {} (ctx'\<lparr>qps := (qps ctx')(h := None)\<rparr>)"
    using k by (intro handles_forget) (simp_all add: lib_inv_def)
  moreover have "tx_frame ctx' (ctx'\<lparr>qps := (qps ctx')(h := None)\<rparr>)"
    by (simp add: tx_frame_def tx_frame_but_def same_slot_def geo_def)
  ultimately show ?thesis using k inv_frame unfolding lib_inv_def by blast
qed

lemma release_lib:
  assumes I: "lib_inv {} {} {} ctx"
  shows "lib_inv {} {} {} (snd (dmesh_release_qp claims mem acks graceful h ctx))"
proof (cases "qps ctx h")
  case (Some c)
  let ?p = "local_port c"
  define c1 where "c1 = upd_eq (qp_eq c) (\<lambda>eq. if drain_cur eq = Some h then eq\<lparr>drain_cur := None\<rparr> else eq) ctx"
  define c2 where "c2 = tx_disarm_tail ?p (upd_port ?p (\<lambda>psl. psl\<lparr>tx_gate := True\<rparr>) c1)"
  obtain s c3 where f: "release_flush claims graceful h c2 = (s, c3)" by fastforce
  obtain s1 c4 where w: "release_wait mem acks ?p (s, dpumesh_tx_discard_unsent ?p c3) = (s1, c4)" by fastforce
  obtain res c5 where en: "release_end claims mem h (s1, c4) = (res, c5)" by fastforce
  define c6 where "c6 = upd_port ?p tx_gate_release (conn_free_rx h c5)"
  define c7 where "c7 = dpumesh_free_port ?p c6"
  have e: "snd (dmesh_release_qp claims mem acks graceful h ctx)
      = (let c8 = upd_eq (qp_eq c) (\<lambda>eq. eq\<lparr>nqp := nqp eq - 1\<rparr>) c7 in c8\<lparr>qps := (qps c8)(h := None)\<rparr>)"
    using f w en by (simp add: dmesh_release_qp_def Some Let_def c1_def c2_def c6_def c7_def)
  have I2: "lib_inv {} {} {} c2" unfolding c2_def c1_def
    by (rule lib_ev [OF lib_gate [OF lib_ev [OF I ev_upd_eq]] ev_disarm_tail]) simp
  have "id_frame (upd_port ?p (\<lambda>psl. psl\<lparr>tx_gate := True\<rparr>) c1) c2" unfolding c2_def by (rule id_ev [OF ev_disarm_tail])
  moreover have "id_frame c1 (upd_port ?p (\<lambda>psl. psl\<lparr>tx_gate := True\<rparr>) c1)" by (rule id_upd_port) simp
  moreover have "id_frame ctx c1" unfolding c1_def by (rule id_ev [OF ev_upd_eq])
  ultimately have "named c2 = named ctx" using named_id id_frame_trans by blast
  then have n2: "named c2 h = Some ?p" by (simp add: named_def Some)
  note k3 = release_flush_lib [OF lib_relax [OF I2] n2 f]
  then have I3: "lib_inv {?p} {} {} (dpumesh_tx_discard_unsent ?p c3)" "named (dpumesh_tx_discard_unsent ?p c3) = named c2"
    using discard_lib(1) [of "{}" "{?p}" "{}" c3 ?p] named_id [OF discard_lib(2)] by auto
  note k4 = release_wait_lib [OF I3(1) w]
  note k5 = release_end_lib [OF conjunct1 [OF k4] en]
  have I6: "lib_inv {?p} {} {} (conn_free_rx h c5)" "named (conn_free_rx h c5) = named c2"
    using lib_rx [OF _ conn_free_rx_frame] named_rx [OF conn_free_rx_frame] k5 k4 I3(2) by auto
  have z: "resv_len (tx (ports (conn_free_rx h c5) ?p)) = 0"
    using I6(1) host_invD(5) [of "{?p}" "{}" "conn_free_rx h c5" ?p] by (simp add: lib_inv_def settled_def Let_def)
  have I7: "lib_inv {?p} {} {} c6" unfolding c6_def gate_release_eq by (rule lib_gate [OF I6(1)]) (simp add: z)
  have "named c6 = named (conn_free_rx h c5)" by (rule ext) (simp add: c6_def named_def)
  with I6(2) n2 have n6: "named c6 h = Some ?p" by simp
  from free_named_lib [OF I7 n6] have "lib_inv {} {} {} (c7\<lparr>qps := (qps c7)(h := None)\<rparr>)" by (simp add: c7_def)
  from lib_ev [OF this ev_upd_eq] have "lib_inv {} {} {} (upd_eq (qp_eq c) (\<lambda>eq. eq\<lparr>nqp := nqp eq - 1\<rparr>) (c7\<lparr>qps := (qps c7)(h := None)\<rparr>))" .
  moreover have "upd_eq (qp_eq c) g (c7\<lparr>qps := (qps c7)(h := None)\<rparr>)
      = (let c8 = upd_eq (qp_eq c) g c7 in c8\<lparr>qps := (qps c8)(h := None)\<rparr>)" for g
    by (simp add: upd_eq_def Let_def)
  ultimately show ?thesis using e by simp
qed (use I in \<open>simp add: dmesh_release_qp_def\<close>)

end
