(* ===== verification/Host_Steps.thy ===== *)
theory Host_Steps
  imports Host_Close Host_Events_Props
begin

text \<open>
  The calls of the API as steps of the library. Each one keeps the invariant, so the properties of
  the transmit side hold in every state that a sequence of calls reaches from an initialised context.
\<close>

section \<open>New connections\<close>

lemma host_inv_handle [simp]:
  "host_inv X R (ctx\<lparr>next_handle := n\<rparr>) = host_inv X R ctx" "host_inv X R (ctx\<lparr>qps := m\<rparr>) = host_inv X R ctx"
  by (simp_all add: host_inv_def geometry_ok_def port_ok_def slot_ok_def census_def held_def pooled_def settled_def posted_ok_def
      desc_in_block_def Let_def)

lemma lib_insert:
  assumes I: "lib_inv {} {} {h} ctx" and p: "p \<noteq> 0" "live_role (role (ports ctx p))" "user (ports ctx p) = Some h"
    and only: "\<And>q. q \<noteq> p \<Longrightarrow> live_role (role (ports ctx q)) \<Longrightarrow> user (ports ctx q) \<noteq> Some h"
    and n: "h < n" "next_handle ctx \<le> n" and c: "local_port c = p"
  shows "lib_inv {} {} {} (ctx\<lparr>next_handle := n, qps := (qps ctx)(h \<mapsto> c)\<rparr>)"
proof -
  let ?c = "ctx\<lparr>next_handle := n, qps := (qps ctx)(h \<mapsto> c)\<rparr>"
  from I have hi: "host_inv {} {} ctx" and ha: "handles_ok {h} ctx" by (auto simp: lib_inv_def)
  from ha have h1: "\<And>h' c'. h' \<noteq> h \<Longrightarrow> qps ctx h' = Some c' \<Longrightarrow> local_port c' \<noteq> 0
        \<and> live_role (role (ports ctx (local_port c'))) \<and> user (ports ctx (local_port c')) = Some h'"
    and h2: "\<And>q h'. h' \<noteq> h \<Longrightarrow> live_role (role (ports ctx q)) \<Longrightarrow> user (ports ctx q) = Some h' \<Longrightarrow>
        map_option local_port (qps ctx h') = Some q"
    and h3: "\<And>h'. next_handle ctx \<le> h' \<Longrightarrow> qps ctx h' = None"
    by (simp_all add: handles_ok_def)
  have "handles_ok {} ?c" unfolding handles_ok_def
  proof (intro conjI allI impI)
    fix h' c' assume q: "qps ?c h' = Some c'"
    have k: "local_port c' \<noteq> 0 \<and> live_role (role (ports ctx (local_port c'))) \<and> user (ports ctx (local_port c')) = Some h'"
    proof (cases "h' = h")
      case True
      with q c p show ?thesis by simp
    next
      case False
      with q h1 show ?thesis by simp
    qed
    then show "local_port c' \<noteq> 0" "live_role (role (ports ?c (local_port c')))" "user (ports ?c (local_port c')) = Some h'" by simp_all
  next
    fix q h' assume l: "live_role (role (ports ?c q))" "user (ports ?c q) = Some h'"
    show "map_option local_port (qps ?c h') = Some q"
    proof (cases "h' = h")
      case True
      with l only [of q] have "q = p" by auto
      with True c show ?thesis by simp
    next
      case False
      with l h2 [of h' q] show ?thesis by simp
    qed
  next
    fix h' assume "next_handle ?c \<le> h'"
    with n h3 [of h'] show "qps ?c h' = None" by simp
  qed
  with hi show ?thesis by (simp add: lib_inv_def)
qed

lemma lib_unused:
  assumes I: "lib_inv X R {h} ctx" and q: "qps ctx h = None"
    and no: "\<And>q. live_role (role (ports ctx q)) \<Longrightarrow> user (ports ctx q) \<noteq> Some h"
  shows "lib_inv X R {} ctx"
proof -
  from I have hi: "host_inv X R ctx" and ha: "handles_ok {h} ctx" by (auto simp: lib_inv_def)
  have "h' \<notin> {h}" if "qps ctx h' = Some c" for h' c using that q by auto
  moreover have "h' \<notin> {h}" if "live_role (role (ports ctx q))" "user (ports ctx q) = Some h'" for h' q
    using that no by auto
  ultimately have "handles_ok {} ctx" using ha unfolding handles_ok_def by meson
  with hi show ?thesis by (simp add: lib_inv_def)
qed

lemma lib_bump: "lib_inv X R H ctx \<Longrightarrow> next_handle ctx \<le> n \<Longrightarrow> lib_inv X R H (ctx\<lparr>next_handle := n\<rparr>)"
  by (auto simp: lib_inv_def handles_ok_def)

lemma fresh_handle:
  assumes "lib_inv X R {} ctx" and "next_handle ctx \<le> h" and "live_role (role (ports ctx q))"
  shows "user (ports ctx q) \<noteq> Some h"
  using assms by (auto simp: lib_inv_def handles_ok_def)

lemma upd_eq_records: "(upd_eq e f ctx)\<lparr>qps := m\<rparr> = upd_eq e f (ctx\<lparr>qps := m\<rparr>)"
  "(upd_eq e f ctx)\<lparr>next_handle := n, qps := m\<rparr> = upd_eq e f (ctx\<lparr>next_handle := n, qps := m\<rparr>)"
  by (simp_all add: upd_eq_def)

lemma open_lib:
  assumes I: "lib_inv {} {} {} ctx"
  shows "lib_inv {} {} {} (snd (dmesh_qp_open mem mi e dst ctx))"
proof (cases mem)
  case True
  let ?h = "next_handle ctx" and ?c0 = "ctx\<lparr>next_handle := next_handle ctx + 1\<rparr>"
  obtain p c1 where a: "dpumesh_alloc_port mi ROLE_CLIENT ?h e ?c0 = (p, c1)" by fastforce
  have I0: "lib_inv {} {} {} ?c0" by (rule lib_bump [OF I]) simp
  note k = lib_alloc [OF lib_weaken [OF I0, of "{?h}"] _ a]
  then have I1: "lib_inv {} {} {?h} c1" and n1: "next_handle c1 = ?h + 1"
    and fr: "\<And>q. q \<noteq> p \<or> p = 0 \<Longrightarrow> role (ports c1 q) = role (ports ctx q) \<and> user (ports c1 q) = user (ports ctx q)" by auto
  have no: "q \<noteq> p \<or> p = 0 \<Longrightarrow> live_role (role (ports c1 q)) \<Longrightarrow> user (ports c1 q) \<noteq> Some ?h" for q
    using fr fresh_handle [OF I] by simp
  show ?thesis
  proof (cases "p = 0")
    case True
    from k have m: "qps c1 h' = None \<longleftrightarrow> qps ctx h' = None" for h'
      by (auto dest: fun_cong [of _ _ h'])
    have "qps ctx ?h = None" using I by (simp add: lib_inv_def handles_ok_def)
    with m have "qps c1 ?h = None" by simp
    then have "lib_inv {} {} {} c1" by (rule lib_unused [OF I1]) (use no True in blast)
    with a True \<open>mem\<close> show ?thesis by (simp add: dmesh_qp_open_def Let_def)
  next
    case False
    let ?q = "\<lparr>qp_eq = e, qp_role = ROLE_CLIENT, local_port = p,
                   qp_dst_service = dst, remote_pod = DMESH_POD_BLANK, remote_port = 0,
                   peer_closed = False, fin_sent = False, qp_seq = 0, qp_rx_slot = -1, qp_rx_len = 0\<rparr>"
    have "lib_inv {} {} {} (c1\<lparr>next_handle := ?h + 1, qps := (qps c1)(?h \<mapsto> ?q)\<rparr>)"
      using k False no by (intro lib_insert [OF I1, of p]) (auto simp: live_role_def)
    moreover have "c1\<lparr>next_handle := ?h + 1, qps := (qps c1)(?h \<mapsto> ?q)\<rparr> = c1\<lparr>qps := (qps c1)(?h \<mapsto> ?q)\<rparr>"
      using n1 by simp
    ultimately have "lib_inv {} {} {} (upd_eq e f (c1\<lparr>qps := (qps c1)(?h \<mapsto> ?q)\<rparr>))" for f
      using lib_ev [OF _ ev_upd_eq] by simp
    with a False \<open>mem\<close> show ?thesis by (simp add: dmesh_qp_open_def Let_def upd_eq_records)
  qed
qed (use I in \<open>simp add: dmesh_qp_open_def\<close>)

lemma rx_try_pop: "rxq_try_pop ctx = Some (d, ctx') \<Longrightarrow> rx_frame ctx ctx'"
  by (auto simp: rxq_try_pop_def Let_def rx_frame_def tx_frame_def tx_frame_but_def same_slot_def geo_def id_frame_def split: if_splits)

lemma rx_free [simp]: "rx_frame ctx (dpumesh_rx_free s ctx)"
  by (simp add: dpumesh_rx_free_def)

lemma accept_port_lib:
  assumes I: "lib_inv {} {} {} ctx" and a: "dpumesh_accept_port p h e ctx = (ps, ctx')"
  shows "(ps = 0 \<longrightarrow> ctx' = ctx) \<and> (ps \<noteq> 0 \<longrightarrow> lib_inv {} {} {h} ctx' \<and> live_role (role (ports ctx' ps))
    \<and> user (ports ctx' ps) = Some h \<and> (\<forall>q. q \<noteq> ps \<longrightarrow> ports ctx' q = ports ctx q)
    \<and> next_handle ctx' = next_handle ctx)"
proof (cases "p = 0 \<or> role (ports ctx p) \<noteq> ROLE_SERVER_PENDING")
  case False
  let ?f = "\<lambda>psl. psl\<lparr>user := Some h, slot_eq := Some e, role := ROLE_SERVER\<rparr>"
  from a False have e: "ps = p" "ctx' = upd_port p ?f ctx" by (auto simp: dpumesh_accept_port_def)
  from I have h: "host_inv {} {} ctx" and ha: "handles_ok {} ctx" by (auto simp: lib_inv_def)
  note I' = host_invD [OF h]
  have "host_inv {} {} (upd_port p ?f ctx)"
  proof (rule inv_slot [OF h])
    from I'(3) [of p] False show "port_ok (upd_port p ?f ctx) p" by (auto simp: port_ok_def slot_ok_def)
    from I'(5) [of p] False show "settled {} {} (upd_port p ?f ctx) p" by (simp add: settled_def Let_def)
  qed (auto simp: held_def)
  moreover have "handles_ok {h} ctx" using ha by (auto simp: handles_ok_def)
  then have "handles_ok {h} (upd_port p ?f ctx)" using False by (intro handles_new) (simp_all add: live_role_def)
  ultimately show ?thesis using False by (simp add: e lib_inv_def live_role_def)
qed (use a in \<open>auto simp: dpumesh_accept_port_def\<close>)

lemma accept_lib:
  assumes I: "lib_inv {} {} {} ctx"
  shows "lib_inv {} {} {} (snd (dmesh_accept mem e ctx))"
proof (cases "eqs ctx e")
  case (Some eq)
  let ?c1 = "upd_eq e (\<lambda>eq. eq\<lparr>accept_spare := True\<rparr>) ctx"
  have I1: "lib_inv {} {} {} ?c1" by (rule lib_ev [OF I ev_upd_eq])
  show ?thesis
  proof (cases "(\<not> accept_spare eq \<and> \<not> mem) \<or> dpumesh_dequeue ?c1 = None")
    case True
    with I I1 Some show ?thesis by (auto simp: dmesh_accept_def Let_def)
  next
    case False
    then obtain req c2 where d: "dpumesh_dequeue ?c1 = Some (req, c2)" by auto
    have I2: "lib_inv {} {} {} c2" using lib_rx [OF I1 rx_try_pop] d by (simp add: dpumesh_dequeue_def)
    obtain ps c3 where a: "dpumesh_accept_port (unat (dst_port req)) (next_handle c2) e c2 = (ps, c3)" by fastforce
    note k = accept_port_lib [OF I2 a]
    show ?thesis
    proof (cases "\<not> valid req \<or> ps = 0")
      case True
      have "lib_inv {} {} {} (dpumesh_rx_free (body_buf_slot req) c2)" by (rule lib_rx [OF I2 rx_free])
      with True I2 k False Some d a show ?thesis by (auto simp: dmesh_accept_def Let_def)
    next
      case v: False
      have "user (ports c3 q) \<noteq> Some (next_handle c2)" if "q \<noteq> ps" "live_role (role (ports c3 q))" for q
        using k that v fresh_handle [OF I2, of "next_handle c2" q] by simp
      then have "lib_inv {} {} {} (c3\<lparr>next_handle := next_handle c2 + 1, qps := (qps c3)(next_handle c2 \<mapsto> c)\<rparr>)"
        if "local_port c = ps" for c
        using k v that by (intro lib_insert [of _ _ ps]) auto
      from lib_ev [OF this ev_upd_eq] v False Some d a show ?thesis
        by (auto simp: dmesh_accept_def Let_def upd_eq_records)
    qed
  qed
qed (use I in \<open>simp add: dmesh_accept_def\<close>)

section \<open>Polling\<close>

lemma rx_upd_qp:
  assumes "\<And>c. local_port (f c) = local_port c"
  shows "rx_frame ctx (upd_qp h f ctx)"
  using id_upd_qp [of f ctx h] assms
  by (simp add: rx_frame_def tx_frame_def tx_frame_but_def same_slot_def upd_qp_def geo_def)

lemma rx_conn_recv: "dpumesh_conn_recv p ctx = (d, ctx') \<Longrightarrow> rx_frame ctx ctx'"
proof -
  have k: "keeps (\<lambda>_. psl') psl" if "inbox_pop psl = Some (d, psl')" for d psl psl'
    using that by (auto simp: inbox_pop_def keeps_def same_slot_def Let_def split: if_splits option.splits)
  have k2: "keeps (\<lambda>_. psl'\<lparr>on_ready := True\<rparr>) psl" if "inbox_pop psl = Some (d, psl')" for d psl psl'
    using k [OF that] by (simp add: keeps_def same_slot_def)
  have k3: "rx_frame ctx (upd_port p (\<lambda>psl. psl\<lparr>on_ready := False\<rparr>) ctx)" for ctx
    by (rule rx_upd_port) (simp add: keeps_def same_slot_def)
  assume "dpumesh_conn_recv p ctx = (d, ctx')"
  then show ?thesis
    by (auto simp: dpumesh_conn_recv_def Let_def k3 split: if_splits option.splits
        intro: rx_upd_port [OF k] rx_frame_trans [OF k3 rx_upd_port [OF k2]])
qed

lemma rx_emit: "eq_emit h s l ctx = (ev, ctx') \<Longrightarrow> rx_frame ctx ctx'"
  by (auto simp: eq_emit_def intro: rx_frame_trans [OF rx_free rx_upd_qp] split: if_splits)

lemma rx_drain_loop: "drain_conn_loop h p n ctx = (evs, dr, ctx') \<Longrightarrow> rx_frame ctx ctx' \<and> length evs \<le> n"
proof (induction n arbitrary: ctx evs)
  case (Suc n)
  obtain w c1 where r: "dpumesh_conn_recv p ctx = (w, c1)" by fastforce
  show ?case
  proof (cases w)
    case None
    with Suc.prems r rx_conn_recv [OF r] show ?thesis by simp
  next
    case (Some d)
    obtain ev c2 where em: "eq_emit h (body_buf_slot d) (body_len d) c1 = (ev, c2)" by fastforce
    obtain es dr' c3 where l: "drain_conn_loop h p n c2 = (es, dr', c3)" by (cases "drain_conn_loop h p n c2")
    from Suc.prems r Some em l have e: "evs = ev # es" "ctx' = c3" "dr = dr'" by simp_all
    note k = Suc.IH [OF l [folded e(2,3)]]
    have "rx_frame ctx ctx'"
      by (rule rx_frame_trans [OF rx_conn_recv [OF r] rx_frame_trans [OF rx_emit [OF em] conjunct1 [OF k]]])
    with k e(1) show ?thesis by simp
  qed
qed simp

lemma rx_drain_conn: "eq_drain_conn h n ctx = (evs, dr, ctx') \<Longrightarrow> rx_frame ctx ctx' \<and> length evs \<le> n"
proof -
  assume a: "eq_drain_conn h n ctx = (evs, dr, ctx')"
  show ?thesis
  proof (cases "qps ctx h")
    case (Some c)
    let ?f = "\<lambda>c. c\<lparr>qp_rx_slot := -1, qp_rx_len := 0\<rparr>"
    obtain ev c1 where em: "eq_emit h (qp_rx_slot c) (qp_rx_len c) ctx = (ev, c1)" by fastforce
    obtain es dr' c3 where l: "drain_conn_loop h (local_port c) (n - 1) (upd_qp h ?f c1) = (es, dr', c3)"
      by (cases "drain_conn_loop h (local_port c) (n - 1) (upd_qp h ?f c1)")
    note r = rx_drain_loop [OF l]
    have "rx_frame c1 (upd_qp h ?f c1)" by (rule rx_upd_qp) simp
    from rx_frame_trans [OF rx_emit [OF em] rx_frame_trans [OF this conjunct1 [OF r]]] have "rx_frame ctx c3" .
    then show ?thesis using a Some em l r rx_drain_loop [of h "local_port c" n ctx]
      by (cases "qp_rx_slot c \<ge> 0"; cases "n = 0") (auto simp: eq_drain_conn_def)
  qed (use a in \<open>simp add: eq_drain_conn_def\<close>)
qed

lemma ev_next_ready: "next_ready_loop e n ctx = (w, ctx') \<Longrightarrow> ev_frame ctx ctx'"
proof (induction n arbitrary: ctx)
  case (Suc n)
  show ?case
  proof (cases "Option.bind (eqs ctx e) ready_pop")
    case (Some pe)
    obtain p eq where pe: "pe = (p, eq)" by (cases pe)
    have f: "ev_frame ctx (upd_eq e (\<lambda>_. eq) ctx)" by (rule ev_upd_eq)
    with Suc Some pe ev_frame_trans [OF f Suc.IH] show ?thesis by (auto simp: Let_def split: if_splits)
  qed (use Suc.prems in simp)
qed simp

lemma ev_next_tx_error: "next_tx_error_loop e n ctx = (w, ctx') \<Longrightarrow> ev_frame ctx ctx'"
proof (induction n arbitrary: ctx)
  case (Suc n)
  show ?case
  proof (cases "Option.bind (eqs ctx e) eq_tx_error_pop")
    case (Some pe)
    obtain p eq where pe: "pe = (p, eq)" by (cases pe)
    have f: "ev_frame ctx (upd_eq e (\<lambda>_. eq) ctx)" by (rule ev_upd_eq)
    with Suc Some pe ev_frame_trans [OF f Suc.IH] show ?thesis by (auto simp: Let_def split: if_splits)
  qed (use Suc.prems in simp)
qed simp

lemma ev_next_tx_ready: "next_tx_ready_loop e n ctx = (w, ctx') \<Longrightarrow> ev_frame ctx ctx'"
proof (induction n arbitrary: ctx)
  case (Suc n)
  show ?case
  proof (cases "Option.bind (eqs ctx e) eq_tx_ready_pop")
    case (Some pe)
    obtain p eq where pe: "pe = (p, eq)" by (cases pe)
    let ?c1 = "upd_eq e (\<lambda>_. eq) ctx" and ?g = "\<lambda>psl. psl\<lparr>tx_wait_state := TX_WAIT_IDLE\<rparr>"
    have f: "ev_frame ctx ?c1" by (rule ev_upd_eq)
    have g: "ev_frame ctx (upd_port p ?g ?c1)" by (rule ev_frame_trans [OF f ev_upd_port]) simp
    from Suc.prems Some pe have "ctx' = upd_port p ?g ?c1 \<or> next_tx_ready_loop e n ?c1 = (w, ctx')
        \<or> next_tx_ready_loop e n (upd_port p ?g ?c1) = (w, ctx')"
      by (simp add: Let_def split: if_splits)
    with g ev_frame_trans [OF f Suc.IH] ev_frame_trans [OF g Suc.IH] show ?thesis by blast
  qed (use Suc.prems in simp)
qed simp

lemma poll_handles_lib:
  assumes next_ev: "\<And>c w c'. next c = (w, c') \<Longrightarrow> ev_frame c c'"
  shows "lib_inv X R H ctx \<Longrightarrow> poll_handles next t n ctx = (evs, ctx') \<Longrightarrow> lib_inv X R H ctx' \<and> length evs \<le> n"
proof (induction n arbitrary: ctx evs)
  case (Suc n)
  obtain w c1 where n1: "next ctx = (w, c1)" by fastforce
  have I1: "lib_inv X R H c1" by (rule lib_ev [OF Suc.prems(1) next_ev [OF n1]])
  show ?case
  proof (cases w)
    case None
    with Suc.prems n1 I1 show ?thesis by simp
  next
    case (Some h)
    obtain es c2 where l: "poll_handles next t n c1 = (es, c2)" by fastforce
    with Suc.prems n1 Some have e: "evs = plain_event t h # es" "ctx' = c2" by simp_all
    from Suc.IH [OF I1 l [folded e(2)]] e show ?thesis by simp
  qed
qed simp

lemma poll_ready_lib: "lib_inv X R H ctx \<Longrightarrow> poll_ready e fuel room ctx = (evs, ctx') \<Longrightarrow> lib_inv X R H ctx' \<and> length evs \<le> room"
proof (induction fuel arbitrary: ctx evs room)
  case (Suc fuel)
  obtain w c1 where n1: "dpumesh_next_ready e ctx = (w, c1)" by fastforce
  have I1: "lib_inv X R H c1" using lib_ev [OF Suc.prems(1) ev_next_ready] n1 by (simp add: dpumesh_next_ready_def del: next_ready_loop.simps)
  show ?case
  proof (cases "room = 0 \<or> w = None")
    case True
    with Suc.prems n1 I1 show ?thesis by (auto split: if_splits)
  next
    case False
    then obtain h where h: "w = Some h" "room \<noteq> 0" by auto
    obtain es dr c2 where d: "eq_drain_conn h room c1 = (es, dr, c2)" by (cases "eq_drain_conn h room c1")
    note k = rx_drain_conn [OF d]
    have I2: "lib_inv X R H c2" by (rule lib_rx [OF I1 conjunct1 [OF k]])
    obtain es2 c3 where l: "poll_ready e fuel (room - length es) c2 = (es2, c3)" by fastforce
    show ?thesis
    proof (cases dr)
      case True
      with Suc.prems n1 h d l have e: "evs = es @ es2" "ctx' = c3" by simp_all
      from Suc.IH [OF I2 l [folded e(2)]] k e show ?thesis by auto
    next
      case dr: False
      with Suc.prems n1 h d have "evs = es" "ctx' = upd_eq e (\<lambda>eq. eq\<lparr>drain_cur := Some h\<rparr>) c2" by simp_all
      with k lib_ev [OF I2 ev_upd_eq] show ?thesis by simp
    qed
  qed
qed simp

lemma poll_accept_lib:
  "lib_inv {} {} {} ctx \<Longrightarrow> poll_accept mem e fuel room ctx = (evs, go, ctx') \<Longrightarrow> lib_inv {} {} {} ctx' \<and> length evs \<le> room"
proof (induction fuel arbitrary: ctx evs room)
  case (Suc fuel)
  obtain w c1 where a: "dmesh_accept mem e ctx = (w, c1)" by fastforce
  have I1: "lib_inv {} {} {} c1" using accept_lib [OF Suc.prems(1), of mem e] a by simp
  show ?case
  proof (cases "room = 0 \<or> isl w")
    case True
    with Suc.prems a I1 show ?thesis by (auto split: if_splits sum.splits)
  next
    case False
    then obtain h where h: "w = Inr h" "room \<noteq> 0" by (cases w) auto
    obtain es dr c2 where d: "eq_drain_conn h (room - 1) c1 = (es, dr, c2)" by (cases "eq_drain_conn h (room - 1) c1")
    note k = rx_drain_conn [OF d]
    have I2: "lib_inv {} {} {} c2" by (rule lib_rx [OF I1 conjunct1 [OF k]])
    obtain es2 go2 c3 where l: "poll_accept mem e fuel (room - 1 - length es) c2 = (es2, go2, c3)"
      by (cases "poll_accept mem e fuel (room - 1 - length es) c2")
    show ?thesis
    proof (cases dr)
      case True
      with Suc.prems a h d l have e: "evs = plain_event EVENT_CONN_REQ h # es @ es2" "ctx' = c3" "go = go2" by simp_all
      from Suc.IH [OF I2 l [folded e(2,3)]] k e h show ?thesis by auto
    next
      case dr: False
      with Suc.prems a h d have "evs = plain_event EVENT_CONN_REQ h # es"
        "ctx' = upd_eq e (\<lambda>eq. eq\<lparr>drain_cur := Some h\<rparr>) c2" by simp_all
      with k h lib_ev [OF I2 ev_upd_eq] show ?thesis by auto
    qed
  qed
qed simp

lemma poll_resume_lib:
  assumes I: "lib_inv X R H ctx" and r: "poll_resume e room ctx = (evs, go, ctx')"
  shows "lib_inv X R H ctx' \<and> length evs \<le> room"
proof (cases "Option.bind (eqs ctx e) drain_cur")
  case (Some h)
  obtain es dr c1 where d: "eq_drain_conn h room ctx = (es, dr, c1)" by (cases "eq_drain_conn h room ctx")
  note k = rx_drain_conn [OF d]
  have I1: "lib_inv X R H c1" by (rule lib_rx [OF I conjunct1 [OF k]])
  with r Some d k lib_ev [OF I1 ev_upd_eq] show ?thesis by (auto simp: poll_resume_def split: if_splits)
qed (use assms in \<open>simp add: poll_resume_def\<close>)

text \<open>A poll gives at most the events asked for.\<close>

lemma poll_lib:
  assumes I: "lib_inv {} {} {} ctx" and p: "dmesh_poll_eq claims mem now e m ctx = (r, ctx')"
  shows "lib_inv {} {} {} ctx' \<and> (case r of Inr evs \<Rightarrow> int (length evs) \<le> m | Inl _ \<Rightarrow> eqs ctx e = None \<or> m \<le> 0)"
proof (cases "eqs ctx e = None \<or> m \<le> 0")
  case False
  define room where "room = nat m"
  define c1 where "c1 = dpumesh_publish_due_tails claims now e (snd (dpumesh_drain_assist mem e ctx))"
  obtain es1 g1 c2 where s1: "poll_resume e room c1 = (es1, g1, c2)" by (cases "poll_resume e room c1")
  define room2 where "room2 = room - length es1"
  obtain es2 g2 c3 where s2: "poll_accept mem e room2 room2 c2 = (es2, g2, c3)" by (cases "poll_accept mem e room2 room2 c2")
  define room3 where "room3 = room2 - length es2"
  obtain es3 c4 where s3: "poll_handles (dpumesh_next_tx_error e) EVENT_TX_ERROR room3 c3 = (es3, c4)" by fastforce
  define room4 where "room4 = room3 - length es3"
  obtain es4 c5 where s4: "poll_handles (dpumesh_next_tx_ready e) EVENT_TX_READY room4 c4 = (es4, c5)" by fastforce
  define room5 where "room5 = room4 - length es4"
  obtain es5 c6 where s5: "poll_ready e (ready_len e c5 + 1) room5 c5 = (es5, c6)" by fastforce
  have e: "(r, ctx') = (if \<not> g1 then (Inr es1, c2) else if \<not> g2 then (Inr (es1 @ es2), c3)
      else (Inr (es1 @ es2 @ es3 @ es4 @ es5), c6))"
    using p s1 s2 s3 s4 s5
    unfolding dmesh_poll_eq_def if_not_P [OF False] Let_def c1_def room_def room2_def room3_def room4_def room5_def
    by (simp del: poll_ready.simps split: if_splits)
  have I1: "lib_inv {} {} {} c1" unfolding c1_def by (rule publish_due_lib [OF lib_assist [OF I]])
  note k1 = poll_resume_lib [OF I1 s1]
  note k2 = poll_accept_lib [OF conjunct1 [OF k1] s2]
  note k3 = poll_handles_lib [OF _ conjunct1 [OF k2] s3]
  have k3: "lib_inv {} {} {} c4 \<and> length es3 \<le> room3"
    by (rule k3) (auto simp: dpumesh_next_tx_error_def dest: ev_next_tx_error)
  have k4: "lib_inv {} {} {} c5 \<and> length es4 \<le> room4"
    by (rule poll_handles_lib [OF _ conjunct1 [OF k3] s4]) (auto simp: dpumesh_next_tx_ready_def dest: ev_next_tx_ready)
  note k5 = poll_ready_lib [OF conjunct1 [OF k4] s5]
  show ?thesis using e k1 k2 k3 k4 k5 False
    by (auto simp: room_def room2_def room3_def room4_def room5_def split: if_splits)
qed (use assms in \<open>auto simp: dmesh_poll_eq_def\<close>)

section \<open>Sending\<close>

lemma call_done_lib:
  assumes I: "lib_inv X R H ctx" and z: "\<And>c. qps ctx h = Some c \<Longrightarrow> resv_len (tx (ports ctx (local_port c))) = 0"
  shows "lib_inv X R H (dmesh_tx_call_done h ctx)"
  using I lib_gate [OF I, of False] z unfolding dmesh_tx_call_done_def gate_release_eq by (simp split: option.split)

lemma reserve_tail_frame:
  assumes "reserve_tail p len ctx = (res, ctx')"
  shows "id_frame ctx ctx' \<and> block_size ctx' = block_size ctx \<and> (isl res \<longrightarrow> resv_len (tx (ports ctx' p)) = resv_len (tx (ports ctx p)))"
proof -
  let ?bs = "block_size ctx" and ?n = "blocks_per_conn ctx"
  define place where "place phys c = (let (moff, t) = place_message ?bs ?n len phys (tx (ports c p)) in (Inr moff :: errno + nat, upd_tx p (\<lambda>_. t) c))"
    for phys c
  have pl: ?thesis if "place phys (tx_wait_cancel p c) = (res, ctx')" "id_frame ctx c" "block_size c = ?bs" for phys c
  proof -
    obtain moff t where m: "place_message ?bs ?n len phys (tx (ports (tx_wait_cancel p c) p)) = (moff, t)" by fastforce
    have "id_frame ctx (upd_tx p (\<lambda>_. t) (tx_wait_cancel p c))"
      by (rule id_frame_trans [OF that(2) id_frame_trans [OF id_ev [OF ev_cancel] id_upd_tx]])
    with that m ev_frameD(12) [OF ev_cancel, of p c] show ?thesis by (auto simp: place_def)
  qed
  have ar: ?thesis if "(res, ctx') = (Inl x, tx_wait_arm p reason ctx)" for x reason
    using that id_ev [OF ev_arm, of ctx p reason] ev_frameD(1,12) [OF ev_arm, of p reason ctx] by simp
  have po: "id_frame ctx (ctx\<lparr>pool := q\<rparr>)" for q by (simp add: id_frame_def)
  show ?thesis using assms pl [of _ ctx] pl [OF _ po] ar
    unfolding reserve_tail_def Let_def place_def [symmetric, unfolded Let_def]
    by (auto split: if_splits option.splits)
qed

lemma resv_refresh: "resv_len (tx (ports (tx_refresh_blocks p ctx) q)) = resv_len (tx (ports ctx q))"
proof -
  have s: "resv_len (tx (ports (return_surplus p m c) q)) = resv_len (tx (ports c q))" for m c
    by (induction m arbitrary: c) (simp_all add: Let_def split_def pool_return_fields pop_recycled_def)
  show ?thesis by (simp add: tx_refresh_blocks_def Let_def s refresh_chain_def recycle_slot_def)
qed

lemma reserve_frame:
  assumes "dpumesh_tx_reserve mem p len ctx = (res, ctx')"
  shows "id_frame ctx ctx' \<and> block_size ctx' = block_size ctx \<and> (isl res \<longrightarrow> resv_len (tx (ports ctx' p)) = resv_len (tx (ports ctx p)))"
proof (cases "p = 0 \<or> len = 0 \<or> len > block_size ctx \<or> \<not> live_role (role (ports ctx p)) \<or> tx_error (ports ctx p) \<noteq> None
    \<or> resv_len (tx (ports ctx p)) \<noteq> 0 \<or> isl (tx_tracking_ensure mem (su_depth ctx) (su (ports ctx p)))")
  case True
  with assms show ?thesis unfolding reserve_eq Let_def by (auto split: if_splits sum.splits)
next
  case False
  then obtain q where q: "tx_tracking_ensure mem (su_depth ctx) (su (ports ctx p)) = Inr q"
    by (cases "tx_tracking_ensure mem (su_depth ctx) (su (ports ctx p))") auto
  let ?c = "upd_port p (\<lambda>psl. psl\<lparr>su := q\<rparr>) ctx"
  let ?d = "if head_blk_next (tx (ports ?c p)) \<le> need_block (block_size ctx) len (tx (ports ?c p)) then tx_refresh_blocks p ?c else ?c"
  have c: "id_frame ctx ?c" by (rule id_upd_port) simp
  have d: "id_frame ctx ?d" "block_size ?d = block_size ctx" "resv_len (tx (ports ?d p)) = resv_len (tx (ports ctx p))"
    using c id_frame_trans [OF c id_refresh] resv_refresh [of p ?c p] by simp_all
  have e: "(if \<not> tx_tracking_reserve_room ?c (ports ?c p) len then (Inl EAGAIN, tx_wait_arm p TX_WAIT_SU_RECLAIM ?c)
      else reserve_tail p len ?d) = (res, ctx')"
    using assms False q unfolding reserve_eq Let_def by simp
  show ?thesis
  proof (cases "tx_tracking_reserve_room ?c (ports ?c p) len")
    case True
    with e reserve_tail_frame [of p len ?d res ctx'] d id_frame_trans [OF d(1)] show ?thesis by auto
  next
    case False
    with e have "res = Inl EAGAIN" "ctx' = tx_wait_arm p TX_WAIT_SU_RECLAIM ?c" by auto
    then show ?thesis
      using id_frame_trans [OF c id_ev [OF ev_arm]] ev_frameD(1,12) [OF ev_arm, of p TX_WAIT_SU_RECLAIM ?c] by simp
  qed
qed

lemma alloc_lib:
  assumes I: "lib_inv {} {} {} ctx" and a: "dmesh_alloc claims mem now h len ctx = (r, ctx')"
  shows "lib_inv {} {} {} ctx' \<and> (case r of Inr moff \<Rightarrow> (\<exists>p. named ctx' h = Some p \<and> reserved p len moff ctx') \<and> 0 < len
    \<and> len \<le> block_size ctx' | Inl _ \<Rightarrow> True)"
proof -
  obtain w c1 where v: "dmesh_tx_qp_valid h ctx = (w, c1)" by fastforce
  note k = qp_valid_lib [OF I v]
  show ?thesis
  proof (cases w)
    case (Inl x)
    with a v k I show ?thesis by (auto simp: dmesh_alloc_def)
  next
    case (Inr p)
    with k have I1: "lib_inv {} {} {} c1" and u1: "usable h p c1" and g1: "tx_gate (ports c1 p)" and p0: "p \<noteq> 0" by auto
    obtain res c2 where rs: "dpumesh_tx_reserve mem p len c1 = (res, c2)" by fastforce
    have hi: "host_inv {} {} c1" using I1 by (simp add: lib_inv_def)
    note k2 = inv_reserve [OF hi g1 rs]
    from reserve_frame [OF rs] have f2: "id_frame c1 c2" "block_size c2 = block_size c1"
      and z2: "isl res \<Longrightarrow> resv_len (tx (ports c2 p)) = resv_len (tx (ports c1 p))" by auto
    have I2: "lib_inv {} {} {} c2" using k2 I1 handles_frame [OF _ f2(1)] by (simp add: lib_inv_def)
    show ?thesis
    proof (cases res)
      case moff: (Inr moff)
      with a v Inr rs have "r = Inr moff" "ctx' = c2" by (simp_all add: dmesh_alloc_def)
      moreover have "named c2 h = Some p" using u1 named_id [OF f2(1)] by (auto simp: usable_def named_def)
      ultimately show ?thesis using I2 k2 moff f2(2) by auto
    next
      case (Inl x)
      have u2: "usable h p c2" using u1 usable_calm [OF u1] f2 z2 Inl by (simp add: calm_def)
      let ?c3 = "if x = EAGAIN then dmesh_tx_pressure claims now h c2 else c2"
      from I2 u2 pressure_lib [OF I2 u2] have k3: "lib_inv {} {} {} ?c3" "usable h p ?c3" by auto
      have "lib_inv {} {} {} (dmesh_tx_call_done h ?c3)"
        using k3(2) by (intro call_done_lib [OF k3(1)]) (auto simp: usable_def)
      moreover have "r = Inl x" "ctx' = dmesh_tx_call_done h ?c3" using a v Inr rs Inl by (auto simp: dmesh_alloc_def)
      ultimately show ?thesis by simp
    qed
  qed
qed

text \<open>
  An application that posts what it allocated: the buffer is the one of the open reservation, the
  length fits it, and the connection has not failed. The gate of a connection is held exactly while
  a call of this kind is open.
\<close>

definition well_posted :: "nat \<Rightarrow> nat option \<Rightarrow> nat \<Rightarrow> dpumesh_ctx \<Rightarrow> bool" where
  "well_posted h buf len ctx \<longleftrightarrow>
     (dmesh_tx_call_active h ctx \<longrightarrow> \<not> isl (fst (dpumesh_tx_commit (local_port (the (qps ctx h))) buf len ctx)))"

lemma post_lib:
  assumes I: "lib_inv {} {} {} ctx" and w: "well_posted h buf len ctx"
    and e: "dmesh_post_send claims now h buf len ctx = (r, ctx')"
  shows "lib_inv {} {} {} ctx' \<and> r \<noteq> None"
proof (cases "dmesh_tx_call_active h ctx")
  case False
  with e I show ?thesis by (auto simp: dmesh_post_send_def)
next
  case True
  then obtain c where c: "qps ctx h = Some c" "local_port c \<noteq> 0" by (auto simp: dmesh_tx_call_active_def split: option.splits)
  let ?p = "local_port c"
  obtain x c1 where cm: "dpumesh_tx_commit ?p buf len ctx = (x, c1)" by fastforce
  with w True c have x: "x = Inr ()" by (cases x) (auto simp: well_posted_def)
  have hi: "host_inv {} {} ctx" using I by (simp add: lib_inv_def)
  from inv_commit [OF hi cm] x have h1: "host_inv {} {} c1" and z: "resv_len (tx (ports c1 ?p)) = 0" by auto
  have c1: "c1 = upd_tx ?p (commit_chain (block_size ctx) (blocks_per_conn ctx) len) ctx"
    using cm x by (auto simp: dpumesh_tx_commit_def Let_def split: if_splits)
  have f: "id_frame ctx c1" unfolding c1 by simp
  have I1: "lib_inv {} {} {} c1" using h1 I handles_frame [OF _ f] by (simp add: lib_inv_def)
  have q1: "qps c1 h = Some c" using c by (simp add: c1 upd_tx_def)
  have n1: "named c1 h = Some ?p" using q1 by (simp add: named_def)
  have u: "usable h ?p c1" using q1 z named_live(4) [OF I1 n1] by (simp add: usable_def)
  obtain r2 c2 where a: "dmesh_tx_after_commit claims now h c1 = (r2, c2)" by fastforce
  note k = after_commit_lib [OF I1 u a]
  have u2: "usable h ?p c2" by (rule usable_calm [OF u]) (use k in simp)
  have "lib_inv {} {} {} (dmesh_tx_call_done h c2)"
    using k u2 by (intro call_done_lib) (auto simp: usable_def)
  with e True c cm x a k show ?thesis by (simp add: dmesh_post_send_def)
qed

end
