(* ===== verification/Host_System.thy ===== *)
theory Host_System
  imports Host_Steps
begin

text \<open>
  The host library as a transition system: an accepted configuration is initialised, then the
  application, the timer thread and the device act in any order. The invariant of the transmit side
  holds in every state reached, and gives the properties of the calls.
\<close>

section \<open>Initialisation\<close>

lemma grow_depth_power:
  "a \<le> b \<Longrightarrow> \<exists>c. c \<le> b \<and> grow_depth need (2 ^ b) (2 ^ a) = 2 ^ c"
proof (induction "b - a" arbitrary: a)
  case 0
  then have "a = b" by simp
  then have "grow_depth need (2 ^ b) (2 ^ a) = 2 ^ b" by (subst grow_depth.simps) simp
  then show ?case by blast
next
  case (Suc n)
  then have n: "n = b - Suc a" "Suc a \<le> b" by simp_all
  show ?case
  proof (cases "(2::nat) ^ a < need")
    case True
    have "(2::nat) ^ a < 2 ^ b" using n(2) by simp
    with True have "grow_depth need (2 ^ b) (2 ^ a) = grow_depth need (2 ^ b) (2 ^ Suc a)"
      by (subst grow_depth.simps) (simp add: mult.commute)
    with Suc.hyps(1) [OF n] show ?thesis by simp
  next
    case False
    then have "grow_depth need (2 ^ b) (2 ^ a) = 2 ^ a" by (subst grow_depth.simps) simp
    with Suc.prems show ?thesis by blast
  qed
qed

lemma tx_depth_ok: "depth_ok (tx_depth need)"
proof -
  obtain c where c: "c \<le> 15" "grow_depth need TX_SU_DEPTH_MAX TX_SU_DEPTH_MIN = 2 ^ c"
    using grow_depth_power [of 6 15 need] by (auto simp: dmesh_const)
  let ?d = "if (2::nat) ^ c < need then TX_SU_DEPTH_MAX else 2 ^ c"
  obtain d where d: "d \<le> 15" "?d = 2 ^ d"
  proof (cases "(2::nat) ^ c < need")
    case True
    then show ?thesis by (intro that [of 15]) (simp_all add: dmesh_const)
  next
    case False
    then show ?thesis using c by (intro that [of c]) simp_all
  qed
  have "tx_depth need = (if (2::nat) ^ d > TX_SU_FORWARD_SHARE_MAX then TX_SU_FORWARD_SHARE_MAX else 2 ^ d)"
    using c d(2) by (simp add: tx_depth_def Let_def)
  then show ?thesis using d(1) unfolding depth_ok_def
    by (cases "(2::nat) ^ d > TX_SU_FORWARD_SHARE_MAX") (auto simp: dmesh_const intro: exI [of _ 11])
qed

text \<open>The sizes that an accepted configuration leads to.\<close>

lemma init_config_fields:
  fixes slots sz :: "nat option" and kenv :: "int option"
  defines "g \<equiv> init_config slots sz kenv"
  defines "bytes \<equiv> g_num_slots g * g_slot_size g"
  shows "g_block_size g = min (max TX_BLOCK_SIZE (g_slot_size g)) bytes"
    "g_n_blocks g = max 1 (bytes div g_block_size g)" "g_blocks_per_conn g = min TX_BLOCKS_PER_CONN (g_n_blocks g)"
    "depth_ok (g_su_depth g)" "0 < g_k_rings g"
proof -
  define z where "z = (case sz of Some z \<Rightarrow> z | None \<Rightarrow> DPUMESH_SLOT_SIZE_DEFAULT)"
  define k where "k = (case kenv of
      Some v \<Rightarrow> if v \<ge> 1 \<and> v \<le> int MAX_EU_PER_POD then nat v else DPUMESH_RINGS_PER_POD_DEFAULT
    | None \<Rightarrow> DPUMESH_RINGS_PER_POD_DEFAULT)"
  define ns where "ns = (case slots of Some n \<Rightarrow> n | None \<Rightarrow> shrink_slots z (k * RX_SLOT_SIZE) DPUMESH_NUM_SLOTS_DEFAULT)"
  define bs where "bs = (if max TX_BLOCK_SIZE z > ns * z then ns * z else max TX_BLOCK_SIZE z)"
  define nb where "nb = max 1 (ns * z div bs)"
  define q where "q = min z TX_SU_TRACK_QUANTUM"
  have g: "g = \<lparr>g_num_slots = ns, g_slot_size = z, g_k_rings = k, g_block_size = bs, g_n_blocks = nb,
      g_blocks_per_conn = min TX_BLOCKS_PER_CONN nb,
      g_su_depth = tx_depth ((bs * min TX_BLOCKS_PER_CONN nb + q - 1) div q),
      g_recycle_reserve = min TX_RECYCLED_CUSHION (min TX_BLOCKS_PER_CONN nb)\<rparr>"
    unfolding g_def init_config_def Let_def z_def [symmetric] k_def [symmetric] ns_def [symmetric]
      bs_def [symmetric] nb_def [symmetric] q_def [symmetric] ..
  have b: "bytes = ns * z" by (simp add: bytes_def g)
  have m: "(if M > n then n else M) = min M n" for M n :: nat by (simp add: min_def)
  show "g_block_size g = min (max TX_BLOCK_SIZE (g_slot_size g)) bytes" unfolding b by (simp only: g bs_def m host_geometry.simps)
  show "g_n_blocks g = max 1 (bytes div g_block_size g)" unfolding b by (simp add: g nb_def)
  show "g_blocks_per_conn g = min TX_BLOCKS_PER_CONN (g_n_blocks g)" "depth_ok (g_su_depth g)" by (simp_all add: g tx_depth_ok)
  show "0 < g_k_rings g" by (simp add: g k_def DPUMESH_RINGS_PER_POD_DEFAULT_def split: option.split)
qed

lemma init_config_ok:
  assumes "geometry_accepted g" and g: "g = init_config slots sz kenv"
  shows "0 < g_block_size g" "128 dvd g_block_size g" "0 < g_blocks_per_conn g" "g_blocks_per_conn g \<le> TX_BLOCKS_PER_CONN"
    "depth_ok (g_su_depth g)" "0 < g_slot_size g" "g_slot_size g \<le> RX_SLOT_SIZE" "0 < g_k_rings g"
    "g_n_blocks g * g_block_size g \<le> g_num_slots g * g_slot_size g" "g_num_slots g * g_slot_size g \<le> DPU_BUFFER_SIZE"
    "g_n_blocks g < 2 ^ 32"
proof -
  let ?bytes = "g_num_slots g * g_slot_size g"
  note f = init_config_fields [of slots sz kenv, folded g]
  from assms(1) have a: "0 < g_slot_size g" "g_slot_size g \<le> RX_SLOT_SIZE" "0 < ?bytes" "?bytes \<le> DPU_BUFFER_SIZE"
    "?bytes mod (g_k_rings g * RX_SLOT_SIZE) = 0" by (auto simp: geometry_accepted_def Let_def)
  have bs: "g_block_size g = min TX_BLOCK_SIZE ?bytes" using f(1) a(2) by (simp add: RX_SLOT_SIZE_def dmesh_const)
  show pos: "0 < g_block_size g" using bs a(3) by (simp add: dmesh_const)
  have "g_k_rings g * RX_SLOT_SIZE dvd ?bytes" using a(5) by (simp add: dvd_eq_mod_eq_0)
  then have "RX_SLOT_SIZE dvd ?bytes" by (rule dvd_mult_right)
  then have "128 dvd ?bytes" by (rule dvd_trans [rotated]) (simp add: RX_SLOT_SIZE_def)
  then show "128 dvd g_block_size g" unfolding bs by (simp add: min_def dmesh_const)
  have le: "g_block_size g \<le> ?bytes" using bs by simp
  then have "1 \<le> ?bytes div g_block_size g" using pos by (simp add: div_greater_zero_iff Suc_le_eq)
  then have nb: "g_n_blocks g = ?bytes div g_block_size g" using f(2) by simp
  show "g_n_blocks g * g_block_size g \<le> ?bytes" unfolding nb by simp
  have "g_n_blocks g \<le> ?bytes" unfolding nb by (rule div_le_dividend)
  with a(4) show "g_n_blocks g < 2 ^ 32" by (simp add: DPU_BUFFER_SIZE_def)
  show "0 < g_blocks_per_conn g" "g_blocks_per_conn g \<le> TX_BLOCKS_PER_CONN"
    using f(2,3) by (simp_all add: dmesh_const)
  show "depth_ok (g_su_depth g)" "0 < g_k_rings g" by (rule f(4) f(5))+
  show "0 < g_slot_size g" "g_slot_size g \<le> RX_SLOT_SIZE" "?bytes \<le> DPU_BUFFER_SIZE" by (rule a(1) a(2) a(4))+
qed

lemma init_slot_ok:
  assumes "depth_ok depth"
  shows "slot_ok bs n nb depth init_slot" "owned n (tx init_slot) = []"
proof -
  have "returned (tx init_slot)" by (simp add: returned_def init_slot_def)
  moreover have "fifo_ok depth (su init_slot)" "fifo_clean depth (su init_slot)"
    using assms by (simp_all add: fifo_ok_def fifo_clean_def units_def init_slot_def)
  ultimately show "slot_ok bs n nb depth init_slot" by (simp add: slot_ok_def) (simp add: init_slot_def)
  show "owned n (tx init_slot) = []" by (simp add: owned_def assigned_def stack_def init_slot_def)
qed

lemma init_lib:
  assumes "geometry_accepted g" and "g = init_config slots sz kenv"
  shows "lib_inv {} {} {} (dpumesh_init g pod svc rx_bytes handle rrs)"
proof -
  let ?c = "dpumesh_init g pod svc rx_bytes handle rrs"
  note ok = init_config_ok [OF assms]
  have s: "ports ?c p = init_slot" for p by (simp add: dpumesh_init_def)
  have n: "n_blocks (pool ?c) = g_n_blocks g" by (simp add: dpumesh_init_def block_pool_init_def)
  have "geometry_ok ?c" using ok unfolding geometry_ok_def n by (simp add: dpumesh_init_def)
  moreover have p: "pool_ok (pool ?c)" "free_blocks (pool ?c) = [0..<g_n_blocks g]"
    using pool_init_ok [OF ok(11)] by (simp_all add: dpumesh_init_def)
  moreover have "port_ok ?c p" for p unfolding port_ok_def s
    using ok(5) by (intro init_slot_ok) (simp add: dpumesh_init_def)
  moreover have "census ?c"
    using p(2) init_slot_ok(2) [OF ok(5)] by (simp add: census_def held_def pooled_def s n image_int_atLeastLessThan)
  moreover have "settled {} {} ?c p" for p
    unfolding settled_def Let_def s by (simp add: resv_ok_def init_slot_def)
  moreover have "posted_ok ?c" by (simp add: posted_ok_def dpumesh_init_def)
  moreover have "handles_ok {} ?c" unfolding handles_ok_def s by (simp add: dpumesh_init_def init_slot_def live_role_def)
  ultimately show ?thesis by (simp add: lib_inv_def host_inv_def)
qed

lemma landing_frame:
  assumes "configure_landing_geometry n ctx = Some ctx'"
  shows "rx_frame ctx ctx'"
proof -
  obtain a b c d where "ctx' = ctx\<lparr>landing_stripes := a, rx_credit_shards := b, rx_region_size := c, ctx_inbox_ring := d\<rparr>"
    using assms unfolding configure_landing_geometry_def Let_def by (metis option.distinct(1) option.inject)
  then show ?thesis by (simp add: rx_frame_def tx_frame_def tx_frame_but_def same_slot_def geo_def id_frame_def)
qed

section \<open>The system\<close>

text \<open>
  The calls an application makes, the timer thread, and the device that writes the reverse rings.
  The outcome of every ring claim, of every allocation of memory and the time are arguments.
\<close>

datatype host_op =
  Create_eq bool bool | Destroy_eq nat | Eq_fd nat
| Open bool bool nat int
| Alloc "nat \<Rightarrow> ring_claim" bool nat nat nat
| Post "nat \<Rightarrow> ring_claim" nat nat "nat option" nat
| Flush "nat \<Rightarrow> ring_claim" nat
| Send_fin "nat \<Rightarrow> ring_claim" bool "dmesh_rev_ring_entry list" nat
| Destroy "nat \<Rightarrow> ring_claim" bool "dmesh_rev_ring_entry list" nat
| Abort "nat \<Rightarrow> ring_claim" bool "dmesh_rev_ring_entry list" nat
| Poll "nat \<Rightarrow> ring_claim" bool nat nat int
| Release_rx dmesh_event
| Timer nat
| Device "nat \<Rightarrow> rev_ring option"

fun host_step :: "host_op \<Rightarrow> dpumesh_ctx \<Rightarrow> dpumesh_ctx" where
  "host_step (Create_eq mem efd) ctx = snd (dmesh_create_eq mem efd ctx)"
| "host_step (Destroy_eq e) ctx = snd (dmesh_destroy_eq e ctx)"
| "host_step (Eq_fd e) ctx = dmesh_eq_fd e ctx"
| "host_step (Open mem mi e dst) ctx = snd (dmesh_qp_open mem mi e dst ctx)"
| "host_step (Alloc claims mem now h len) ctx = snd (dmesh_alloc claims mem now h len ctx)"
| "host_step (Post claims now h buf len) ctx = snd (dmesh_post_send claims now h buf len ctx)"
| "host_step (Flush claims h) ctx = snd (dmesh_flush claims h ctx)"
| "host_step (Send_fin claims mem acks h) ctx = snd (dmesh_send_fin claims mem acks h ctx)"
| "host_step (Destroy claims mem acks h) ctx = snd (dmesh_destroy_qp claims mem acks h ctx)"
| "host_step (Abort claims mem acks h) ctx = snd (dmesh_abort_qp claims mem acks h ctx)"
| "host_step (Poll claims mem now e m) ctx = snd (dmesh_poll_eq claims mem now e m ctx)"
| "host_step (Release_rx ev) ctx = snd (dmesh_release_rx_buffer ev ctx)"
| "host_step (Timer now) ctx = tx_timer_fire now ctx"
| "host_step (Device rrs) ctx = ctx\<lparr>rev_rings := rrs\<rparr>"

fun allowed :: "host_op \<Rightarrow> dpumesh_ctx \<Rightarrow> bool" where
  "allowed (Post claims now h buf len) ctx = well_posted h buf len ctx"
| "allowed _ ctx = True"

lemma timer_ev: "ev_frame ctx (tx_timer_fire now ctx)"
proof -
  have "ev_frame c (fold (\<lambda>i. upd_eq i (f i)) xs c)" for f :: "nat \<Rightarrow> dmesh_eq \<Rightarrow> dmesh_eq" and xs c
    by (induction xs arbitrary: c) (auto intro: ev_frame_trans [OF ev_upd_eq])
  then show ?thesis unfolding tx_timer_fire_def .
qed

lemma eqs_frame: "ev_frame ctx (ctx\<lparr>eqs := m\<rparr>)" "ev_frame ctx (ctx\<lparr>eqs := m, n_eqs := n\<rparr>)"
  by (simp_all add: ev_frame_def geo_def)

lemma host_step_lib:
  assumes I: "lib_inv {} {} {} ctx" and a: "allowed a_op ctx"
  shows "lib_inv {} {} {} (host_step a_op ctx)"
proof (cases a_op)
  case (Create_eq mem efd)
  have "ev_frame ctx (snd (dmesh_create_eq mem efd ctx))"
    by (simp add: dmesh_create_eq_def eqs_frame split: option.split)
  from lib_ev [OF I this] Create_eq show ?thesis by simp
next
  case (Destroy_eq e)
  have "ev_frame ctx (snd (dmesh_destroy_eq e ctx))" by (simp add: dmesh_destroy_eq_def eqs_frame split: option.split)
  from lib_ev [OF I this] Destroy_eq show ?thesis by simp
next
  case (Eq_fd e)
  with lib_ev [OF I ev_upd_eq] show ?thesis by (simp add: dmesh_eq_fd_def)
next
  case (Open mem mi e dst)
  with open_lib [OF I] show ?thesis by simp
next
  case (Alloc claims mem now h len)
  obtain r c where r: "dmesh_alloc claims mem now h len ctx = (r, c)" by fastforce
  from alloc_lib [OF I r] r Alloc show ?thesis by simp
next
  case (Post claims now h buf len)
  obtain r c where r: "dmesh_post_send claims now h buf len ctx = (r, c)" by fastforce
  from post_lib [OF I _ r] a r Post show ?thesis by simp
next
  case (Flush claims h)
  obtain r c where r: "dmesh_flush claims h ctx = (r, c)" by fastforce
  from flush_lib [OF I r] r Flush show ?thesis by simp
next
  case (Send_fin claims mem acks h)
  obtain r c where r: "dmesh_send_fin claims mem acks h ctx = (r, c)" by fastforce
  from send_fin_lib [OF I r] r Send_fin show ?thesis by simp
next
  case (Destroy claims mem acks h)
  with release_lib [OF I] show ?thesis by (simp add: dmesh_destroy_qp_def)
next
  case (Abort claims mem acks h)
  with release_lib [OF I] show ?thesis by (simp add: dmesh_abort_qp_def)
next
  case (Poll claims mem now e m)
  obtain r c where r: "dmesh_poll_eq claims mem now e m ctx = (r, c)" by fastforce
  from poll_lib [OF I r] r Poll show ?thesis by simp
next
  case (Release_rx ev)
  with I lib_rx [OF I rx_free] show ?thesis by (simp add: dmesh_release_rx_buffer_def)
next
  case (Timer now)
  with lib_ev [OF I timer_ev] show ?thesis by simp
next
  case (Device rrs)
  with lib_rx [OF I rx_rev_rings(1)] show ?thesis by simp
qed

text \<open>Where a run starts, and one step of it.\<close>

inductive host_start :: "dpumesh_ctx \<Rightarrow> bool" where
  "geometry_accepted (init_config slots sz kenv) \<Longrightarrow>
   configure_landing_geometry n (dpumesh_init (init_config slots sz kenv) pod svc rx_bytes handle rrs) = Some ctx \<Longrightarrow>
   host_start ctx"

inductive host_trans :: "dpumesh_ctx \<Rightarrow> dpumesh_ctx \<Rightarrow> bool" where
  "allowed a_op ctx \<Longrightarrow> host_trans ctx (host_step a_op ctx)"

interpretation host: invariant_system host_start host_trans "lib_inv {} {} {}"
proof
  show "lib_inv {} {} {} s" if "host_start s" for s
    using that by cases (auto intro: lib_rx [OF init_lib landing_frame])
  show "lib_inv {} {} {} t" if "lib_inv {} {} {} s" "host_trans s t" for s t
    using that(2,1) by cases (simp add: host_step_lib)
qed

definition reachable :: "dpumesh_ctx \<Rightarrow> bool" where
  "reachable ctx \<longleftrightarrow> (\<exists>c. host_start c \<and> host_trans\<^sup>*\<^sup>* c ctx)"

lemma reachable_inv: "reachable ctx \<Longrightarrow> lib_inv {} {} {} ctx"
  unfolding reachable_def using host.inv_reachable by blast

lemma reachable_step: "reachable ctx \<Longrightarrow> allowed a_op ctx \<Longrightarrow> reachable (host_step a_op ctx)"
  unfolding reachable_def by (meson host_trans.intros rtranclp.rtrancl_into_rtrancl)

end
