(* ===== verification/Host_Rx_Props.thy ===== *)
theory Host_Rx_Props
  imports Host_Init Interfaces
begin

text \<open>
  The receive queues: the inbox of a connection and the accept ring are bounded first-in-first-out
  queues, a landed message is either queued or its credit goes back, and a replayed landing is refused.
\<close>

section \<open>The inbox as a queue\<close>

definition inbox_try_push :: "sw_descriptor \<Rightarrow> dmesh_port_slot \<Rightarrow> dmesh_port_slot option" where
  "inbox_try_push d psl = (case inbox_push d psl of (Inbox_Full, _) \<Rightarrow> None | (_, psl') \<Rightarrow> Some psl')"

definition inbox_list :: "dmesh_port_slot \<Rightarrow> sw_descriptor list" where
  "inbox_list psl = map (\<lambda>i. the (inbox psl) ! (i mod inbox_ring psl)) [in_head psl..<in_tail psl]"

definition inbox_ok :: "dmesh_port_slot \<Rightarrow> bool" where
  "inbox_ok psl \<longleftrightarrow> map_option length (inbox psl) = Some (inbox_ring psl) \<and> in_head psl \<le> in_tail psl
     \<and> in_tail psl - in_head psl \<le> inbox_ring psl"

lemma ring_index_fresh:
  assumes "h \<le> i" "i < t" "t - h < (n :: nat)"
  shows "i mod n \<noteq> t mod n"
proof
  assume "i mod n = t mod n"
  then have "n dvd t - i" using assms by (metis less_imp_le mod_eq_dvd_iff_nat)
  with assms show False by (auto dest: dvd_imp_le)
qed

lemma inbox_push_cases:
  "inbox_try_push d psl = (if in_tail psl - in_head psl \<ge> inbox_ring psl then None
     else Some (psl\<lparr>inbox := map_option (\<lambda>ring. ring[in_tail psl mod inbox_ring psl := d]) (inbox psl), in_tail := in_tail psl + 1\<rparr>))"
  by (simp add: inbox_try_push_def inbox_push_def Let_def)

lemma inbox_list_push:
  assumes "inbox_ok psl" and "inbox_try_push d psl = Some psl'"
  shows "inbox_list psl' = inbox_list psl @ [d]" "inbox_ok psl'" "inbox_ring psl' = inbox_ring psl"
proof -
  obtain ring where r: "inbox psl = Some ring" "length ring = inbox_ring psl" using assms(1) by (auto simp: inbox_ok_def)
  let ?h = "in_head psl" and ?t = "in_tail psl" and ?n = "inbox_ring psl"
  from assms(2) have lt: "?t - ?h < ?n"
    and e: "psl' = psl\<lparr>inbox := Some (ring[?t mod ?n := d]), in_tail := ?t + 1\<rparr>"
    by (auto simp: inbox_push_cases r split: if_splits)
  have ht: "?h \<le> ?t" using assms(1) by (simp add: inbox_ok_def)
  have "ring[?t mod ?n := d] ! (i mod ?n) = ring ! (i mod ?n)" if "i \<in> set [?h..<?t]" for i
    using ring_index_fresh [of ?h i ?t ?n] that lt by simp
  then have "map (\<lambda>i. ring[?t mod ?n := d] ! (i mod ?n)) [?h..<?t] = map (\<lambda>i. ring ! (i mod ?n)) [?h..<?t]" by simp
  moreover have "ring[?t mod ?n := d] ! (?t mod ?n) = d" using r lt by simp
  ultimately show "inbox_list psl' = inbox_list psl @ [d]" using ht by (simp add: inbox_list_def e r)
  show "inbox_ok psl'" "inbox_ring psl' = ?n" using assms(1) r lt by (simp_all add: inbox_ok_def e)
qed

interpretation inbox_queue: bounded_fifo inbox_try_push inbox_pop inbox_list inbox_ring inbox_ok
proof
  fix psl psl' d
  assume ok: "inbox_ok psl"
  then have l: "length (inbox_list psl) = in_tail psl - in_head psl" "in_tail psl - in_head psl \<le> inbox_ring psl"
    by (simp_all add: inbox_list_def inbox_ok_def)
  show "inbox_try_push d psl = None \<longleftrightarrow> length (inbox_list psl) = inbox_ring psl"
    using l by (auto simp: inbox_push_cases)
  show "inbox_list psl' = inbox_list psl @ [d]" if "inbox_try_push d psl = Some psl'"
    by (rule inbox_list_push(1) [OF ok that])
  show "inbox_ok psl' \<and> inbox_ring psl' = inbox_ring psl" if "inbox_try_push d psl = Some psl'"
    using inbox_list_push [OF ok that] by simp
  show "inbox_pop psl = None \<longleftrightarrow> inbox_list psl = []"
    using ok by (auto simp: inbox_pop_def Let_def inbox_list_def inbox_ok_def)
  assume p: "inbox_pop psl = Some (d, psl')"
  then have e: "in_head psl \<noteq> in_tail psl" "d = the (inbox psl) ! (in_head psl mod inbox_ring psl)"
    "psl' = psl\<lparr>in_head := in_head psl + 1\<rparr>" by (auto simp: inbox_pop_def Let_def split: if_splits)
  with ok have "in_head psl < in_tail psl" by (simp add: inbox_ok_def)
  then show "inbox_list psl = d # inbox_list psl'" by (simp add: inbox_list_def e upt_conv_Cons)
  show "inbox_ok psl' \<and> inbox_ring psl' = inbox_ring psl"
    using ok \<open>in_head psl < in_tail psl\<close> by (auto simp: inbox_ok_def e)
qed

section \<open>The accept ring as a queue\<close>

definition accept_list :: "dpumesh_ctx \<Rightarrow> sw_descriptor list" where
  "accept_list ctx = map (\<lambda>i. cell_desc (rx_ring ctx (i mod RX_QUEUE_SIZE))) [rx_deq ctx..<rx_enq ctx]"

definition accept_ok :: "dpumesh_ctx \<Rightarrow> bool" where
  "accept_ok ctx \<longleftrightarrow> rx_deq ctx \<le> rx_enq ctx \<and> rx_enq ctx \<le> rx_deq ctx + RX_QUEUE_SIZE
     \<and> (\<forall>i. rx_deq ctx \<le> i \<longrightarrow> i < rx_enq ctx \<longrightarrow> cell_seq (rx_ring ctx (i mod RX_QUEUE_SIZE)) = i + 1)
     \<and> (\<forall>i. rx_enq ctx \<le> i \<longrightarrow> i < rx_deq ctx + RX_QUEUE_SIZE \<longrightarrow> cell_seq (rx_ring ctx (i mod RX_QUEUE_SIZE)) = i)"

lemma queue_size_pos: "0 < RX_QUEUE_SIZE"
  by (simp add: dmesh_const)

lemma window_index:
  assumes "a \<le> i" "i < a + n" "a \<le> j" "j < a + n" "i \<noteq> (j :: nat)"
  shows "i mod n \<noteq> j mod n"
proof (cases "i < j")
  case True
  then show ?thesis using assms by (intro ring_index_fresh [of a]) auto
next
  case False
  then have "j mod n \<noteq> i mod n" using assms by (intro ring_index_fresh [of a]) auto
  then show ?thesis by simp
qed

lemma accept_push:
  assumes ok: "accept_ok ctx"
  shows "rxq_try_push d ctx = None \<longleftrightarrow> rx_enq ctx = rx_deq ctx + RX_QUEUE_SIZE"
    and "rxq_try_push d ctx = Some ctx' \<Longrightarrow> accept_list ctx' = accept_list ctx @ [d] \<and> accept_ok ctx'"
proof -
  let ?e = "rx_enq ctx" and ?d = "rx_deq ctx" and ?n = RX_QUEUE_SIZE
  note o = ok [unfolded accept_ok_def]
  have full: "cell_seq (rx_ring ctx (?e mod ?n)) \<noteq> ?e" if "?e = ?d + ?n"
  proof -
    have "cell_seq (rx_ring ctx (?d mod ?n)) = ?d + 1" using o that queue_size_pos by auto
    with that queue_size_pos show ?thesis by (simp add: dmesh_const)
  qed
  have room: "cell_seq (rx_ring ctx (?e mod ?n)) = ?e" if "?e \<noteq> ?d + ?n" using o that by auto
  show "rxq_try_push d ctx = None \<longleftrightarrow> ?e = ?d + ?n"
    using full room by (auto simp: rxq_try_push_def Let_def)
  assume p: "rxq_try_push d ctx = Some ctx'"
  then have ne: "?e \<noteq> ?d + ?n" using full by (auto simp: rxq_try_push_def Let_def)
  with o have lt: "?e < ?d + ?n" "?d \<le> ?e" by auto
  have e: "ctx' = ctx\<lparr>rx_enq := ?e + 1, rx_ring := (rx_ring ctx)(?e mod ?n := \<lparr>cell_desc = d, cell_seq = ?e + 1\<rparr>)\<rparr>"
    using p by (auto simp: rxq_try_push_def Let_def split: if_splits)
  have other: "i mod ?n \<noteq> ?e mod ?n" if "?d \<le> i" "i < ?d + ?n" "i \<noteq> ?e" for i
    using window_index [of ?d i ?n ?e] that lt by simp
  have "map (\<lambda>i. cell_desc (rx_ring ctx' (i mod ?n))) [?d..<?e] = map (\<lambda>i. cell_desc (rx_ring ctx (i mod ?n))) [?d..<?e]"
    using other lt by (auto simp: e)
  then have "accept_list ctx' = accept_list ctx @ [d]" using lt by (simp add: accept_list_def e)
  moreover have "accept_ok ctx'" unfolding accept_ok_def
  proof (intro conjI allI impI)
    show "rx_deq ctx' \<le> rx_enq ctx'" "rx_enq ctx' \<le> rx_deq ctx' + ?n" using lt by (simp_all add: e)
    fix i
    show "cell_seq (rx_ring ctx' (i mod ?n)) = i + 1" if "rx_deq ctx' \<le> i" "i < rx_enq ctx'"
      using that o lt other [of i] by (cases "i = ?e") (auto simp: e)
    show "cell_seq (rx_ring ctx' (i mod ?n)) = i" if "rx_enq ctx' \<le> i" "i < rx_deq ctx' + ?n"
      using that o lt other [of i] by (auto simp: e)
  qed
  ultimately show "accept_list ctx' = accept_list ctx @ [d] \<and> accept_ok ctx'" by simp
qed

lemma accept_pop:
  assumes ok: "accept_ok ctx"
  shows "rxq_try_pop ctx = None \<longleftrightarrow> rx_enq ctx = rx_deq ctx"
    and "rxq_try_pop ctx = Some (d, ctx') \<Longrightarrow> accept_list ctx = d # accept_list ctx' \<and> accept_ok ctx'"
proof -
  let ?e = "rx_enq ctx" and ?d = "rx_deq ctx" and ?n = RX_QUEUE_SIZE
  note o = ok [unfolded accept_ok_def]
  have empty: "cell_seq (rx_ring ctx (?d mod ?n)) \<noteq> ?d + 1" if "?e = ?d"
    using o that queue_size_pos by auto
  have some: "cell_seq (rx_ring ctx (?d mod ?n)) = ?d + 1" if "?e \<noteq> ?d" using o that by auto
  show "rxq_try_pop ctx = None \<longleftrightarrow> ?e = ?d" using empty some by (auto simp: rxq_try_pop_def Let_def)
  assume p: "rxq_try_pop ctx = Some (d, ctx')"
  then have "?e \<noteq> ?d" using empty by (auto simp: rxq_try_pop_def Let_def)
  with o have lt: "?d < ?e" "?e \<le> ?d + ?n" by auto
  let ?c = "rx_ring ctx (?d mod ?n)"
  have e: "d = cell_desc ?c" "ctx' = ctx\<lparr>rx_deq := ?d + 1, rx_ring := (rx_ring ctx)(?d mod ?n := ?c\<lparr>cell_seq := ?d + ?n\<rparr>)\<rparr>"
    using p by (auto simp: rxq_try_pop_def Let_def split: if_splits)
  have other: "i mod ?n \<noteq> ?d mod ?n" if "?d < i" "i < ?d + ?n" for i
    using window_index [of ?d i ?n ?d] that queue_size_pos by simp
  have "map (\<lambda>i. cell_desc (rx_ring ctx' (i mod ?n))) [?d + 1..<?e] = map (\<lambda>i. cell_desc (rx_ring ctx (i mod ?n))) [?d + 1..<?e]"
    by (auto simp: e)
  then have "accept_list ctx = d # accept_list ctx'" using lt by (simp add: accept_list_def e upt_conv_Cons)
  moreover have "accept_ok ctx'" unfolding accept_ok_def
  proof (intro conjI allI impI)
    show "rx_deq ctx' \<le> rx_enq ctx'" "rx_enq ctx' \<le> rx_deq ctx' + ?n" using lt by (simp_all add: e)
    fix i
    show "cell_seq (rx_ring ctx' (i mod ?n)) = i + 1" if "rx_deq ctx' \<le> i" "i < rx_enq ctx'"
      using that o lt other [of i] by (auto simp: e)
    show "cell_seq (rx_ring ctx' (i mod ?n)) = i" if "rx_enq ctx' \<le> i" "i < rx_deq ctx' + ?n"
      using that o lt other [of i] by (cases "i = ?d + ?n") (auto simp: e)
  qed
  ultimately show "accept_list ctx = d # accept_list ctx' \<and> accept_ok ctx'" by simp
qed

interpretation accept_queue: bounded_fifo rxq_try_push rxq_try_pop accept_list "\<lambda>_. RX_QUEUE_SIZE" accept_ok
proof
  fix ctx ctx' d
  assume ok: "accept_ok ctx"
  show "rxq_try_push d ctx = None \<longleftrightarrow> length (accept_list ctx) = RX_QUEUE_SIZE"
    using accept_push(1) [OF ok] ok by (auto simp: accept_list_def accept_ok_def)
  show "accept_list ctx' = accept_list ctx @ [d]" if "rxq_try_push d ctx = Some ctx'"
    using accept_push(2) [OF ok that] by simp
  show "accept_ok ctx' \<and> RX_QUEUE_SIZE = RX_QUEUE_SIZE" if "rxq_try_push d ctx = Some ctx'"
    using accept_push(2) [OF ok that] by simp
  show "rxq_try_pop ctx = None \<longleftrightarrow> accept_list ctx = []"
    using accept_pop(1) [OF ok] ok by (auto simp: accept_list_def accept_ok_def)
  assume p: "rxq_try_pop ctx = Some (d, ctx')"
  from accept_pop(2) [OF ok p] show "accept_list ctx = d # accept_list ctx'" "accept_ok ctx' \<and> RX_QUEUE_SIZE = RX_QUEUE_SIZE"
    by auto
qed

section \<open>Properties\<close>

definition demo_msg :: "nat \<Rightarrow> sw_descriptor" where
  "demo_msg i = empty_sw_descriptor\<lparr>body_buf_slot := int i * 8192, body_len := 100, dst_port := 1, sw_seq := of_nat i, valid := True\<rparr>"

definition demo_port :: dmesh_port_slot where
  "demo_port = init_slot\<lparr>role := ROLE_CLIENT, inbox := Some [empty_sw_descriptor, empty_sw_descriptor], inbox_ring := 2\<rparr>"

lemma demo_port_ok: "inbox_ok demo_port"
  by (simp add: inbox_ok_def demo_port_def init_slot_def)

text \<open>
  C10. The inbox of a connection never loses, duplicates or reorders a message: over any sequence of
  pushes by the receive path and pops by the application, what was queued before followed by what was
  accepted is what was delivered followed by what is still queued.
\<close>

theorem inbox_delivers_in_order:
  assumes "inbox_ok psl" and "inbox_queue.run acts psl = (taken, delivered, psl')"
  shows "inbox_list psl @ taken = delivered @ inbox_list psl' \<and> length (inbox_list psl') \<le> inbox_ring psl'"
  using inbox_queue.run_fifo [OF assms] by (auto simp: inbox_ok_def inbox_list_def)

theorem inbox_delivers_in_order_witness:
  "inbox_ok demo_port \<and> (\<exists>psl'. inbox_queue.run [Push (demo_msg 0), Push (demo_msg 1), Push (demo_msg 2), Pop] demo_port
      = ([demo_msg 0, demo_msg 1], [demo_msg 0], psl') \<and> inbox_list psl' = [demo_msg 1])"
proof -
  have r: "\<exists>psl'. inbox_queue.run [Push (demo_msg 0), Push (demo_msg 1), Push (demo_msg 2), Pop] demo_port
      = ([demo_msg 0, demo_msg 1], [demo_msg 0], psl')"
    by (simp add: inbox_push_cases inbox_pop_def Let_def demo_port_def init_slot_def)
  then obtain psl' where p: "inbox_queue.run [Push (demo_msg 0), Push (demo_msg 1), Push (demo_msg 2), Pop] demo_port
      = ([demo_msg 0, demo_msg 1], [demo_msg 0], psl')" by blast
  have "inbox_list demo_port = []" by (simp add: inbox_list_def demo_port_def init_slot_def)
  with inbox_delivers_in_order [OF demo_port_ok p] p demo_port_ok show ?thesis by auto
qed


definition demo_rx_ctx :: dpumesh_ctx where
  "demo_rx_ctx = (dpumesh_init (init_config (Some 256) (Some 8192) (Some 2)) 3 7 2097152 9 (\<lambda>_. None))
     \<lparr>ports := (\<lambda>_. init_slot)(1 := demo_port), landing_stripes := 1, rx_credit_shards := 2, rx_region_size := 2097152\<rparr>"

lemma demo_rx_simps [simp]:
  "ports demo_rx_ctx p = (if p = 1 then demo_port else init_slot)" "rx_dma_buf_size demo_rx_ctx = 2097152"
  "landing_stripes demo_rx_ctx = 1" "rx_credit_shards demo_rx_ctx = 2" "rx_region_size demo_rx_ctx = 2097152"
  "credits demo_rx_ctx i = 0"
  by (simp_all add: demo_rx_ctx_def dpumesh_init_def)


text \<open>
  C26. A landing that repeats the last accepted one, or whose sequence number lies up to half the
  sequence space before it, is refused and leaves the receive state as it was.
\<close>

theorem replayed_landing_refused:
  assumes "rx_seq_accept d psl = (True, psl')"
    and "e = d \<or> sw_seq d - sw_seq e \<noteq> 0 \<and> sw_seq d - sw_seq e \<le> 0x8000"
  shows "rx_seq_accept e psl' = (False, psl')"
proof -
  have s: "rx_seq_valid psl' \<and> rx_seq psl' = sw_seq d \<and> rx_next_pos psl' = of_int (body_buf_slot d) + body_len d"
    using assms(1) by (auto simp: rx_seq_accept_def Let_def split: if_splits)
  from assms(2) show ?thesis
  proof
    assume "e = d"
    with s show ?thesis by (auto simp: rx_seq_accept_def Let_def)
  next
    assume a: "sw_seq d - sw_seq e \<noteq> 0 \<and> sw_seq d - sw_seq e \<le> 0x8000"
    have neg: "0x8000 \<le> - x" if "x \<noteq> 0" "x \<le> 0x8000" for x :: u16
    proof -
      from that have u: "0 < uint x" "uint x \<le> 32768" by (simp_all add: word_le_def less_le uint_0_iff)
      have "uint (- x) = (- uint x) mod 65536" by (simp add: uint_word_ariths)
      also have "\<dots> = (65536 - uint x) mod 65536" by (simp add: mod_diff_eq)
      also have "\<dots> = 65536 - uint x" using u by (intro mod_pos_pos_trivial) auto
      finally show ?thesis using u(2) by (simp add: word_le_def)
    qed
    have m: "sw_seq e - sw_seq d = - (sw_seq d - sw_seq e)" by simp
    have "0x8000 \<le> sw_seq e - sw_seq d" unfolding m using a by (intro neg) blast+
    moreover have "sw_seq e - sw_seq d \<noteq> 0" using a unfolding m neg_equal_0_iff_equal by blast
    ultimately show ?thesis unfolding rx_seq_accept_def Let_def using s by (simp only: if_True if_False not_True_eq_False)
  qed
qed

theorem replayed_landing_refused_witness:
  "rx_seq_accept (demo_msg 1) demo_port = (True, demo_port\<lparr>rx_seq := 1, rx_next_pos := 8292, rx_seq_valid := True\<rparr>)
    \<and> rx_seq_accept (demo_msg 1) (demo_port\<lparr>rx_seq := 1, rx_next_pos := 8292, rx_seq_valid := True\<rparr>)
       = (False, demo_port\<lparr>rx_seq := 1, rx_next_pos := 8292, rx_seq_valid := True\<rparr>)"
proof -
  have a: "rx_seq_accept (demo_msg 1) demo_port = (True, demo_port\<lparr>rx_seq := 1, rx_next_pos := 8292, rx_seq_valid := True\<rparr>)"
    by (simp add: rx_seq_accept_def demo_msg_def demo_port_def init_slot_def)
  with replayed_landing_refused [OF a disjI1 [OF refl]] show ?thesis by simp
qed

end
