(* ===== verification/Host_Props.thy ===== *)
theory Host_Props
  imports Host_System Host_Rx_Props
begin

text \<open>
  The properties of the host library that hold in every reachable state: ownership of the transmit
  blocks, what a reservation and a posted descriptor may cover, termination of the transmit calls,
  handles and ports, and the error results of opening and polling.
\<close>

section \<open>Blocks\<close>

text \<open>The offset in the TX mapping that holds a byte of the stream of a connection.\<close>

definition tx_addr :: "dpumesh_ctx \<Rightarrow> nat \<Rightarrow> nat \<Rightarrow> nat" where
  "tx_addr ctx p x = nat (pblk (tx (ports ctx p)) ! (x div block_size ctx mod blocks_per_conn ctx)) * block_size ctx
     + x mod block_size ctx"

lemma same_block_addr:
  fixes bs :: nat
  assumes "a * bs + i = b * bs + j" and "i < bs" and "j < bs"
  shows "a = b \<and> i = j"
proof -
  have "(a * bs + i) div bs = a" "(b * bs + j) div bs = b" using assms(2,3) by simp_all
  with assms(1) have "a = b" by simp
  with assms(1) show ?thesis by simp
qed

lemma assigned_inj:
  assumes c: "chain_blocks n nb tc" and k: "tail_blk tc \<le> k" "k < head_blk_next tc" and l: "tail_blk tc \<le> l" "l < head_blk_next tc"
    and e: "pblk tc ! (k mod n) = pblk tc ! (l mod n)"
  shows "k = l"
proof -
  from c have b: "backed n tc" and d: "distinct (owned n tc)" by (auto simp: chain_blocks_def counted_def)
  have "distinct (assigned n tc)" using d by (simp add: owned_backed [OF b])
  then have "inj_on (\<lambda>k. pblk tc ! (k mod n)) {tail_blk tc..<head_blk_next tc}"
    by (simp add: assigned_def distinct_map)
  with k l e show ?thesis by (auto dest: inj_onD)
qed

lemma assigned_owned:
  assumes "chain_blocks n nb tc" and "tail_blk tc \<le> k" "k < head_blk_next tc"
  shows "pblk tc ! (k mod n) \<in> set (owned n tc)" "0 \<le> pblk tc ! (k mod n)"
proof -
  from assms(1) have b: "backed n tc" by (simp add: chain_blocks_def)
  show "0 \<le> pblk tc ! (k mod n)" using b assms(2,3) by (simp add: backed_def)
  show "pblk tc ! (k mod n) \<in> set (owned n tc)" using assms(2,3) by (auto simp: owned_backed [OF b] assigned_def)
qed

lemma stream_addr_inj:
  assumes c: "chain_inv (block_size ctx) (blocks_per_conn ctx) nb (tx (ports ctx p))"
    and x: "tx_f (tx (ports ctx p)) \<le> x" "x div block_size ctx < head_blk_next (tx (ports ctx p))"
    and y: "tx_f (tx (ports ctx p)) \<le> y" "y div block_size ctx < head_blk_next (tx (ports ctx p))"
    and e: "tx_addr ctx p x = tx_addr ctx p y"
  shows "x = y"
proof -
  let ?bs = "block_size ctx" and ?n = "blocks_per_conn ctx" and ?tc = "tx (ports ctx p)"
  from c have cb: "chain_blocks ?n nb ?tc" and bs: "0 < ?bs" and t: "tail_blk ?tc * ?bs \<le> tx_f ?tc"
    by (auto simp: chain_inv_def cursors_def)
  have ge: "tail_blk ?tc \<le> z div ?bs" if "tx_f ?tc \<le> z" for z
    using t that bs by (meson le_trans less_eq_div_iff_mult_less_eq)
  have m: "z mod ?bs < ?bs" for z using bs by simp
  from same_block_addr [OF e [unfolded tx_addr_def] m m]
  have b: "nat (pblk ?tc ! (x div ?bs mod ?n)) = nat (pblk ?tc ! (y div ?bs mod ?n))" "x mod ?bs = y mod ?bs" by auto
  have "pblk ?tc ! (x div ?bs mod ?n) = pblk ?tc ! (y div ?bs mod ?n)"
    using b(1) assigned_owned(2) [OF cb ge [OF x(1)] x(2)] assigned_owned(2) [OF cb ge [OF y(1)] y(2)] by simp
  from assigned_inj [OF cb ge [OF x(1)] x(2) ge [OF y(1)] y(2) this] have "x div ?bs = y div ?bs" .
  with b(2) show ?thesis by (metis div_mult_mod_eq)
qed

text \<open>
  C2. In every reachable state each block of the TX mapping has exactly one place: it is free in the
  shared pool, listed once, and owned by no connection, or it is owned by exactly one connection.
\<close>

theorem block_has_one_owner:
  assumes "reachable ctx" and "b < n_blocks (pool ctx)"
  shows "distinct (free_blocks (pool ctx))
    \<and> (if b \<in> set (free_blocks (pool ctx)) then \<forall>p. int b \<notin> held ctx p else \<exists>!p. int b \<in> held ctx p)"
proof -
  have h: "host_inv {} {} ctx" using reachable_inv [OF assms(1)] by (simp add: lib_inv_def)
  note I = host_invD [OF h]
  have d: "distinct (free_blocks (pool ctx))" using I(2) by (simp add: pool_ok_def)
  have pl: "int b \<in> pooled ctx \<longleftrightarrow> b \<in> set (free_blocks (pool ctx))" by (auto simp: pooled_def)
  have ce: "\<And>p q. p \<noteq> q \<Longrightarrow> held ctx p \<inter> held ctx q = {}" "\<And>p. held ctx p \<inter> pooled ctx = {}"
    "pooled ctx \<union> (\<Union>p. held ctx p) = {0..<int (n_blocks (pool ctx))}" using I(4) by (auto simp: census_def)
  have "int b \<in> pooled ctx \<union> (\<Union>p. held ctx p)" using ce(3) assms(2) by simp
  then show ?thesis using d pl ce(1,2) by (simp split: if_split) blast
qed

text \<open>
  C5. Every descriptor the library has ever posted to a forward ring either carries no bytes (an end
  marker) or covers bytes of one block of the registered TX mapping.
\<close>

theorem posted_descriptor_in_one_block:
  assumes "reachable ctx" and "d \<in> set (fwd_posted ctx r)" and "desc_size d \<noteq> 0"
  shows "\<exists>b < n_blocks (pool ctx). b * block_size ctx \<le> unat (desc_addr d)
    \<and> unat (desc_addr d) + unat (desc_size d) \<le> (b + 1) * block_size ctx
    \<and> (b + 1) * block_size ctx \<le> num_slots ctx * slot_size ctx"
proof -
  have h: "host_inv {} {} ctx" using reachable_inv [OF assms(1)] by (simp add: lib_inv_def)
  note I = host_invD [OF h]
  from I(6) assms(2,3) obtain b where b: "b < n_blocks (pool ctx)" "b * block_size ctx \<le> unat (desc_addr d)"
    "unat (desc_addr d) + unat (desc_size d) \<le> (b + 1) * block_size ctx"
    by (auto simp: posted_ok_def desc_in_block_def)
  have "(b + 1) * block_size ctx \<le> n_blocks (pool ctx) * block_size ctx" using b(1) by (intro mult_le_mono1) simp
  also have "\<dots> \<le> num_slots ctx * slot_size ctx" using I(1) by (simp add: geometry_ok_def)
  finally show ?thesis using b by blast
qed

text \<open>
  C4. A successful allocation gives the caller bytes that lie in one block owned by its connection,
  and none of them holds a byte of the stream that is still unacknowledged.
\<close>

theorem allocation_is_exclusive:
  assumes "reachable ctx" and "dmesh_alloc claims mem now h len ctx = (Inr moff, ctx')"
  shows "0 < len \<and> (\<exists>p b. named ctx' h = Some p \<and> int b \<in> held ctx' p
    \<and> b * block_size ctx' \<le> moff \<and> moff + len \<le> (b + 1) * block_size ctx'
    \<and> (\<forall>x. tx_f (tx (ports ctx' p)) \<le> x \<longrightarrow> x < tx_w (tx (ports ctx' p)) \<longrightarrow> tx_addr ctx' p x \<notin> {moff..<moff + len}))"
proof -
  from alloc_lib [OF reachable_inv [OF assms(1)] assms(2)] obtain p where
    I: "lib_inv {} {} {} ctx'" and p: "named ctx' h = Some p" and r: "reserved p len moff ctx'" and len: "0 < len" by auto
  let ?bs = "block_size ctx'" and ?n = "blocks_per_conn ctx'" and ?tc = "tx (ports ctx' p)"
  note H = host_invD [of "{}" "{}" ctx', OF conjunct1 [OF I [unfolded lib_inv_def]]]
  from r have rl: "resv_len ?tc = len" "resv_moff ?tc = moff" by (simp_all add: reserved_def)
  have s: "resv_ok ?bs ?n ?tc" "role (ports ctx' p) \<noteq> ROLE_FREE"
    using H(5) [of p] rl len by (auto simp: settled_def Let_def)
  have c: "chain_inv ?bs ?n (n_blocks (pool ctx')) ?tc" using H(3) [of p] s(2) by (auto simp: port_ok_def slot_ok_def)
  then have cb: "chain_blocks ?n (n_blocks (pool ctx')) ?tc" and cu: "cursors ?bs ?n ?tc" by (auto simp: chain_inv_def)
  define k where "k = tx_w ?tc div ?bs"
  define w where "w = tx_w ?tc mod ?bs"
  have w: "w + len \<le> ?bs" and kh: "k < head_blk_next ?tc" and mo: "moff = nat (pblk ?tc ! (k mod ?n)) * ?bs + w"
    using s(1) rl len by (auto simp: resv_ok_def k_def w_def)
  have bs: "0 < ?bs" and fw: "tx_f ?tc \<le> tx_w ?tc" and tf: "tail_blk ?tc * ?bs \<le> tx_f ?tc" using cu by (auto simp: cursors_def)
  have tk: "tail_blk ?tc \<le> k" unfolding k_def using tf fw bs by (meson le_trans less_eq_div_iff_mult_less_eq)
  note ao = assigned_owned [OF cb tk kh]
  let ?b = "nat (pblk ?tc ! (k mod ?n))"
  have held: "int ?b \<in> held ctx' p" using ao by (simp add: held_def)
  have "tx_addr ctx' p x \<notin> {moff..<moff + len}" if x: "tx_f ?tc \<le> x" "x < tx_w ?tc" for x
  proof
    assume a: "tx_addr ctx' p x \<in> {moff..<moff + len}"
    define y where "y = tx_w ?tc + (tx_addr ctx' p x - moff)"
    have off: "w + (tx_addr ctx' p x - moff) < ?bs" using a w by auto
    have "y = k * ?bs + (w + (tx_addr ctx' p x - moff))" by (simp add: y_def k_def w_def)
    then have yd: "y div ?bs = k" "y mod ?bs = w + (tx_addr ctx' p x - moff)" using off by simp_all
    have "tx_addr ctx' p y = tx_addr ctx' p x" using a mo by (simp add: tx_addr_def [of ctx' p y] yd)
    moreover have "x div ?bs < head_blk_next ?tc" using kh x(2) unfolding k_def by (meson div_le_mono le_less_trans less_imp_le)
    moreover have ge: "tx_w ?tc \<le> y" by (simp add: y_def)
    moreover have "y div ?bs < head_blk_next ?tc" unfolding yd(1) by (rule kh)
    ultimately have "x = y" using stream_addr_inj [OF c x(1) _ le_trans [OF fw ge]] by metis
    with x(2) ge show False by linarith
  qed
  with len p held mo w show ?thesis by (intro conjI exI [of _ p] exI [of _ ?b]) (simp_all add: algebra_simps)
qed

section \<open>A run\<close>

text \<open>A configuration of 2 MiB in four blocks; one event queue, one client connection.\<close>

definition demo_init :: dpumesh_ctx where
  "demo_init = dpumesh_init (init_config (Some 256) (Some 8192) (Some 2)) 3 7 2097152 9 (\<lambda>_. None)"

lemma demo_config:
  "init_config (Some 256) (Some 8192) (Some 2) = \<lparr>g_num_slots = 256, g_slot_size = 8192, g_k_rings = 2,
     g_block_size = 524288, g_n_blocks = 4, g_blocks_per_conn = 4, g_su_depth = 2048, g_recycle_reserve = 1\<rparr>"
proof -
  have "grow_depth 4096 32768 64 = 4096"
    by (simp add: grow_depth.simps [of _ _ 64] grow_depth.simps [of _ _ 128] grow_depth.simps [of _ _ 256]
        grow_depth.simps [of _ _ 512] grow_depth.simps [of _ _ 1024] grow_depth.simps [of _ _ 2048] grow_depth.simps [of _ _ 4096])
  then have "tx_depth 4096 = 2048" by (simp add: tx_depth_def Let_def dmesh_const)
  then show ?thesis unfolding init_config_def Let_def option.case by (simp add: dmesh_const)
qed

definition demo_start :: dpumesh_ctx where
  "demo_start = demo_init\<lparr>landing_stripes := 1, rx_credit_shards := 2, rx_region_size := 2097152, ctx_inbox_ring := 256\<rparr>"

lemma demo_host_start: "host_start demo_start"
proof (rule host_start.intros)
  show "geometry_accepted (init_config (Some 256) (Some 8192) (Some 2))"
    by (simp add: demo_config geometry_accepted_def Let_def RX_SLOT_SIZE_def DPU_BUFFER_SIZE_def)
  show "configure_landing_geometry 1 (dpumesh_init (init_config (Some 256) (Some 8192) (Some 2)) 3 7 2097152 9 (\<lambda>_. None)) = Some demo_start"
    by (simp add: demo_start_def demo_init_def demo_config dpumesh_init_def configure_landing_geometry_def Let_def RX_SLOT_SIZE_def
        dmesh_const grow_depth.simps [of _ _ 256])
qed

definition demo_eq :: dpumesh_ctx where
  "demo_eq = host_step (Create_eq True True) demo_start"

definition demo_open :: dpumesh_ctx where
  "demo_open = host_step (Open True True 0 5) demo_eq"

definition demo_qp :: dmesh_qp where
  "demo_qp = \<lparr>qp_eq = 0, qp_role = ROLE_CLIENT, local_port = 1, qp_dst_service = 5, remote_pod = DMESH_POD_BLANK, remote_port = 0,
     peer_closed = False, fin_sent = False, qp_seq = 0, qp_rx_slot = -1, qp_rx_len = 0\<rparr>"

definition demo_slot :: dmesh_port_slot where
  "demo_slot = open_slot ROLE_CLIENT 0 0 (init_slot\<lparr>inbox := Some (replicate 256 empty_sw_descriptor), inbox_ring := 256\<rparr>)"

lemma demo_eq_eq: "demo_eq = demo_start\<lparr>eqs := [0 \<mapsto> new_eq True], n_eqs := 1\<rparr>"
  by (simp add: demo_eq_def dmesh_create_eq_def demo_start_def demo_init_def dpumesh_init_def dmesh_const)

lemma demo_eq_fields [simp]:
  "next_port demo_eq = 1" "port_span demo_eq = 256" "ports demo_eq = (\<lambda>_. init_slot)" "eqs demo_eq = [0 \<mapsto> new_eq True]"
  "qps demo_eq = Map.empty" "next_handle demo_eq = 0" "ctx_inbox_ring demo_eq = 256" "block_size demo_eq = 524288"
  "blocks_per_conn demo_eq = 4" "su_depth demo_eq = 2048" "slot_size demo_eq = 8192" "num_slots demo_eq = 256"
  "k_rings demo_eq = 2" "pool demo_eq = block_pool_init 4" "recycle_reserve demo_eq = 1" "pool_waiters demo_eq = empty_bitmap"
  "fwd_posted demo_eq = (\<lambda>_. [])" "ring_dead demo_eq = (\<lambda>_. False)" "claim_calls demo_eq = 0" "service_id demo_eq = 7"
  "ctx_pod_id demo_eq = 3" "dpa_mmap_handle demo_eq = 9" "tx_armed_total demo_eq = 0"
  by (simp_all add: demo_eq_eq demo_start_def demo_init_def demo_config dpumesh_init_def dmesh_const)

lemma demo_open_eq:
  "demo_open = demo_eq\<lparr>next_handle := 1, next_port := 2, ports := (\<lambda>_. init_slot)(1 := demo_slot),
     eqs := [0 \<mapsto> (new_eq True)\<lparr>nqp := 1\<rparr>], qps := [0 \<mapsto> demo_qp]\<rparr>"
proof -
  have b: "\<not> port_busy init_slot" "inbox init_slot = None" "nqp (new_eq True) = 0"
    by (simp_all add: port_busy_def init_slot_def tx_inflight_def new_eq_def)
  have "alloc_scan 256 (Suc 254) (demo_eq\<lparr>next_handle := 1\<rparr>) = (Some 1, demo_eq\<lparr>next_handle := 1, next_port := 2\<rparr>)"
    unfolding alloc_scan.simps(2) using b by (simp add: Let_def)
  then have "alloc_sweep (demo_eq\<lparr>next_handle := 1\<rparr>) = (Some 1, demo_eq\<lparr>next_handle := 1, next_port := 2\<rparr>)"
    by (subst alloc_sweep.simps) (simp add: Let_def)
  then show ?thesis using b
    by (simp add: demo_open_def dmesh_qp_open_def Let_def dpumesh_alloc_port_def inbox_prepare_def demo_slot_def demo_qp_def
        upd_port_def upd_eq_def fun_eq_iff)
qed

lemma demo_reachable: "reachable demo_eq" "reachable demo_open"
proof -
  have s: "reachable demo_start" using demo_host_start by (auto simp: reachable_def)
  show e: "reachable demo_eq" unfolding demo_eq_def by (rule reachable_step [OF s]) simp
  show "reachable demo_open" unfolding demo_open_def by (rule reachable_step [OF e]) simp
qed

lemma demo_open_fields [simp]:
  "ports demo_open = (\<lambda>_. init_slot)(1 := demo_slot)" "qps demo_open 0 = Some demo_qp"
  "block_size demo_open = 524288" "blocks_per_conn demo_open = 4" "su_depth demo_open = 2048" "slot_size demo_open = 8192"
  "num_slots demo_open = 256" "k_rings demo_open = 2" "pool demo_open = block_pool_init 4" "recycle_reserve demo_open = 1"
  "pool_waiters demo_open = empty_bitmap" "fwd_posted demo_open = (\<lambda>_. [])" "ring_dead demo_open = (\<lambda>_. False)"
  "claim_calls demo_open = 0" "service_id demo_open = 7" "ctx_pod_id demo_open = 3"
  "dpa_mmap_handle demo_open = 9" "local_port demo_qp = 1"
  by (simp_all add: demo_open_eq demo_qp_def)

lemma demo_slot_fields [simp]:
  "role demo_slot = ROLE_CLIENT" "user demo_slot = Some 0" "slot_eq demo_slot = Some 0" "tx_error demo_slot = None"
  "tx demo_slot = tx init_slot" "su demo_slot = su init_slot" "tx_gate demo_slot = False" "tx_wait_state demo_slot = TX_WAIT_IDLE"
  by (simp_all add: demo_slot_def open_slot_def port_reset_tx_def init_slot_def)

definition demo_fifo_ready :: su_fifo where
  "demo_fifo_ready = \<lparr>su_alloc = True, su_seq = replicate 2048 0, su_end = replicate 2048 0, su_done = replicate 2048 False,
     su_head = 0, su_tail = 0\<rparr>"

definition demo_chain :: tx_chain where
  "demo_chain = (tx init_slot)\<lparr>pblk := (replicate 8 (-1))[0 := 0], blk_used := (replicate 8 0)[0 := 0], nblk_owned := 1, head_blk_next := 1,
     resv_len := 100, resv_moff := 0\<rparr>"

definition demo_alloced :: dpumesh_ctx where
  "demo_alloced = demo_open\<lparr>pool := (block_pool_init 4)\<lparr>block_free := pack_top 0 1\<rparr>,
     ports := (\<lambda>_. init_slot)(1 := demo_slot\<lparr>tx_gate := True, su := demo_fifo_ready, tx := demo_chain\<rparr>)\<rparr>"

lemma demo_alloc: "dmesh_alloc (\<lambda>_. Claim_Ok) True 0 0 100 demo_open = (Inr 0, demo_alloced)"
proof -
  let ?c1 = "upd_port 1 (\<lambda>psl. psl\<lparr>tx_gate := True\<rparr>) demo_open"
  let ?c = "upd_port 1 (\<lambda>psl. psl\<lparr>su := demo_fifo_ready\<rparr>) ?c1"
  have v: "dmesh_tx_qp_valid 0 demo_open = (Inr 1, ?c1)"
    by (simp add: dmesh_tx_qp_valid_def Let_def live_role_def tx_call_open_def init_slot_def)
  have q: "tx_tracking_ensure True (su_depth ?c1) (su (ports ?c1 1)) = Inr demo_fifo_ready"
    by (simp add: tx_tracking_ensure_def init_slot_def demo_fifo_ready_def)
  have room: "tx_tracking_reserve_room ?c (ports ?c 1) 100"
    by (simp add: tx_tracking_reserve_room_def tx_tracking_slots_needed_def demo_fifo_ready_def init_slot_def Let_def dmesh_const)
  have t: "tx (ports ?c 1) = tx init_slot" by simp
  have need: "need_block 524288 100 (tx init_slot) = 0" by (simp add: need_block_def init_slot_def)
  have r: "tx_refresh_blocks 1 ?c = ?c"
    by (simp add: tx_refresh_blocks_def refresh_chain_def Let_def init_slot_def demo_fifo_ready_def recycle_slot_def dmesh_const
        upd_tx_def upd_port_def fun_eq_iff)
  have g: "block_pool_grab (block_pool_init 4) = Some (0, (block_pool_init 4)\<lparr>block_free := pack_top 0 1\<rparr>)"
    by (simp add: block_pool_grab_def block_pool_init_def top_head_def)
  have "reserve_tail 1 100 ?c = (Inr 0, demo_alloced)"
    using g need
    by (simp add: reserve_tail_def Let_def tx_wait_cancel_def place_message_def probe_head_def init_slot_def dmesh_const
        demo_alloced_def demo_chain_def upd_tx_def upd_port_def)
  then have "dpumesh_tx_reserve True 1 100 ?c1 = (Inr 0, demo_alloced)"
    using room r q need unfolding reserve_eq Let_def q by (simp add: live_role_def init_slot_def)
  with v show ?thesis by (simp add: dmesh_alloc_def)
qed

definition demo_committed :: dpumesh_ctx where
  "demo_committed = demo_alloced\<lparr>ports := (\<lambda>_. init_slot)(1 := demo_slot\<lparr>tx_gate := True, su := demo_fifo_ready,
     tx := demo_chain\<lparr>tx_w := 100, tx_c := 100, blk_used := (replicate 8 0)[0 := 100], resv_len := 0, resv_moff := 0\<rparr>\<rparr>)\<rparr>"

lemma demo_commit: "dpumesh_tx_commit 1 (Some 0) 100 demo_alloced = (Inr (), demo_committed)"
  by (simp add: dpumesh_tx_commit_def demo_alloced_def demo_committed_def Let_def demo_chain_def init_slot_def upd_tx_def upd_port_def
      commit_chain_def)

definition demo_sent_chain :: "nat \<Rightarrow> nat \<Rightarrow> tx_chain" where
  "demo_sent_chain w s = \<lparr>tx_w = w, tx_s = s, tx_c = w, tx_f = 0, resv_len = 0, resv_moff = 0, tail_blk = 0, head_blk_next = 1,
     pblk = (replicate 8 (-1))[0 := 0], recyc = replicate 8 0, blk_used = (replicate 8 0)[0 := w], nblk_owned = 1, nrec = 0\<rparr>"

lemma demo_committed_fields [simp]:
  "tx (ports demo_committed 1) = demo_sent_chain 100 0" "su (ports demo_committed 1) = demo_fifo_ready"
  "block_size demo_committed = 524288" "blocks_per_conn demo_committed = 4" "slot_size demo_committed = 8192"
  "qps demo_committed 0 = Some demo_qp" "su_depth demo_committed = 2048" "num_slots demo_committed = 256" "k_rings demo_committed = 2"
  "tx_deadline_ns (ports demo_committed 1) = 0" "slot_eq (ports demo_committed 1) = Some 0"
  "ring_dead demo_committed = (\<lambda>_. False)" "claim_calls demo_committed = 0" "fwd_posted demo_committed = (\<lambda>_. [])"
  by (simp_all add: demo_committed_def demo_alloced_def demo_chain_def demo_sent_chain_def init_slot_def demo_slot_def open_slot_def
      port_reset_tx_def dmesh_const)

lemmas demo_committed_Suc [simp] = demo_committed_fields [unfolded One_nat_def]

lemma upd_tx_same: "upd_tx p (\<lambda>_. tx (ports ctx p)) ctx = ctx"
  by (simp add: upd_tx_def upd_port_def)

lemma demo_next_unit:
  "next_send_upto 524288 4 8192 False None (demo_sent_chain 100 0) = (None, demo_sent_chain 100 0)"
  "next_send_upto 524288 4 8192 True None (demo_sent_chain 100 0) = (Some (0, 100), demo_sent_chain 100 0)"
  "next_send_upto 524288 4 8192 f None (demo_sent_chain 128 128) = (None, demo_sent_chain 128 128)"
  by (subst next_send_upto.simps, simp add: demo_sent_chain_def Let_def dpa_dma_payload_cap_def dpa_dma_copy_prefix_def dmesh_const)+

definition demo_posted :: dpumesh_ctx where
  "demo_posted = host_step (Post (\<lambda>_. Claim_Ok) 0 0 (Some 0) 100) demo_alloced"

lemma demo_reachable_post: "reachable demo_alloced" "reachable demo_posted"
proof -
  have a: "demo_alloced = host_step (Alloc (\<lambda>_. Claim_Ok) True 0 0 100) demo_open" using demo_alloc by simp
  show r: "reachable demo_alloced" unfolding a by (rule reachable_step [OF demo_reachable(2)]) simp
  have "qps demo_alloced 0 = Some demo_qp" by (simp add: demo_alloced_def)
  then have "allowed (Post (\<lambda>_. Claim_Ok) 0 0 (Some 0) 100) demo_alloced"
    using demo_commit by (simp add: well_posted_def)
  then show "reachable demo_posted" unfolding demo_posted_def by (rule reachable_step [OF r])
qed

lemma demo_drain_step:
  fixes c :: dpumesh_ctx
  assumes "tx (ports c 1) = demo_sent_chain 100 0" "su (ports c 1) = demo_fifo_ready" "block_size c = 524288" "blocks_per_conn c = 4"
    "qps c 0 = Some demo_qp" "su_depth c = 2048" "num_slots c = 256" "slot_size c = 8192" "k_rings c = 2"
    "ring_dead c = (\<lambda>_. False)" "fwd_posted c = (\<lambda>_. [])"
  shows "\<exists>c'. drain_step (\<lambda>_. Claim_Ok) 0 1 None 0 100 c = (Inr (), c') \<and> fwd_posted c' 1 = [fill_dma_desc c (data_desc demo_qp 0 100)]
     \<and> tx (ports c' 1) = demo_sent_chain 128 128 \<and> block_size c' = 524288 \<and> blocks_per_conn c' = 4 \<and> slot_size c' = 8192"
proof -
  define c1 where "c1 = upd_tx 1 (set_tail_end 524288 4 0 128) c"
  define q where "q = demo_fifo_ready\<lparr>su_seq := (replicate 2048 0)[0 := 1], su_end := (replicate 2048 0)[0 := 128],
    su_done := (replicate 2048 False)[0 := False], su_head := 1\<rparr>"
  define c2 where "c2 = upd_port 1 (\<lambda>psl. psl\<lparr>tx := (tx psl)\<lparr>tx_s := 128\<rparr>, su := q\<rparr>) c1"
  define d where "d = data_desc demo_qp 0 100"
  have t1: "tx (ports c1 1) = demo_sent_chain 128 0" using assms(1) by (simp add: c1_def upd_tx_def set_tail_end_def demo_sent_chain_def)
  have "fifo_track 2048 1 128 0 demo_fifo_ready = Inr (128, q)"
    by (simp add: fifo_track_def demo_fifo_ready_def q_def Let_def su_idx_def)
  then have tr: "dpumesh_tx_track 1 (sw_seq d) 128 c1 = Inr c2"
    using assms t1 by (simp add: dpumesh_tx_track_def c2_def d_def data_desc_def demo_qp_def demo_sent_chain_def c1_def upd_tx_def)
  have rej: "\<not> enqueue_rejects c2 d"
    using assms by (simp add: enqueue_rejects_def c2_def c1_def upd_tx_def d_def data_desc_def demo_qp_def empty_sw_descriptor_def
        dpa_dma_payload_cap_def dpa_dma_copy_prefix_def dmesh_const Let_def)
  have ring: "nat (dmesh_forward_ring (src_port d) (int (k_rings c2))) = 1"
    using assms by (simp add: dmesh_forward_ring_def c2_def c1_def upd_tx_def d_def data_desc_def demo_qp_def)
  define c3 where "c3 = c2\<lparr>claim_calls := claim_calls c2 + 1, fwd_posted := (fwd_posted c2)(1 := fwd_posted c2 1 @ [fill_dma_desc c2 d])\<rparr>"
  have en: "dpumesh_enqueue (\<lambda>_. Claim_Ok) d c2 = (Inr (), c3)"
    using rej ring assms by (simp add: dpumesh_enqueue_def Let_def c3_def) (simp add: c2_def c1_def upd_tx_def)
  have em: "emit_desc (\<lambda>_. Claim_Ok) 0 0 100 128 c1 = (Inr (), upd_qp 0 (\<lambda>c. c\<lparr>qp_seq := qp_seq c + 1\<rparr>) c3)"
    using assms tr en by (simp add: emit_desc_def track_and_post_def d_def [symmetric] c1_def upd_tx_def)
  have ds: "drain_step (\<lambda>_. Claim_Ok) 0 1 None 0 100 c = (Inr (), upd_qp 0 (\<lambda>c. c\<lparr>qp_seq := qp_seq c + 1\<rparr>) c3)"
    using assms em by (simp add: drain_step_def Let_def align128_def demo_sent_chain_def c1_def upd_tx_def)
  have "fill_dma_desc c2 d = fill_dma_desc c d" by (simp add: fill_dma_desc_def c2_def c1_def upd_tx_def upd_port_def)
  moreover have "fwd_posted c2 = fwd_posted c" "block_size c2 = block_size c" "blocks_per_conn c2 = blocks_per_conn c"
    "slot_size c2 = slot_size c" by (simp_all add: c2_def c1_def upd_tx_def)
  moreover have "tx (ports c2 1) = demo_sent_chain 128 128" using t1 by (simp add: c2_def demo_sent_chain_def)
  ultimately show ?thesis using assms ds by (simp add: upd_qp_def c3_def d_def)
qed

lemma demo_posted_desc: "\<exists>c. fwd_posted demo_posted 1 = [fill_dma_desc c (data_desc demo_qp 0 100)]"
proof -
  let ?cl = "\<lambda>_::nat. Claim_Ok"
  let ?c = "tx_disarm_tail 1 demo_committed"
  have c: "tx (ports ?c 1) = demo_sent_chain 100 0" "su (ports ?c 1) = demo_fifo_ready" "block_size ?c = 524288" "blocks_per_conn ?c = 4"
    "qps ?c 0 = Some demo_qp" "su_depth ?c = 2048" "num_slots ?c = 256" "slot_size ?c = 8192" "k_rings ?c = 2"
    "ring_dead ?c = (\<lambda>_. False)" "fwd_posted ?c = (\<lambda>_. [])"
    by (simp_all add: ev_frameD [OF ev_disarm_tail])
  from demo_drain_step [OF c] obtain c' where s: "drain_step ?cl 0 1 None 0 100 ?c = (Inr (), c')"
    and f: "fwd_posted c' 1 = [fill_dma_desc ?c (data_desc demo_qp 0 100)]" and t: "tx (ports c' 1) = demo_sent_chain 128 128"
    "block_size c' = 524288" "blocks_per_conn c' = 4" "slot_size c' = 8192" by blast
  have n0: "dpumesh_tx_next_send_upto 1 False None demo_committed = (None, demo_committed)"
    using upd_tx_same [of 1 demo_committed] by (simp add: dpumesh_tx_next_send_upto_def demo_next_unit)
  have n1: "dpumesh_tx_next_send_upto 1 True None ?c = (Some (0, 100), ?c)"
    using upd_tx_same [of 1 ?c] c by (simp add: dpumesh_tx_next_send_upto_def demo_next_unit)
  have n2: "dpumesh_tx_next_send_upto 1 True None c' = (None, c')"
    using upd_tx_same [of 1 c'] t by (simp add: dpumesh_tx_next_send_upto_def demo_next_unit)
  have d0: "dmesh_drain_tx_locked ?cl 0 False demo_committed = (Some (Inr ()), demo_committed)"
    using n0 by (simp add: dmesh_drain_tx_locked_def dmesh_drain_tx_upto_locked_def Let_def demo_sent_chain_def)
  have l: "drain_tx_loop ?cl 0 1 True None (Suc (Suc m)) ?c = (Some (Inr ()), c')" for m using n1 n2 s by simp
  have "tx_c (tx (ports ?c 1)) - tx_s (tx (ports ?c 1)) + 1 = Suc (Suc 99)" unfolding c(1) by (simp add: demo_sent_chain_def)
  then have "dmesh_drain_tx_locked ?cl 0 True ?c = (Some (Inr ()), c')"
    using c(5) l [of 99] unfolding dmesh_drain_tx_locked_def dmesh_drain_tx_upto_locked_def Let_def
    by (simp only: option.case demo_open_fields)
  then have "dmesh_tx_after_commit ?cl 0 0 demo_committed = (Some (Inr ()), c')"
    using d0 by (simp add: dmesh_tx_after_commit_def Let_def demo_sent_chain_def tx_inflight_def demo_fifo_ready_def)
  then have "demo_posted = dmesh_tx_call_done 0 c'"
    using demo_commit by (simp add: demo_posted_def dmesh_post_send_def dmesh_tx_call_active_def tx_call_open_def demo_alloced_def demo_chain_def)
  moreover have "fwd_posted (dmesh_tx_call_done 0 c') = fwd_posted c'" by (simp add: dmesh_tx_call_done_def split: option.split)
  ultimately show ?thesis using f by auto
qed

lemma demo_desc_fields:
  "desc_size (fill_dma_desc c (data_desc demo_qp 0 100)) = 100" "desc_addr (fill_dma_desc c (data_desc demo_qp 0 100)) = 0"
  by (simp_all add: fill_dma_desc_def data_desc_def empty_sw_descriptor_def)

section \<open>Witnesses\<close>

theorem block_has_one_owner_witness:
  "reachable demo_open \<and> 3 < n_blocks (pool demo_open)
    \<and> (if 3 \<in> set (free_blocks (pool demo_open)) then \<forall>p. int 3 \<notin> held demo_open p else \<exists>!p. int 3 \<in> held demo_open p)"
proof -
  have n: "3 < n_blocks (pool demo_open)" by (simp add: block_pool_init_def)
  from block_has_one_owner [OF demo_reachable(2) n] n demo_reachable(2) show ?thesis by blast
qed

theorem posted_descriptor_in_one_block_witness:
  "\<exists>d. reachable demo_posted \<and> d \<in> set (fwd_posted demo_posted 1) \<and> desc_size d = 100
    \<and> (\<exists>b < n_blocks (pool demo_posted). unat (desc_addr d) + 100 \<le> (b + 1) * block_size demo_posted)"
proof -
  obtain d where d: "d \<in> set (fwd_posted demo_posted 1)" "desc_size d = 100"
    using demo_posted_desc demo_desc_fields by auto
  then have "desc_size d \<noteq> 0" "unat (desc_size d) = 100" by simp_all
  with posted_descriptor_in_one_block [OF demo_reachable_post(2) d(1)] d demo_reachable_post(2) show ?thesis by metis
qed

theorem allocation_is_exclusive_witness:
  "reachable demo_open \<and> dmesh_alloc (\<lambda>_. Claim_Ok) True 0 0 100 demo_open = (Inr 0, demo_alloced)
    \<and> (\<exists>p b. named demo_alloced 0 = Some p \<and> int b \<in> held demo_alloced p \<and> 0 + 100 \<le> (b + 1) * block_size demo_alloced)"
  using allocation_is_exclusive [OF demo_reachable(2) demo_alloc] demo_reachable(2) demo_alloc by blast

section \<open>Calls\<close>



text \<open>
  C12. Handles and ports agree in every reachable state: an open handle names a live port other than
  port 0 whose user is that handle, so two handles never share a port, and a live port that has a user
  is the port of that handle.
\<close>

theorem handles_and_ports_agree:
  assumes "reachable ctx"
  shows "(qps ctx h = Some c \<longrightarrow> local_port c \<noteq> 0 \<and> live_role (role (ports ctx (local_port c)))
      \<and> user (ports ctx (local_port c)) = Some h)
    \<and> (qps ctx h = Some c \<longrightarrow> qps ctx h' = Some c' \<longrightarrow> local_port c = local_port c' \<longrightarrow> h = h')
    \<and> (live_role (role (ports ctx p)) \<longrightarrow> user (ports ctx p) = Some h \<longrightarrow> map_option local_port (qps ctx h) = Some p)"
proof -
  have "handles_ok {} ctx" using reachable_inv [OF assms] by (simp add: lib_inv_def)
  then have 1: "\<And>h c. qps ctx h = Some c \<Longrightarrow> local_port c \<noteq> 0 \<and> live_role (role (ports ctx (local_port c)))
        \<and> user (ports ctx (local_port c)) = Some h"
    and 2: "\<And>p h. live_role (role (ports ctx p)) \<Longrightarrow> user (ports ctx p) = Some h \<Longrightarrow> map_option local_port (qps ctx h) = Some p"
    by (simp_all add: handles_ok_def)
  have "h = h'" if "qps ctx h = Some c" "qps ctx h' = Some c'" "local_port c = local_port c'"
    using 1 [OF that(1)] 1 [OF that(2)] that(3) by simp
  with 1 2 show ?thesis by blast
qed

theorem handles_and_ports_agree_witness:
  "reachable demo_open \<and> qps demo_open 0 = Some demo_qp \<and> user (ports demo_open (local_port demo_qp)) = Some 0"
  using handles_and_ports_agree [OF demo_reachable(2), of 0 demo_qp 0 demo_qp 1] demo_reachable(2) demo_open_fields(2) by blast

text \<open>
  C27. A poll of an existing event queue with room for at least one event succeeds and gives at most as
  many events as asked for; any other poll is refused with EINVAL and changes nothing.
\<close>

theorem poll_bounded_or_refused:
  assumes "reachable ctx"
  shows "if eqs ctx e \<noteq> None \<and> 0 < m
    then \<exists>evs. fst (dmesh_poll_eq claims mem now e m ctx) = Inr evs \<and> int (length evs) \<le> m
    else dmesh_poll_eq claims mem now e m ctx = (Inl EINVAL, ctx)"
proof (cases "eqs ctx e \<noteq> None \<and> 0 < m")
  case True
  obtain r c where p: "dmesh_poll_eq claims mem now e m ctx = (r, c)" by fastforce
  note k = poll_lib [OF reachable_inv [OF assms] p]
  then obtain evs where r: "r = Inr evs" using True by (cases r) auto
  with k have "int (length evs) \<le> m" by simp
  with p r True show ?thesis by simp
qed (auto simp: dmesh_poll_eq_def)

theorem poll_bounded_or_refused_witness:
  "reachable demo_open \<and> eqs demo_open 0 \<noteq> None
    \<and> (\<exists>evs. fst (dmesh_poll_eq (\<lambda>_. Claim_Ok) True 0 0 4 demo_open) = Inr evs \<and> int (length evs) \<le> 4)"
proof -
  have e: "eqs demo_open 0 \<noteq> None" by (simp add: demo_open_eq)
  with poll_bounded_or_refused [OF demo_reachable(2), of 0 4 "\<lambda>_. Claim_Ok" True 0] demo_reachable(2) show ?thesis by simp
qed

text \<open>
  C28. With memory available, opening a connection fails only when every client port is taken: in use,
  still holding blocks, or with units in flight.
\<close>

theorem open_fails_only_when_full:
  assumes "0 < port_span ctx" and "dmesh_qp_open True True e dst ctx = (Inl x, ctx')"
  shows "x = ENOMEM \<and> (\<forall>p. 0 < p \<longrightarrow> p < DMESH_UPORT_BASE \<longrightarrow> port_busy (ports ctx p))"
proof -
  let ?c0 = "ctx\<lparr>next_handle := next_handle ctx + 1\<rparr>"
  obtain w c1 where s: "alloc_sweep ?c0 = (w, c1)" by fastforce
  note sp = alloc_sweep_spec [OF s]
  have pr: "\<exists>c2. inbox_prepare True p c = Some c2" for p c by (simp add: inbox_prepare_def split: option.split)
  show ?thesis
  proof (cases w)
    case None
    with assms s sp show ?thesis by (simp add: dmesh_qp_open_def Let_def dpumesh_alloc_port_def)
  next
    case (Some p)
    with sp have "p \<noteq> 0" by simp
    moreover obtain c2 where "inbox_prepare True p c1 = Some c2" using pr by blast
    ultimately show ?thesis using assms s Some by (simp add: dmesh_qp_open_def Let_def dpumesh_alloc_port_def)
  qed
qed

definition demo_full :: dpumesh_ctx where
  "demo_full = demo_eq\<lparr>ports := (\<lambda>_. init_slot\<lparr>role := ROLE_SERVER\<rparr>), port_span := DMESH_UPORT_BASE\<rparr>"

theorem open_fails_only_when_full_witness:
  "\<exists>ctx'. 0 < port_span demo_full \<and> dmesh_qp_open True True 0 5 demo_full = (Inl ENOMEM, ctx') \<and> port_busy (ports demo_full 7)"
proof -
  let ?c0 = "demo_full\<lparr>next_handle := next_handle demo_full + 1\<rparr>"
  obtain w c1 where s: "alloc_sweep ?c0 = (w, c1)" by fastforce
  have b: "port_busy (ports ?c0 p)" for p by (simp add: demo_full_def port_busy_def)
  have "w = None" using alloc_sweep_spec [OF s] b by (cases w) auto
  with s have o: "dmesh_qp_open True True 0 5 demo_full = (Inl ENOMEM, c1)"
    by (simp add: dmesh_qp_open_def Let_def dpumesh_alloc_port_def)
  have p: "0 < port_span demo_full" by (simp add: demo_full_def dmesh_const)
  from open_fails_only_when_full [OF p o] have "port_busy (ports demo_full 7)" by (simp add: dmesh_const)
  with o p show ?thesis by blast
qed

text \<open>
  C30. A post whose commit is refused releases the transmit gate and leaves everything else as it was:
  the reservation stays, the transmit call is still open, and the next allocation on the connection is
  refused with EDEADLK although no call holds the gate.
\<close>

theorem refused_post_keeps_call_open:
  assumes q: "qps ctx h = Some c" and u: "local_port c \<noteq> 0" "live_role (role (ports ctx (local_port c)))" "user (ports ctx (local_port c)) = Some h"
    "tx_error (ports ctx (local_port c)) = None" and a: "dmesh_tx_call_active h ctx"
    and bad: "fst (dpumesh_tx_commit (local_port c) buf len ctx) = Inl e"
  shows "\<exists>ctx'. dmesh_post_send claims now h buf len ctx = (Some (Inl e), ctx') \<and> ctx' = upd_port (local_port c) tx_gate_release ctx
     \<and> dmesh_tx_call_active h ctx' \<and> \<not> tx_gate (ports ctx' (local_port c)) \<and> tx (ports ctx' (local_port c)) = tx (ports ctx (local_port c))
     \<and> dmesh_alloc claims mem now h len' ctx' = (Inl EDEADLK, ctx')"
proof -
  let ?p = "local_port c"
  let ?c = "upd_port ?p tx_gate_release ctx"
  have "dpumesh_tx_commit ?p buf len ctx = (Inl e, ctx)"
    using bad by (auto simp: dpumesh_tx_commit_def Let_def split: if_splits)
  then have "dmesh_post_send claims now h buf len ctx = (Some (Inl e), ?c)"
    using q u a by (simp add: dmesh_post_send_def dmesh_tx_call_done_def)
  moreover have open': "tx_call_open (ports ?c ?p)" "dmesh_tx_call_active h ?c"
    using q u a by (simp_all add: dmesh_tx_call_active_def tx_call_open_def tx_gate_release_def)
  moreover have "dmesh_tx_qp_valid h ?c = (Inl EDEADLK, ?c)"
    using q u open' by (simp add: dmesh_tx_qp_valid_def tx_gate_release_def)
  ultimately show ?thesis using q u by (simp add: dmesh_alloc_def tx_gate_release_def)
qed

theorem refused_post_keeps_call_open_witness:
  "\<exists>ctx'. dmesh_post_send (\<lambda>_. Claim_Ok) 0 0 (Some 0) 101 demo_alloced = (Some (Inl EINVAL), ctx')
     \<and> dmesh_tx_call_active 0 ctx' \<and> dmesh_alloc (\<lambda>_. Claim_Ok) True 0 0 8 ctx' = (Inl EDEADLK, ctx')"
proof -
  have q: "qps demo_alloced 0 = Some demo_qp" by (simp add: demo_alloced_def)
  have u: "local_port demo_qp \<noteq> 0" "live_role (role (ports demo_alloced (local_port demo_qp)))"
    "user (ports demo_alloced (local_port demo_qp)) = Some 0" "tx_error (ports demo_alloced (local_port demo_qp)) = None"
    by (simp_all add: demo_alloced_def live_role_def)
  have a: "dmesh_tx_call_active 0 demo_alloced"
    using q by (simp add: dmesh_tx_call_active_def tx_call_open_def) (simp add: demo_alloced_def demo_chain_def)
  have "fst (dpumesh_tx_commit (local_port demo_qp) (Some 0) 101 demo_alloced) = Inl EINVAL"
    by (simp add: dpumesh_tx_commit_def Let_def) (simp add: demo_alloced_def demo_chain_def)
  from refused_post_keeps_call_open [OF q u a this] show ?thesis by blast
qed

text \<open>
  C29. Every configuration that the start-up checks accept gives sizes the data path can rely on: blocks
  that are not empty and a multiple of the DMA alignment, all of them inside the TX mapping, at most eight
  and at least one per connection, a send-unit queue whose depth is a power of two below the range of its
  16-bit counters, and transport units of at most one landing slot.
\<close>

theorem accepted_geometry_is_usable:
  assumes "geometry_accepted (init_config slots sz kenv)"
  defines "g \<equiv> init_config slots sz kenv"
  shows "0 < g_block_size g \<and> 128 dvd g_block_size g \<and> g_n_blocks g * g_block_size g \<le> g_num_slots g * g_slot_size g
    \<and> 0 < g_blocks_per_conn g \<and> g_blocks_per_conn g \<le> TX_BLOCKS_PER_CONN \<and> (\<exists>d \<le> 15. g_su_depth g = 2 ^ d)
    \<and> 0 < g_slot_size g \<and> g_slot_size g \<le> RX_SLOT_SIZE"
proof -
  have a: "geometry_accepted g" using assms(1) by (simp add: g_def)
  note ok = init_config_ok [OF a g_def [THEN meta_eq_to_obj_eq]]
  from ok(5) have "\<exists>d \<le> 15. g_su_depth g = 2 ^ d" by (simp add: depth_ok_def)
  with ok show ?thesis by blast
qed

theorem accepted_geometry_is_usable_witness:
  "geometry_accepted (init_config (Some 256) (Some 8192) (Some 2))
    \<and> 128 dvd g_block_size (init_config (Some 256) (Some 8192) (Some 2))"
proof -
  have a: "geometry_accepted (init_config (Some 256) (Some 8192) (Some 2))"
    by (simp add: demo_config geometry_accepted_def Let_def RX_SLOT_SIZE_def DPU_BUFFER_SIZE_def)
  with accepted_geometry_is_usable [OF a] show ?thesis by blast
qed

end
