(* ===== verification/Codec.thy ===== *)
theory Codec
  imports Prelude "HOL-Library.State_Monad"
begin

text \<open>
  The cursors that the peer message formats of \<^verbatim>\<open>doca/peer_security_wire.c\<close> are written and read with. An encoder
  and a decoder are computations in the state monad over a cursor that remembers a failure. The
  locale \<open>codec\<close> is the contract of a field: its reader undoes its bytes, and what it accepts is what
  those bytes are. Numbers, byte arrays, strings and repeated fields are interpreted as codecs here.
  A C array is a list of its size; the length of a buffer is the length of its list.
\<close>

section \<open>Cursors\<close>

record put_cursor =
  written :: "u8 list"
  room :: nat
  put_bad :: bool

record get_cursor =
  unread :: "u8 list"
  get_bad :: bool

definition put :: "u8 list \<Rightarrow> (put_cursor, unit) state" where
  "put bs = State (\<lambda>c.
     ((), if put_bad c \<or> length bs > room c then c\<lparr>put_bad := True\<rparr>
          else c\<lparr>written := written c @ bs, room := room c - length bs\<rparr>))"

text \<open>A failed read leaves its target as every caller initialises it, which is zero.\<close>

definition get :: "nat \<Rightarrow> (get_cursor, u8 list) state" where
  "get n = State (\<lambda>c.
     if get_bad c \<or> n > length (unread c) then (replicate n 0, c\<lparr>get_bad := True\<rparr>)
     else (take n (unread c), c\<lparr>unread := drop n (unread c)\<rparr>))"

primrec be_bytes :: "nat \<Rightarrow> u64 \<Rightarrow> u8 list" where
  "be_bytes 0 n = []"
| "be_bytes (Suc w) n = be_bytes w (drop_bit 8 n) @ [ucast n]"

definition be_value :: "u8 list \<Rightarrow> u64" where
  "be_value bs = foldl (\<lambda>n b. push_bit 8 n OR ucast b) 0 bs"

definition number :: "u64 \<Rightarrow> nat \<Rightarrow> (put_cursor, unit) state" where
  "number n width = put (be_bytes width n)"

definition take_number :: "nat \<Rightarrow> (get_cursor, u64) state" where
  "take_number width = do { b \<leftarrow> get width; State_Monad.return (be_value b) }"

text \<open>The length of a string of printable characters that ends within its array, else 0.\<close>

fun string_len_from :: "nat \<Rightarrow> u8 list \<Rightarrow> nat" where
  "string_len_from n [] = 0"
| "string_len_from n (b # bs) =
     (if b = 0 then n else if b < 0x21 \<or> b > 0x7e then 0 else string_len_from (n + 1) bs)"

definition string_len :: "u8 list \<Rightarrow> nat" where
  "string_len s = string_len_from 0 s"

definition string_put :: "u8 list \<Rightarrow> (put_cursor, unit) state" where
  "string_put s =
     (let n = string_len s
      in if n = 0 then State (\<lambda>c. ((), c\<lparr>put_bad := True\<rparr>))
         else do { number (of_nat n) 2; put (take n s) })"

definition fail_get :: "'a \<Rightarrow> (get_cursor, 'a) state" where
  "fail_get x = State (\<lambda>c. (x, c\<lparr>get_bad := True\<rparr>))"

definition string_get :: "nat \<Rightarrow> (get_cursor, u8 list) state" where
  "string_get cap = do {
     v \<leftarrow> take_number 2;
     c \<leftarrow> State_Monad.get;
     let n = unat v;
     if n = 0 \<or> n \<ge> cap \<or> n > length (unread c) then fail_get (replicate cap 0)
     else do {
       b \<leftarrow> get n;
       let s = b @ replicate (cap - n) 0;
       if string_len s \<noteq> n then fail_get s else State_Monad.return s
     }
   }"

text \<open>A loop over the entries of an array, and one that reads \<open>n\<close> entries.\<close>

primrec each :: "('a \<Rightarrow> (put_cursor, unit) state) \<Rightarrow> 'a list \<Rightarrow> (put_cursor, unit) state" where
  "each f [] = State_Monad.return ()"
| "each f (x # xs) = do { f x; each f xs }"

primrec several :: "(get_cursor, 'a) state \<Rightarrow> nat \<Rightarrow> (get_cursor, 'a list) state" where
  "several d 0 = State_Monad.return []"
| "several d (Suc n) = do { x \<leftarrow> d; xs \<leftarrow> several d n; State_Monad.return (x # xs) }"

text \<open>The frame of an encoder, for a message of any length and for one of a fixed length, and of a decoder.\<close>

definition encode_with :: "(put_cursor, unit) state \<Rightarrow> nat \<Rightarrow> u8 list option" where
  "encode_with m cap =
     (let c = snd (run_state m \<lparr>written = [], room = cap, put_bad = False\<rparr>)
      in if put_bad c then None else Some (written c))"

definition encode_exact :: "(put_cursor, unit) state \<Rightarrow> nat \<Rightarrow> u8 list option" where
  "encode_exact m cap =
     (let c = snd (run_state m \<lparr>written = [], room = cap, put_bad = False\<rparr>)
      in if put_bad c \<or> room c \<noteq> 0 then None else Some (written c))"

abbreviation rd :: "u8 list \<Rightarrow> get_cursor" where
  "rd bs \<equiv> \<lparr>unread = bs, get_bad = False\<rparr>"

definition decode_all :: "(get_cursor, 'a) state \<Rightarrow> ('a \<Rightarrow> bool) \<Rightarrow> u8 list \<Rightarrow> 'a option" where
  "decode_all d valid bs =
     (case run_state d (rd bs) of (x, c) \<Rightarrow>
        if get_bad c \<or> unread c \<noteq> [] \<or> \<not> valid x then None else Some x)"

section \<open>What an encoder writes\<close>

text \<open>The cursor has written \<open>bs\<close> into a buffer of \<open>cap\<close> bytes, or has failed because they do not fit.\<close>

definition wrote :: "put_cursor \<Rightarrow> u8 list \<Rightarrow> nat \<Rightarrow> bool" where
  "wrote c bs cap \<longleftrightarrow>
     (if length bs \<le> cap then \<not> put_bad c \<and> written c = bs \<and> room c = cap - length bs else put_bad c)"

definition writes :: "(put_cursor, unit) state \<Rightarrow> u8 list \<Rightarrow> bool" where
  "writes m bs \<longleftrightarrow> (\<forall>c as cap. wrote c as cap \<longrightarrow> wrote (snd (run_state m c)) (as @ bs) cap)"

definition string_bytes :: "u8 list \<Rightarrow> u8 list" where
  "string_bytes s = be_bytes 2 (of_nat (string_len s)) @ take (string_len s) s"

named_theorems codec_writes \<open>what each step of an encoder writes\<close>

lemma writes_put [codec_writes]: "writes (put bs) bs"
  by (auto simp: writes_def wrote_def put_def split: if_splits)

lemma writes_number [codec_writes]: "writes (number n w) (be_bytes w n)"
  by (simp add: number_def writes_put)

lemma writes_return [codec_writes]: "writes (State_Monad.return ()) []"
  by (simp add: writes_def)

lemma writes_bind [codec_writes]: "writes m as \<Longrightarrow> writes k bs \<Longrightarrow> writes (do { m; k }) (as @ bs)"
  unfolding writes_def by (auto simp: split_beta simp flip: append_assoc)

lemma writes_string [codec_writes]: "string_len s \<noteq> 0 \<Longrightarrow> writes (string_put s) (string_bytes s)"
  by (auto simp: string_put_def string_bytes_def Let_def intro!: writes_bind writes_number writes_put)

lemma writes_each [codec_writes]: "(\<And>x. x \<in> set xs \<Longrightarrow> writes (f x) (enc x)) \<Longrightarrow> writes (each f xs) (concat (map enc xs))"
  by (induction xs) (auto intro!: writes_bind writes_return)

lemma encode_with_eq: "writes m bs \<Longrightarrow> encode_with m cap = (if length bs \<le> cap then Some bs else None)"
  unfolding writes_def
  by (drule spec [of _ "\<lparr>written = [], room = cap, put_bad = False\<rparr>"], drule spec [of _ "[]"], drule spec [of _ cap])
    (simp add: encode_with_def wrote_def split: if_splits)

lemma encode_exact_eq: "writes m bs \<Longrightarrow> encode_exact m cap = (if length bs = cap then Some bs else None)"
  unfolding writes_def
  by (drule spec [of _ "\<lparr>written = [], room = cap, put_bad = False\<rparr>"], drule spec [of _ "[]"], drule spec [of _ cap])
    (auto simp: encode_exact_def wrote_def split: if_splits)

section \<open>The contract of a field\<close>

locale codec =
  fixes enc :: "'a \<Rightarrow> u8 list" and dec :: "(get_cursor, 'a) state" and ok :: "'a \<Rightarrow> bool"
  assumes dec_enc: "ok x \<Longrightarrow> run_state dec (rd (enc x @ r)) = (x, rd r)"
    and enc_dec: "run_state dec c = (x, c') \<Longrightarrow> \<not> get_bad c' \<Longrightarrow> \<not> get_bad c \<and> unread c = enc x @ unread c' \<and> ok x"
begin

lemma enc_prefix_free:
  assumes "ok x" "ok y" "enc x @ r = enc y @ s"
  shows "x = y \<and> r = s"
proof -
  have "(x, rd r) = (y, rd s)" unfolding dec_enc [OF assms(1), symmetric] dec_enc [OF assms(2), symmetric] assms(3) ..
  then show ?thesis by simp
qed

lemma dec_enc_all: "ok x \<Longrightarrow> run_state dec (rd (enc x)) = (x, rd [])"
  using dec_enc [of x "[]"] by simp

text \<open>A decoder accepts exactly the encodings of the values it gives.\<close>

lemma decode_all_iff: "decode_all dec valid bs = Some x \<longleftrightarrow> ok x \<and> valid x \<and> bs = enc x"
proof
  assume d: "decode_all dec valid bs = Some x"
  then obtain c where "run_state dec (rd bs) = (x, c)" "\<not> get_bad c" "unread c = []" "valid x"
    by (auto simp: decode_all_def split: prod.splits if_splits)
  with enc_dec [of "rd bs" x c] show "ok x \<and> valid x \<and> bs = enc x" by simp
next
  assume "ok x \<and> valid x \<and> bs = enc x"
  then show "decode_all dec valid bs = Some x" by (simp add: decode_all_def dec_enc_all)
qed

text \<open>Repeated entries form a codec again.\<close>

lemma several_enc: "list_all ok xs \<Longrightarrow> run_state (several dec (length xs)) (rd (concat (map enc xs) @ r)) = (xs, rd r)"
  by (induction xs) (simp_all add: dec_enc)

lemma several_dec:
  "run_state (several dec n) c = (xs, c') \<Longrightarrow> \<not> get_bad c' \<Longrightarrow>
    \<not> get_bad c \<and> unread c = concat (map enc xs) @ unread c' \<and> list_all ok xs \<and> length xs = n"
proof (induction n arbitrary: c xs)
  case (Suc n)
  then obtain y c1 ys where "run_state dec c = (y, c1)" "run_state (several dec n) c1 = (ys, c')" "xs = y # ys"
    by (auto split: prod.splits)
  with Suc.IH [of c1 ys] enc_dec [of c y c1] Suc.prems show ?case by simp
qed simp

end

lemma return_run: "run_state (State_Monad.return x) c = (y, c') \<longleftrightarrow> y = x \<and> c' = c"
  by auto

lemma bind_run: "run_state (State_Monad.bind m f) c = (y, c') \<longleftrightarrow> (\<exists>x c1. run_state m c = (x, c1) \<and> run_state (f x) c1 = (y, c'))"
  by (auto split: prod.splits)

lemma get_run: "run_state State_Monad.get c = (y, c') \<longleftrightarrow> y = c \<and> c' = c"
  by (auto simp: State_Monad.get_def)

lemma if_fail_run: "run_state (if b then fail_get x else m) c = (y, c') \<Longrightarrow> \<not> get_bad c' \<Longrightarrow> \<not> b \<and> run_state m c = (y, c')"
  by (auto simp: fail_get_def split: if_splits)

section \<open>Numbers\<close>

lemma length_be_bytes [simp]: "length (be_bytes w n) = w"
  by (induction w arbitrary: n) simp_all

lemma be_value_snoc: "be_value (bs @ [b]) = push_bit 8 (be_value bs) OR ucast b"
  by (simp add: be_value_def)

lemma be_value_bytes: "be_value (be_bytes w n) = take_bit (8 * w) n"
proof (induction w arbitrary: n)
  case 0
  then show ?case by (simp add: be_value_def)
next
  case (Suc w)
  have "push_bit 8 (take_bit (8 * w) (drop_bit 8 n)) OR ucast (ucast n :: u8) = take_bit (8 * Suc w) n"
    by (rule bit_eqI) (auto simp: bit_or_iff bit_push_bit_iff bit_take_bit_iff bit_drop_bit_eq bit_unsigned_iff)
  with Suc show ?case by (simp add: be_value_snoc)
qed

lemma be_value_fits: "length bs \<le> 8 \<Longrightarrow> take_bit (8 * length bs) (be_value bs) = be_value bs"
proof (induction bs rule: rev_induct)
  case Nil
  then show ?case by (simp add: be_value_def)
next
  case (snoc b bs)
  have v: "take_bit (8 * length bs) (be_value bs) = be_value bs" using snoc by simp
  have "take_bit (8 * Suc n) (push_bit 8 (take_bit (8 * n) x) OR ucast b) = push_bit 8 (take_bit (8 * n) x) OR ucast b"
    for n and x :: u64
    by (rule bit_eqI) (auto simp: bit_or_iff bit_push_bit_iff bit_take_bit_iff bit_unsigned_iff dest: bit_imp_le_length)
  from this [of "length bs" "be_value bs"] v show ?case by (simp add: be_value_snoc)
qed

lemma be_bytes_value: "length bs \<le> 8 \<Longrightarrow> be_bytes (length bs) (be_value bs) = bs"
proof (induction bs rule: rev_induct)
  case (snoc b bs)
  have "ucast (push_bit 8 x OR ucast b) = b" for x :: u64
    by (rule bit_eqI) (auto simp: bit_or_iff bit_push_bit_iff bit_unsigned_iff dest: bit_imp_le_length)
  moreover have "drop_bit 8 (push_bit 8 x OR ucast b) = x" if "take_bit 56 x = x" for x :: u64
  proof (rule bit_eqI)
    fix i assume "possible_bit TYPE(u64) i"
    have "bit x i \<Longrightarrow> i < 56" using that by (metis bit_take_bit_iff)
    then show "bit (drop_bit 8 (push_bit 8 x OR ucast b)) i = bit x i"
      by (auto simp: bit_or_iff bit_push_bit_iff bit_drop_bit_eq bit_unsigned_iff dest: bit_imp_le_length)
  qed
  moreover have "take_bit 56 (be_value bs) = be_value bs"
  proof -
    have v: "take_bit (8 * length bs) (be_value bs) = be_value bs" using be_value_fits [of bs] snoc.prems by simp
    have "8 * length bs \<le> 56" using snoc.prems by simp
    then have "take_bit 56 (take_bit (8 * length bs) (be_value bs)) = take_bit (8 * length bs) (be_value bs)" by (simp add: min_def)
    then show ?thesis unfolding v .
  qed
  ultimately show ?case using snoc by (simp add: be_value_snoc)
qed simp

lemma codec_number: "w \<le> 8 \<Longrightarrow> codec (be_bytes w) (take_number w) (\<lambda>v. take_bit (8 * w) v = v)"
proof (unfold_locales, goal_cases)
  case (1 v r)
  then show ?case by (simp add: take_number_def get_def be_value_bytes)
next
  case (2 c v c')
  then have b: "\<not> get_bad c" "w \<le> length (unread c)" "v = be_value (take w (unread c))" "unread c' = drop w (unread c)"
    by (auto simp: take_number_def get_def split: if_splits)
  then show ?case using 2(1) be_bytes_value [of "take w (unread c)"] be_value_fits [of "take w (unread c)"] by simp
qed

interpretation n2: codec "be_bytes 2" "take_number 2" "\<lambda>v. take_bit (8 * 2) v = v" by (rule codec_number) simp
interpretation n3: codec "be_bytes 3" "take_number 3" "\<lambda>v. take_bit (8 * 3) v = v" by (rule codec_number) simp
interpretation n4: codec "be_bytes 4" "take_number 4" "\<lambda>v. take_bit (8 * 4) v = v" by (rule codec_number) simp
interpretation n8: codec "be_bytes 8" "take_number 8" "\<lambda>_. True"
proof -
  have "(\<lambda>v :: u64. take_bit (8 * 8) v = v) = (\<lambda>_. True)" by (intro ext) (simp add: take_bit_word_eq_self)
  then show "codec (be_bytes 8) (take_number 8) (\<lambda>_. True)" using codec_number [of 8] by simp
qed

interpretation bytes: codec "\<lambda>b. b" "get n" "\<lambda>b. length b = n" for n
  by unfold_locales (auto simp: get_def split: if_splits)

text \<open>A field narrower than 64 bits is widened to be written and cast back when it is read.\<close>

lemma narrow_wide [simp]:
  "take_bit 16 (ucast (x :: u16) :: u64) = ucast x" "take_bit 32 (ucast (y :: u32) :: u64) = ucast y"
  by (rule bit_eqI; auto simp: bit_take_bit_iff bit_unsigned_iff dest: bit_imp_le_length)+

lemma narrow_back [simp]:
  "ucast (ucast (x :: u16) :: u64) = x" "ucast (ucast (y :: u32) :: u64) = y"
  by (rule bit_eqI; auto simp: bit_unsigned_iff dest: bit_imp_le_length)+

lemma ucast_ucast_bits:
  "ucast (ucast v :: u16) = take_bit 16 v" "ucast (ucast v :: u32) = take_bit 32 v" for v :: u64
  by (rule bit_eqI; auto simp: bit_take_bit_iff bit_unsigned_iff)+

lemma wide_narrow: "take_bit 16 v = v \<Longrightarrow> ucast (ucast v :: u16) = v" "take_bit 32 v = v \<Longrightarrow> ucast (ucast v :: u32) = v" for v :: u64
  by (simp_all add: ucast_ucast_bits)

lemma wide_narrow24:
  fixes v :: u64
  assumes "take_bit 24 v = v"
  shows "ucast (ucast v :: u32) = v"
proof -
  have "take_bit 32 (take_bit 24 v) = take_bit 24 v" by simp
  then show ?thesis unfolding assms by (simp add: ucast_ucast_bits)
qed

lemma take_bit_self_iff: "take_bit n w = w \<longleftrightarrow> unat w < 2 ^ n" for w :: "'a::len word"
proof
  assume "take_bit n w = w"
  then have "unat w = take_bit n (unat w)" by (metis unsigned_take_bit_eq)
  then show "unat w < 2 ^ n" by (metis take_bit_nat_less_exp)
next
  assume "unat w < 2 ^ n"
  then show "take_bit n w = w" by (intro word_unat_eq_iff [THEN iffD2]) (simp add: unsigned_take_bit_eq take_bit_nat_eq_self)
qed

lemma wide24: "q \<le> 0xffffff \<Longrightarrow> take_bit 24 (ucast q :: u64) = ucast q" for q :: u32
  using unsigned_less [of q] by (simp add: take_bit_self_iff word_le_nat_alt unsigned_ucast_eq take_bit_nat_eq_self)

section \<open>Strings\<close>

definition printable :: "u8 \<Rightarrow> bool" where
  "printable b \<longleftrightarrow> b \<noteq> 0 \<and> \<not> b < 0x21 \<and> \<not> b > 0x7e"

text \<open>A string that fills its array with zeros after its end.\<close>

definition c_string :: "nat \<Rightarrow> u8 list \<Rightarrow> bool" where
  "c_string cap s \<longleftrightarrow> length s = cap \<and> string_len s \<noteq> 0 \<and> drop (string_len s) s = replicate (cap - string_len s) 0"

lemma string_len_from_split: "string_len_from n s = m \<Longrightarrow> 0 < m \<Longrightarrow> \<exists>b r. s = b @ 0 # r \<and> list_all printable b \<and> m = n + length b"
proof (induction n s rule: string_len_from.induct)
  case (2 n x xs)
  show ?case
  proof (cases "x = 0")
    case True
    then show ?thesis using 2 by (intro exI [of _ "[]"] exI [of _ xs]) auto
  next
    case False
    with 2(2,3) have x: "\<not> (x < 0x21 \<or> x > 0x7e)" "string_len_from (n + 1) xs = m" by (auto split: if_splits)
    with 2(1) [OF False x(1) x(2) 2(3)] False obtain b r where "xs = b @ 0 # r" "list_all printable b" "m = n + 1 + length b" "printable x"
      by (auto simp: printable_def [of x])
    then show ?thesis by (intro exI [of _ "x # b"] exI [of _ r]) auto
  qed
qed simp

lemma string_len_from_app: "list_all printable b \<Longrightarrow> string_len_from n (b @ 0 # r) = n + length b"
  by (induction b arbitrary: n) (auto simp: printable_def)

lemma c_string_split:
  assumes "c_string cap s"
  obtains b where "s = b @ replicate (cap - length b) 0" "list_all printable b" "string_len s = length b" "0 < length b" "length b < cap"
proof -
  from assms have "string_len_from 0 s = string_len s" "0 < string_len s" "length s = cap"
    "drop (string_len s) s = replicate (cap - string_len s) 0" by (auto simp: c_string_def string_len_def)
  from string_len_from_split [OF this(1,2)] obtain b r where b: "s = b @ 0 # r" "list_all printable b" "string_len s = length b" by auto
  have "drop (length b) s = replicate (cap - length b) 0" using \<open>drop _ _ = _\<close> b(3) by simp
  then have "s = b @ replicate (cap - length b) 0" using b(1) by simp
  with b \<open>0 < string_len s\<close> \<open>length s = cap\<close> show ?thesis by (intro that [of b]) auto
qed

lemma string_len_pad:
  assumes "list_all printable b" "length b < cap"
  shows "string_len (b @ replicate (cap - length b) 0) = length b"
proof -
  have "replicate (cap - length b) (0 :: u8) = 0 # replicate (cap - length b - 1) 0"
    using assms(2) by (cases "cap - length b") auto
  then show ?thesis using string_len_from_app [OF assms(1), of 0] by (simp add: string_len_def)
qed

lemma codec_string:
  assumes "cap \<le> 65536"
  shows "codec string_bytes (string_get cap) (c_string cap)"
proof (unfold_locales, goal_cases)
  case (1 s r)
  then obtain b where b: "s = b @ replicate (cap - length b) 0" "list_all printable b" "string_len s = length b" "0 < length b" "length b < cap"
    by (rule c_string_split)
  have n: "take_bit (8 * 2) (of_nat (length b) :: u64) = of_nat (length b)" "unat (of_nat (length b) :: u64) = length b"
    using b(5) assms by (simp_all add: take_bit_of_nat unsigned_of_nat take_bit_nat_eq_self)
  have "string_bytes s @ r = be_bytes 2 (of_nat (length b)) @ (b @ r)" using b by (simp add: string_bytes_def)
  moreover have "string_len (b @ replicate (cap - length b) 0) = length b" using b by simp
  ultimately show ?case using n2.dec_enc [OF n(1), of "b @ r"] bytes.dec_enc [of b "length b" r] b n(2)
    by (simp add: string_get_def Let_def)
next
  case (2 c s c')
  from 2(1) obtain v c1 where v: "run_state (take_number 2) c = (v, c1)" and
    r: "run_state (if unat v = 0 \<or> unat v \<ge> cap \<or> unat v > length (unread c1) then fail_get (replicate cap 0)
        else do { b \<leftarrow> get (unat v); let s = b @ replicate (cap - unat v) 0;
                  if string_len s \<noteq> unat v then fail_get s else State_Monad.return s }) c1 = (s, c')"
    by (auto simp: string_get_def Let_def split: prod.splits)
  have g: "\<not> (unat v = 0 \<or> unat v \<ge> cap \<or> unat v > length (unread c1))" using r 2(2) by (auto simp: fail_get_def split: if_splits)
  with r obtain b where b: "run_state (get (unat v)) c1 = (b, c')" "s = b @ replicate (cap - unat v) 0" "string_len s = unat v"
    using 2(2) by (auto simp: fail_get_def Let_def split: prod.splits if_splits)
  from bytes.enc_dec [OF b(1) 2(2)] have c1: "\<not> get_bad c1" "unread c1 = b @ unread c'" "length b = unat v" by auto
  from n2.enc_dec [OF v c1(1)] c1 b g show ?case by (auto simp: string_bytes_def c_string_def)
qed

interpretation s64: codec string_bytes "string_get 64" "c_string 64" by (rule codec_string) simp
interpretation s128: codec string_bytes "string_get 128" "c_string 128" by (rule codec_string) simp
interpretation s254: codec string_bytes "string_get 254" "c_string 254" by (rule codec_string) simp

lemmas field_dec_enc = n2.dec_enc n3.dec_enc n4.dec_enc n8.dec_enc bytes.dec_enc s64.dec_enc s128.dec_enc s254.dec_enc
  n2.dec_enc_all n3.dec_enc_all n4.dec_enc_all n8.dec_enc_all bytes.dec_enc_all s64.dec_enc_all s128.dec_enc_all s254.dec_enc_all

lemmas field_enc_dec = n2.enc_dec n3.enc_dec n4.enc_dec n8.enc_dec bytes.enc_dec s64.enc_dec s128.enc_dec s254.enc_dec

end
