(* ===== verification/Security_Wire.thy ===== *)
theory Security_Wire
  imports Codec
begin

text \<open>
  The control and data messages between two DPUs, \<^verbatim>\<open>doca/peer_security_wire.c\<close> and \<^verbatim>\<open>doca/peer_identity.h\<close>: the
  structures, their validity checks, and an encoder and a decoder for each message. Each decoder is
  shown to accept exactly the bytes its encoder writes. Null pointers are left out; an output that is
  cleared on failure is the value None.
\<close>

section \<open>Common checks\<close>

definition peer_sec_nonzero :: "u8 list \<Rightarrow> bool" where
  "peer_sec_nonzero bs = (foldl (OR) 0 bs \<noteq> 0)"

fun strcmp :: "u8 list \<Rightarrow> u8 list \<Rightarrow> int" where
  "strcmp (x # xs) (y # ys) =
     (if x \<noteq> y then if x < y then -1 else 1 else if x = 0 then 0 else strcmp xs ys)"
| "strcmp _ _ = 0"

definition ascii :: "string \<Rightarrow> u8 list" where
  "ascii s = map of_char s"

definition PEER_SEC_VERSION :: u64 where "PEER_SEC_VERSION = 2"
definition PEER_SEC_AES128_GCM :: u64 where "PEER_SEC_AES128_GCM = 1"
definition PEER_SEC_BODY_MAX :: u32 where "PEER_SEC_BODY_MAX = 16384"
definition PEER_SEC_DATA_MAX :: u32 where "PEER_SEC_DATA_MAX = 65536"
definition PEER_SEC_LANES_MAX :: nat where "PEER_SEC_LANES_MAX = 16"

section \<open>Control header\<close>

record peer_sec_header =
  hdr_type :: u16
  hdr_body_len :: u32
  hdr_session :: "u8 list"
  hdr_operation :: u64
  hdr_association :: "u8 list"
  hdr_epoch :: u64

definition PEER_SEC_HELLO :: u16 where "PEER_SEC_HELLO = 1"
definition PEER_SEC_PING :: u16 where "PEER_SEC_PING = 18"
definition PEER_SEC_PONG :: u16 where "PEER_SEC_PONG = 19"

definition header_valid :: "peer_sec_header \<Rightarrow> bool" where
  "header_valid h \<longleftrightarrow>
     (if hdr_type h < PEER_SEC_HELLO \<or> hdr_type h > PEER_SEC_PONG \<or> hdr_body_len h > PEER_SEC_BODY_MAX \<or> hdr_operation h = 0
      then False
      else
        let assoc = peer_sec_nonzero (hdr_association h); session = peer_sec_nonzero (hdr_session h)
        in if hdr_type h = PEER_SEC_HELLO then \<not> session \<and> \<not> assoc \<and> hdr_epoch h = 0
           else if hdr_type h = PEER_SEC_PING \<or> hdr_type h = PEER_SEC_PONG
           then session \<and> \<not> assoc \<and> hdr_epoch h = 0 \<and> hdr_body_len h = 16
           else session \<and> assoc \<and> hdr_epoch h \<noteq> 0)"

definition peer_sec_header_encode :: "peer_sec_header \<Rightarrow> u8 list option" where
  "peer_sec_header_encode h =
     (if \<not> header_valid h then None
      else encode_with (do {
        put (ascii ''DMSC''); number PEER_SEC_VERSION 2; number (ucast (hdr_type h)) 2;
        number 0 4; number (ucast (hdr_body_len h)) 4; put (hdr_session h);
        number (hdr_operation h) 8; put (hdr_association h); number (hdr_epoch h) 8
      }) 64)"

definition header_get :: "(get_cursor, u8 list \<times> u64 \<times> u64 \<times> peer_sec_header) state" where
  "header_get = do {
     magic \<leftarrow> get 4;
     version \<leftarrow> take_number 2;
     type \<leftarrow> take_number 2;
     flags \<leftarrow> take_number 4;
     body_len \<leftarrow> take_number 4; session \<leftarrow> get 16;
     operation \<leftarrow> take_number 8; association \<leftarrow> get 16;
     epoch \<leftarrow> take_number 8;
     State_Monad.return (magic, version, flags,
       \<lparr>hdr_type = ucast type, hdr_body_len = ucast body_len, hdr_session = session, hdr_operation = operation,
        hdr_association = association, hdr_epoch = epoch\<rparr>)
   }"

datatype header_decoded = Need_More | Malformed | Header peer_sec_header

definition peer_sec_header_decode :: "u8 list \<Rightarrow> header_decoded" where
  "peer_sec_header_decode buf =
     (if length buf < 64 then Need_More
      else
        case run_state header_get (rd (take 64 buf)) of ((magic, version, flags, h), _) \<Rightarrow>
          if magic \<noteq> ascii ''DMSC'' \<or> version \<noteq> 2 \<or> flags \<noteq> 0 \<or> \<not> header_valid h then Malformed else Header h)"

definition header_bytes :: "u8 list \<times> u64 \<times> u64 \<times> peer_sec_header \<Rightarrow> u8 list" where
  "header_bytes = (\<lambda>(magic, version, flags, h).
     magic @ be_bytes 2 version @ be_bytes 2 (ucast (hdr_type h)) @ be_bytes 4 flags @ be_bytes 4 (ucast (hdr_body_len h)) @
     hdr_session h @ be_bytes 8 (hdr_operation h) @ hdr_association h @ be_bytes 8 (hdr_epoch h))"

definition header_shape :: "u8 list \<times> u64 \<times> u64 \<times> peer_sec_header \<Rightarrow> bool" where
  "header_shape = (\<lambda>(magic, version, flags, h).
     length magic = 4 \<and> take_bit 16 version = version \<and> take_bit 32 flags = flags \<and>
     length (hdr_session h) = 16 \<and> length (hdr_association h) = 16)"

interpretation header: codec header_bytes header_get header_shape
proof (unfold_locales, goal_cases)
  case (1 x r)
  then show ?case by (auto simp: header_bytes_def header_get_def header_shape_def field_dec_enc)
next
  case (2 c x c')
  then show ?case
    by (auto simp: header_bytes_def header_get_def header_shape_def bind_run return_run wide_narrow simp del: run_state_bind dest!: field_enc_dec)
qed

section \<open>Hello\<close>

record peer_sec_hello =
  hello_cluster :: "u8 list"
  hello_node :: "u8 list"
  hello_public_key :: "u8 list"
  hello_boot :: "u8 list"
  hello_nonce :: "u8 list"
  hello_workers :: u16

definition hello_valid :: "peer_sec_hello \<Rightarrow> bool" where
  "hello_valid h \<longleftrightarrow>
     string_len (hello_cluster h) \<noteq> 0 \<and> string_len (hello_node h) \<noteq> 0 \<and> hello_workers h \<noteq> 0 \<and> hello_workers h \<le> 16 \<and>
     peer_sec_nonzero (hello_public_key h) \<and> peer_sec_nonzero (hello_boot h) \<and> peer_sec_nonzero (hello_nonce h)"

definition peer_sec_hello_encode :: "peer_sec_hello \<Rightarrow> nat \<Rightarrow> u8 list option" where
  "peer_sec_hello_encode h cap =
     (if \<not> hello_valid h then None
      else encode_with (do {
        string_put (hello_cluster h); string_put (hello_node h);
        put (hello_public_key h); put (hello_boot h); put (hello_nonce h);
        number (ucast (hello_workers h)) 2; number PEER_SEC_AES128_GCM 2
      }) cap)"

definition hello_get :: "(get_cursor, peer_sec_hello \<times> u64) state" where
  "hello_get = do {
     cluster \<leftarrow> string_get 128; node \<leftarrow> string_get 254;
     public_key \<leftarrow> get 32; boot \<leftarrow> get 16; nonce \<leftarrow> get 16;
     workers \<leftarrow> take_number 2;
     suite \<leftarrow> take_number 2;
     State_Monad.return (\<lparr>hello_cluster = cluster, hello_node = node, hello_public_key = public_key, hello_boot = boot,
       hello_nonce = nonce, hello_workers = ucast workers\<rparr>, suite)
   }"

definition peer_sec_hello_decode :: "u8 list \<Rightarrow> peer_sec_hello option" where
  "peer_sec_hello_decode buf = map_option fst (decode_all hello_get (\<lambda>(h, suite). suite = PEER_SEC_AES128_GCM \<and> hello_valid h) buf)"

definition hello_bytes :: "peer_sec_hello \<times> u64 \<Rightarrow> u8 list" where
  "hello_bytes = (\<lambda>(h, suite).
     string_bytes (hello_cluster h) @ string_bytes (hello_node h) @ hello_public_key h @ hello_boot h @ hello_nonce h @
     be_bytes 2 (ucast (hello_workers h)) @ be_bytes 2 suite)"

definition hello_shape :: "peer_sec_hello \<Rightarrow> bool" where
  "hello_shape h \<longleftrightarrow> c_string 128 (hello_cluster h) \<and> c_string 254 (hello_node h) \<and>
     length (hello_public_key h) = 32 \<and> length (hello_boot h) = 16 \<and> length (hello_nonce h) = 16"

interpretation hello: codec hello_bytes hello_get "\<lambda>(h, suite). hello_shape h \<and> take_bit 16 suite = suite"
proof (unfold_locales, goal_cases)
  case (1 x r)
  then show ?case by (auto simp: hello_bytes_def hello_get_def hello_shape_def field_dec_enc)
next
  case (2 c x c')
  then show ?case
    by (auto simp: hello_bytes_def hello_get_def hello_shape_def bind_run return_run wide_narrow simp del: run_state_bind dest!: field_enc_dec)
qed

lemma hello_encode_eq:
  "peer_sec_hello_encode h cap =
    (if hello_valid h \<and> length (hello_bytes (h, PEER_SEC_AES128_GCM)) \<le> cap then Some (hello_bytes (h, PEER_SEC_AES128_GCM)) else None)"
proof (cases "hello_valid h")
  case True
  then have s: "string_len (hello_cluster h) \<noteq> 0" "string_len (hello_node h) \<noteq> 0" by (simp_all add: hello_valid_def)
  show ?thesis
    using True s unfolding peer_sec_hello_encode_def
    by (subst encode_with_eq [where bs = "hello_bytes (h, PEER_SEC_AES128_GCM)"]) (auto simp: hello_bytes_def intro!: codec_writes)
qed (simp add: peer_sec_hello_encode_def)

section \<open>Endpoint binding\<close>

record peer_sec_endpoint =
  ep_node :: "u8 list"
  ep_public_key :: "u8 list"
  ep_boot :: "u8 list"
  ep_pod :: "u8 list"
  ep_daemon :: "u8 list"
  ep_channel_slot :: u32
  ep_channel_generation :: u64
  ep_registration_nonce :: "u8 list"

record peer_sec_binding =
  bind_cluster :: "u8 list"
  bind_endpoint0 :: peer_sec_endpoint
  bind_endpoint1 :: peer_sec_endpoint
  bind_session :: "u8 list"
  bind_association :: "u8 list"
  bind_epoch :: u64
  bind_spi0 :: u32
  bind_spi1 :: u32

definition endpoint_valid :: "peer_sec_endpoint \<Rightarrow> bool" where
  "endpoint_valid e \<longleftrightarrow>
     string_len (ep_node e) \<noteq> 0 \<and> string_len (ep_pod e) \<noteq> 0 \<and> peer_sec_nonzero (ep_public_key e) \<and>
     peer_sec_nonzero (ep_boot e) \<and> peer_sec_nonzero (ep_daemon e) \<and> ep_channel_generation e \<noteq> 0 \<and>
     peer_sec_nonzero (ep_registration_nonce e)"

definition peer_sec_binding_valid :: "peer_sec_binding \<Rightarrow> bool" where
  "peer_sec_binding_valid b \<longleftrightarrow>
     string_len (bind_cluster b) \<noteq> 0 \<and> endpoint_valid (bind_endpoint0 b) \<and> endpoint_valid (bind_endpoint1 b) \<and>
     strcmp (ep_node (bind_endpoint0 b)) (ep_node (bind_endpoint1 b)) < 0 \<and>
     strcmp (ep_pod (bind_endpoint0 b)) (ep_pod (bind_endpoint1 b)) \<noteq> 0 \<and>
     peer_sec_nonzero (bind_session b) \<and> peer_sec_nonzero (bind_association b) \<and>
     bind_epoch b \<noteq> 0 \<and> bind_spi0 b \<ge> 256 \<and> bind_spi1 b \<ge> 256"

definition endpoint_put :: "peer_sec_endpoint \<Rightarrow> (put_cursor, unit) state" where
  "endpoint_put e = do {
     string_put (ep_node e); put (ep_public_key e); put (ep_boot e);
     string_put (ep_pod e); put (ep_daemon e);
     number (ucast (ep_channel_slot e)) 4; number (ep_channel_generation e) 8;
     put (ep_registration_nonce e)
   }"

definition endpoint_get :: "(get_cursor, peer_sec_endpoint) state" where
  "endpoint_get = do {
     node \<leftarrow> string_get 254; public_key \<leftarrow> get 32; boot \<leftarrow> get 16;
     pod \<leftarrow> string_get 128; daemon \<leftarrow> get 16;
     slot \<leftarrow> take_number 4; generation \<leftarrow> take_number 8;
     nonce \<leftarrow> get 32;
     State_Monad.return \<lparr>ep_node = node, ep_public_key = public_key, ep_boot = boot, ep_pod = pod, ep_daemon = daemon,
       ep_channel_slot = ucast slot, ep_channel_generation = generation, ep_registration_nonce = nonce\<rparr>
   }"

definition peer_sec_binding_encode :: "peer_sec_binding \<Rightarrow> nat \<Rightarrow> u8 list option" where
  "peer_sec_binding_encode b cap =
     (if \<not> peer_sec_binding_valid b then None
      else encode_with (do {
        number 2 2; number PEER_SEC_AES128_GCM 2;
        string_put (bind_cluster b);
        endpoint_put (bind_endpoint0 b); endpoint_put (bind_endpoint1 b);
        put (bind_session b); put (bind_association b); number (bind_epoch b) 8;
        number (ucast (bind_spi0 b)) 4; number (ucast (bind_spi1 b)) 4
      }) cap)"

definition binding_get :: "(get_cursor, u64 \<times> u64 \<times> peer_sec_binding) state" where
  "binding_get = do {
     version \<leftarrow> take_number 2; suite \<leftarrow> take_number 2;
     cluster \<leftarrow> string_get 128;
     e0 \<leftarrow> endpoint_get; e1 \<leftarrow> endpoint_get;
     session \<leftarrow> get 16; association \<leftarrow> get 16; epoch \<leftarrow> take_number 8;
     spi0 \<leftarrow> take_number 4; spi1 \<leftarrow> take_number 4;
     State_Monad.return (version, suite,
       \<lparr>bind_cluster = cluster, bind_endpoint0 = e0, bind_endpoint1 = e1, bind_session = session, bind_association = association,
        bind_epoch = epoch, bind_spi0 = ucast spi0, bind_spi1 = ucast spi1\<rparr>)
   }"

definition peer_sec_binding_decode :: "u8 list \<Rightarrow> peer_sec_binding option" where
  "peer_sec_binding_decode buf =
     map_option (\<lambda>(_, _, b). b)
       (decode_all binding_get (\<lambda>(version, suite, b). version = 2 \<and> suite = 1 \<and> peer_sec_binding_valid b) buf)"

definition endpoint_bytes :: "peer_sec_endpoint \<Rightarrow> u8 list" where
  "endpoint_bytes e =
     string_bytes (ep_node e) @ ep_public_key e @ ep_boot e @ string_bytes (ep_pod e) @ ep_daemon e @
     be_bytes 4 (ucast (ep_channel_slot e)) @ be_bytes 8 (ep_channel_generation e) @ ep_registration_nonce e"

definition endpoint_shape :: "peer_sec_endpoint \<Rightarrow> bool" where
  "endpoint_shape e \<longleftrightarrow>
     c_string 254 (ep_node e) \<and> length (ep_public_key e) = 32 \<and> length (ep_boot e) = 16 \<and> c_string 128 (ep_pod e) \<and>
     length (ep_daemon e) = 16 \<and> length (ep_registration_nonce e) = 32"

interpretation endpoint: codec endpoint_bytes endpoint_get endpoint_shape
proof (unfold_locales, goal_cases)
  case (1 x r)
  then show ?case by (auto simp: endpoint_bytes_def endpoint_get_def endpoint_shape_def field_dec_enc)
next
  case (2 c x c')
  then show ?case
    by (auto simp: endpoint_bytes_def endpoint_get_def endpoint_shape_def bind_run return_run wide_narrow simp del: run_state_bind dest!: field_enc_dec)
qed

lemma writes_endpoint [codec_writes]: "endpoint_valid e \<Longrightarrow> writes (endpoint_put e) (endpoint_bytes e)"
  unfolding endpoint_put_def endpoint_bytes_def by (auto simp: endpoint_valid_def intro!: codec_writes)

definition binding_bytes :: "u64 \<times> u64 \<times> peer_sec_binding \<Rightarrow> u8 list" where
  "binding_bytes = (\<lambda>(version, suite, b).
     be_bytes 2 version @ be_bytes 2 suite @ string_bytes (bind_cluster b) @ endpoint_bytes (bind_endpoint0 b) @
     endpoint_bytes (bind_endpoint1 b) @ bind_session b @ bind_association b @ be_bytes 8 (bind_epoch b) @
     be_bytes 4 (ucast (bind_spi0 b)) @ be_bytes 4 (ucast (bind_spi1 b)))"

definition binding_shape :: "peer_sec_binding \<Rightarrow> bool" where
  "binding_shape b \<longleftrightarrow>
     c_string 128 (bind_cluster b) \<and> endpoint_shape (bind_endpoint0 b) \<and> endpoint_shape (bind_endpoint1 b) \<and>
     length (bind_session b) = 16 \<and> length (bind_association b) = 16"

interpretation binding: codec binding_bytes binding_get
  "\<lambda>(version, suite, b). take_bit 16 version = version \<and> take_bit 16 suite = suite \<and> binding_shape b"
proof (unfold_locales, goal_cases)
  case (1 x r)
  then show ?case by (auto simp: binding_bytes_def binding_get_def binding_shape_def field_dec_enc endpoint.dec_enc)
next
  case (2 c x c')
  then show ?case
    by (auto simp: binding_bytes_def binding_get_def binding_shape_def bind_run return_run wide_narrow simp del: run_state_bind
        dest!: field_enc_dec endpoint.enc_dec)
qed

lemma binding_encode_eq:
  "peer_sec_binding_encode b cap =
    (if peer_sec_binding_valid b \<and> length (binding_bytes (2, 1, b)) \<le> cap then Some (binding_bytes (2, 1, b)) else None)"
proof (cases "peer_sec_binding_valid b")
  case True
  then have v: "string_len (bind_cluster b) \<noteq> 0" "endpoint_valid (bind_endpoint0 b)" "endpoint_valid (bind_endpoint1 b)"
    by (simp_all add: peer_sec_binding_valid_def)
  show ?thesis
    using True v unfolding peer_sec_binding_encode_def
    by (subst encode_with_eq [where bs = "binding_bytes (2, 1, b)"]) (auto simp: binding_bytes_def PEER_SEC_AES128_GCM_def intro!: codec_writes)
qed (simp add: peer_sec_binding_encode_def)

section \<open>Lane\<close>

record peer_sec_lane =
  lane_id :: u64
  lane_generation :: u64
  lane_worker0 :: u16
  lane_worker1 :: u16
  lane_qpn0 :: u32
  lane_qpn1 :: u32
  lane_psn0 :: u32
  lane_psn1 :: u32
  lane_gid0 :: "u8 list"
  lane_gid1 :: "u8 list"
  lane_mtu :: u16

definition lane_valid :: "peer_sec_lane \<Rightarrow> bool" where
  "lane_valid l \<longleftrightarrow>
     lane_id l \<noteq> 0 \<and> lane_generation l \<noteq> 0 \<and> lane_worker0 l < 16 \<and> lane_worker1 l < 16 \<and>
     lane_qpn0 l \<noteq> 0 \<and> lane_qpn1 l \<noteq> 0 \<and> lane_qpn0 l \<le> 0xffffff \<and> lane_qpn1 l \<le> 0xffffff \<and>
     lane_psn0 l \<le> 0xffffff \<and> lane_psn1 l \<le> 0xffffff \<and>
     peer_sec_nonzero (lane_gid0 l) \<and> peer_sec_nonzero (lane_gid1 l) \<and>
     (lane_mtu l = 256 \<or> lane_mtu l = 512 \<or> lane_mtu l = 1024 \<or> lane_mtu l = 2048 \<or> lane_mtu l = 4096)"

definition peer_sec_lane_encode :: "peer_sec_lane \<Rightarrow> u8 list option" where
  "peer_sec_lane_encode l =
     (if \<not> lane_valid l then None
      else encode_exact (do {
        number (lane_id l) 8; number (lane_generation l) 8;
        number (ucast (lane_worker0 l)) 2; number (ucast (lane_qpn0 l)) 3; number (ucast (lane_psn0 l)) 3; put (lane_gid0 l);
        number (ucast (lane_worker1 l)) 2; number (ucast (lane_qpn1 l)) 3; number (ucast (lane_psn1 l)) 3; put (lane_gid1 l);
        number (ucast (lane_mtu l)) 2
      }) 66)"

definition lane_get :: "(get_cursor, peer_sec_lane) state" where
  "lane_get = do {
     id \<leftarrow> take_number 8; generation \<leftarrow> take_number 8;
     worker0 \<leftarrow> take_number 2; qpn0 \<leftarrow> take_number 3; psn0 \<leftarrow> take_number 3; gid0 \<leftarrow> get 16;
     worker1 \<leftarrow> take_number 2; qpn1 \<leftarrow> take_number 3; psn1 \<leftarrow> take_number 3; gid1 \<leftarrow> get 16;
     mtu \<leftarrow> take_number 2;
     State_Monad.return \<lparr>lane_id = id, lane_generation = generation, lane_worker0 = ucast worker0, lane_worker1 = ucast worker1,
       lane_qpn0 = ucast qpn0, lane_qpn1 = ucast qpn1, lane_psn0 = ucast psn0, lane_psn1 = ucast psn1,
       lane_gid0 = gid0, lane_gid1 = gid1, lane_mtu = ucast mtu\<rparr>
   }"

definition peer_sec_lane_decode :: "u8 list \<Rightarrow> peer_sec_lane option" where
  "peer_sec_lane_decode buf = (if length buf \<noteq> 66 then None else decode_all lane_get lane_valid buf)"

definition lane_bytes :: "peer_sec_lane \<Rightarrow> u8 list" where
  "lane_bytes l =
     be_bytes 8 (lane_id l) @ be_bytes 8 (lane_generation l) @
     be_bytes 2 (ucast (lane_worker0 l)) @ be_bytes 3 (ucast (lane_qpn0 l)) @ be_bytes 3 (ucast (lane_psn0 l)) @ lane_gid0 l @
     be_bytes 2 (ucast (lane_worker1 l)) @ be_bytes 3 (ucast (lane_qpn1 l)) @ be_bytes 3 (ucast (lane_psn1 l)) @ lane_gid1 l @
     be_bytes 2 (ucast (lane_mtu l))"

text \<open>A queue-pair number or packet sequence number that fits its three bytes.\<close>

definition fits24 :: "u32 \<Rightarrow> bool" where
  "fits24 q \<longleftrightarrow> take_bit 24 (ucast q :: u64) = ucast q"

definition lane_shape :: "peer_sec_lane \<Rightarrow> bool" where
  "lane_shape l \<longleftrightarrow>
     length (lane_gid0 l) = 16 \<and> length (lane_gid1 l) = 16 \<and>
     fits24 (lane_qpn0 l) \<and> fits24 (lane_qpn1 l) \<and> fits24 (lane_psn0 l) \<and> fits24 (lane_psn1 l)"

interpretation lane: codec lane_bytes lane_get lane_shape
proof (unfold_locales, goal_cases)
  case (1 x r)
  then show ?case by (simp add: lane_bytes_def lane_get_def lane_shape_def fits24_def field_dec_enc)
next
  case (2 c x c')
  then show ?case
    by (auto simp: lane_bytes_def lane_get_def lane_shape_def fits24_def bind_run return_run wide_narrow wide_narrow24 simp del: run_state_bind
        dest!: field_enc_dec)
qed

section \<open>Keys and sessions\<close>

text \<open>
  The keys that the TLS connection reports for its two ends and its exporter are arguments. Endpoint \<open>i\<close>
  of a binding is the first one for 0 and the second one for 1.
\<close>

definition binding_endpoint :: "peer_sec_binding \<Rightarrow> nat \<Rightarrow> peer_sec_endpoint" where
  "binding_endpoint b i = (if i = 0 then bind_endpoint0 b else bind_endpoint1 b)"

definition peer_sec_derive ::
  "u8 list option \<Rightarrow> u8 list option \<Rightarrow> (u8 list \<Rightarrow> u8 list option) \<Rightarrow> peer_sec_binding \<Rightarrow> nat \<Rightarrow> nat \<Rightarrow> u8 list option" where
  "peer_sec_derive tls_local_key tls_peer_key tls_export b local direction =
     (if local > 1 \<or> direction > 1 \<or> \<not> peer_sec_binding_valid b \<or>
         tls_local_key \<noteq> Some (ep_public_key (binding_endpoint b local)) \<or>
         tls_peer_key \<noteq> Some (ep_public_key (binding_endpoint b (1 - local))) then None
      else
        (case peer_sec_binding_encode b (4096 - 1) of
           None \<Rightarrow> None
         | Some context \<Rightarrow> tls_export (context @ [of_nat direction])))"

definition session_domain :: "u8 list" where
  "session_domain = ascii ''DPUmesh-control-session-v2'' @ [0]"

text \<open>The hash function is an argument; it may fail or give a digest of another size.\<close>

definition peer_sec_session_id :: "(u8 list \<Rightarrow> u8 list option) \<Rightarrow> peer_sec_hello \<Rightarrow> peer_sec_hello \<Rightarrow> u8 list option" where
  "peer_sec_session_id sha256 a b =
     (if \<not> hello_valid a \<or> \<not> hello_valid b \<or> strcmp (hello_cluster a) (hello_cluster b) \<noteq> 0 \<or>
         strcmp (hello_node a) (hello_node b) = 0 then None
      else
        let (a, b) = (if strcmp (hello_node a) (hello_node b) > 0 then (b, a) else (a, b))
        in (case peer_sec_hello_encode a (2048 - length session_domain) of
              None \<Rightarrow> None
            | Some x \<Rightarrow>
                (case peer_sec_hello_encode b (2048 - length session_domain - length x) of
                   None \<Rightarrow> None
                 | Some y \<Rightarrow>
                     (case sha256 (session_domain @ x @ y) of
                        None \<Rightarrow> None
                      | Some digest \<Rightarrow> if length digest \<noteq> 32 then None else Some (take 16 digest)))))"

section \<open>Data header\<close>

record peer_sec_data_header =
  dh_type :: u16
  dh_body_len :: u32
  dh_association :: "u8 list"
  dh_lane_id :: u64
  dh_lane_generation :: u64
  dh_handle :: u32
  dh_stream_generation :: u64
  dh_sequence :: u64

definition PEER_SEC_STREAM_OPEN :: u16 where "PEER_SEC_STREAM_OPEN = 1"
definition PEER_SEC_DATA :: u16 where "PEER_SEC_DATA = 3"
definition PEER_SEC_STREAM_FIN :: u16 where "PEER_SEC_STREAM_FIN = 5"

definition data_valid :: "peer_sec_data_header \<Rightarrow> bool" where
  "data_valid h \<longleftrightarrow>
     dh_type h \<ge> PEER_SEC_STREAM_OPEN \<and> dh_type h \<le> PEER_SEC_STREAM_FIN \<and>
     dh_body_len h \<le> PEER_SEC_DATA_MAX \<and> peer_sec_nonzero (dh_association h) \<and>
     dh_lane_id h \<noteq> 0 \<and> dh_lane_generation h \<noteq> 0 \<and> dh_handle h \<noteq> 0 \<and> dh_stream_generation h \<noteq> 0 \<and>
     (dh_type h \<noteq> PEER_SEC_DATA \<or> (dh_body_len h \<noteq> 0 \<and> dh_sequence h \<noteq> 0))"

definition peer_sec_data_encode :: "peer_sec_data_header \<Rightarrow> u8 list option" where
  "peer_sec_data_encode h =
     (if \<not> data_valid h then None
      else encode_exact (do {
        put (ascii ''DMSD''); number PEER_SEC_VERSION 2; number (ucast (dh_type h)) 2;
        number (ucast (dh_body_len h)) 4; put (dh_association h);
        number (dh_lane_id h) 8; number (dh_lane_generation h) 8;
        number (ucast (dh_handle h)) 4; number (dh_stream_generation h) 8; number (dh_sequence h) 8
      }) 64)"

definition data_get :: "(get_cursor, u8 list \<times> u64 \<times> peer_sec_data_header) state" where
  "data_get = do {
     magic \<leftarrow> get 4; version \<leftarrow> take_number 2;
     type \<leftarrow> take_number 2; body_len \<leftarrow> take_number 4;
     association \<leftarrow> get 16; id \<leftarrow> take_number 8; generation \<leftarrow> take_number 8;
     handle \<leftarrow> take_number 4; stream_generation \<leftarrow> take_number 8;
     sequence \<leftarrow> take_number 8;
     State_Monad.return (magic, version,
       \<lparr>dh_type = ucast type, dh_body_len = ucast body_len, dh_association = association, dh_lane_id = id,
        dh_lane_generation = generation, dh_handle = ucast handle, dh_stream_generation = stream_generation, dh_sequence = sequence\<rparr>)
   }"

definition peer_sec_data_decode :: "u8 list \<Rightarrow> u8 list \<Rightarrow> u64 \<Rightarrow> u64 \<Rightarrow> peer_sec_data_header option" where
  "peer_sec_data_decode buf association lane generation =
     (if length buf < 64 \<or> length buf > 64 + unat PEER_SEC_DATA_MAX then None
      else map_option (\<lambda>(_, _, h). h)
        (decode_all data_get
          (\<lambda>(magic, version, h). magic = ascii ''DMSD'' \<and> version = PEER_SEC_VERSION \<and> data_valid h \<and>
             length buf = 64 + unat (dh_body_len h) \<and> dh_association h = association \<and>
             dh_lane_id h = lane \<and> dh_lane_generation h = generation)
          (take 64 buf)))"

definition data_bytes :: "u8 list \<times> u64 \<times> peer_sec_data_header \<Rightarrow> u8 list" where
  "data_bytes = (\<lambda>(magic, version, h).
     magic @ be_bytes 2 version @ be_bytes 2 (ucast (dh_type h)) @ be_bytes 4 (ucast (dh_body_len h)) @ dh_association h @
     be_bytes 8 (dh_lane_id h) @ be_bytes 8 (dh_lane_generation h) @ be_bytes 4 (ucast (dh_handle h)) @
     be_bytes 8 (dh_stream_generation h) @ be_bytes 8 (dh_sequence h))"

interpretation data: codec data_bytes data_get
  "\<lambda>(magic, version, h). length magic = 4 \<and> take_bit 16 version = version \<and> length (dh_association h) = 16"
proof (unfold_locales, goal_cases)
  case (1 x r)
  then show ?case by (auto simp: data_bytes_def data_get_def field_dec_enc)
next
  case (2 c x c')
  then show ?case
    by (auto simp: data_bytes_def data_get_def bind_run return_run wide_narrow simp del: run_state_bind dest!: field_enc_dec)
qed

section \<open>Messages have one form\<close>

lemma foldl_or_eq_0: "foldl (OR) a bs = 0 \<longleftrightarrow> a = 0 \<and> list_all (\<lambda>b. b = 0) bs" for a :: u8
  by (induction bs arbitrary: a) (auto simp: or_eq_0_iff)

lemma nonzero_iff: "peer_sec_nonzero bs \<longleftrightarrow> (\<exists>b \<in> set bs. b \<noteq> 0)"
  by (auto simp: peer_sec_nonzero_def foldl_or_eq_0 list_all_iff)

lemma zero_bytes: "\<not> peer_sec_nonzero bs \<Longrightarrow> bs = replicate (length bs) 0"
  by (auto simp: nonzero_iff intro!: replicate_eqI [of bs, OF refl])

lemma length_ascii [simp]: "length (ascii s) = length s"
  by (simp add: ascii_def)

lemma header_encode_eq:
  assumes "length (hdr_session h) = 16" "length (hdr_association h) = 16"
  shows "peer_sec_header_encode h = (if header_valid h then Some (header_bytes (ascii ''DMSC'', 2, 0, h)) else None)"
proof -
  have "writes (do {
        put (ascii ''DMSC''); number PEER_SEC_VERSION 2; number (ucast (hdr_type h)) 2;
        number 0 4; number (ucast (hdr_body_len h)) 4; put (hdr_session h);
        number (hdr_operation h) 8; put (hdr_association h); number (hdr_epoch h) 8
      }) (header_bytes (ascii ''DMSC'', 2, 0, h))"
    by (auto simp: header_bytes_def PEER_SEC_VERSION_def intro!: codec_writes)
  from encode_with_eq [OF this, of 64] show ?thesis using assms by (simp add: peer_sec_header_encode_def) (simp add: header_bytes_def)
qed

lemma header_get_total: "length bs = 64 \<Longrightarrow> \<exists>x. run_state header_get (rd bs) = (x, rd [])"
  by (simp add: header_get_def take_number_def get_def)

text \<open>
  C31. A control header is accepted exactly when the first 64 bytes of the buffer are what the encoder
  writes for the header it gives: a header has one form on the wire, and neither an unknown version,
  type or flag nor an identifier that its type does not allow passes.
\<close>

theorem header_canonical:
  "peer_sec_header_decode buf = Header h \<longleftrightarrow>
    64 \<le> length buf \<and> length (hdr_session h) = 16 \<and> length (hdr_association h) = 16 \<and> peer_sec_header_encode h = Some (take 64 buf)"
    (is "?l \<longleftrightarrow> ?r")
proof
  assume d: ?l
  then have len: "64 \<le> length buf" by (auto simp: peer_sec_header_decode_def split: if_splits)
  obtain x where x: "run_state header_get (rd (take 64 buf)) = (x, rd [])" using header_get_total [of "take 64 buf"] len by auto
  from d x len have v: "x = (ascii ''DMSC'', 2, 0, h)" "header_valid h"
    by (auto simp: peer_sec_header_decode_def split: prod.splits if_splits)
  from header.enc_dec [OF x] have "take 64 buf = header_bytes x" "header_shape x" by auto
  with v len show ?r by (simp add: header_encode_eq header_shape_def)
next
  assume r: ?r
  then have v: "header_valid h" "take 64 buf = header_bytes (ascii ''DMSC'', 2, 0, h)" by (auto simp: header_encode_eq split: if_splits)
  have "header_shape (ascii ''DMSC'', 2, 0, h)" using r by (simp add: header_shape_def)
  from header.dec_enc_all [OF this] v r show ?l by (simp add: peer_sec_header_decode_def)
qed

lemma hello_canonical:
  "peer_sec_hello_decode buf = Some h \<longleftrightarrow> hello_shape h \<and> peer_sec_hello_encode h (length buf) = Some buf"
  by (auto simp: peer_sec_hello_decode_def hello.decode_all_iff hello_encode_eq PEER_SEC_AES128_GCM_def)

lemma binding_canonical:
  "peer_sec_binding_decode buf = Some b \<longleftrightarrow> binding_shape b \<and> peer_sec_binding_encode b (length buf) = Some buf"
  by (auto simp: peer_sec_binding_decode_def binding.decode_all_iff binding_encode_eq)

lemma lane_encode_eq:
  "length (lane_gid0 l) = 16 \<Longrightarrow> length (lane_gid1 l) = 16 \<Longrightarrow>
    peer_sec_lane_encode l = (if lane_valid l then Some (lane_bytes l) else None)"
  unfolding peer_sec_lane_encode_def
  by (subst encode_exact_eq [where bs = "lane_bytes l"]) (auto simp: lane_bytes_def intro!: codec_writes)

lemma lane_canonical:
  "peer_sec_lane_decode buf = Some l \<longleftrightarrow>
    length (lane_gid0 l) = 16 \<and> length (lane_gid1 l) = 16 \<and> peer_sec_lane_encode l = Some buf"
proof -
  have "lane_valid l \<Longrightarrow> lane_shape l \<longleftrightarrow> length (lane_gid0 l) = 16 \<and> length (lane_gid1 l) = 16"
    by (auto simp: lane_valid_def lane_shape_def fits24_def wide24)
  moreover have "length (lane_gid0 l) = 16 \<Longrightarrow> length (lane_gid1 l) = 16 \<Longrightarrow> length (lane_bytes l) = 66" by (simp add: lane_bytes_def)
  ultimately show ?thesis by (auto simp: peer_sec_lane_decode_def lane.decode_all_iff lane_encode_eq split: if_splits)
qed

lemma data_encode_eq:
  "length (dh_association h) = 16 \<Longrightarrow>
    peer_sec_data_encode h = (if data_valid h then Some (data_bytes (ascii ''DMSD'', PEER_SEC_VERSION, h)) else None)"
  unfolding peer_sec_data_encode_def
  by (subst encode_exact_eq [where bs = "data_bytes (ascii ''DMSD'', PEER_SEC_VERSION, h)"])
    (auto simp: data_bytes_def intro!: codec_writes)

text \<open>
  C32. A data message is accepted for an association and a lane exactly when it starts with what the
  encoder writes for the header it gives, that header names this association and this generation of
  this lane, and the message is as long as the header says. Data of another association or of an
  earlier generation of the lane is never delivered.
\<close>

theorem data_message_canonical:
  "peer_sec_data_decode buf association lane generation = Some h \<longleftrightarrow>
    peer_sec_data_encode h = Some (take 64 buf) \<and> length buf = 64 + unat (dh_body_len h) \<and> length association = 16 \<and>
    dh_association h = association \<and> dh_lane_id h = lane \<and> dh_lane_generation h = generation" (is "?l \<longleftrightarrow> ?r")
proof -
  let ?b = "data_bytes (ascii ''DMSD'', PEER_SEC_VERSION, h)"
  have len: "data_valid h \<Longrightarrow> unat (dh_body_len h) \<le> unat PEER_SEC_DATA_MAX" by (simp add: data_valid_def word_le_nat_alt)
  have "?l \<longleftrightarrow> \<not> (length buf < 64 \<or> length buf > 64 + unat PEER_SEC_DATA_MAX) \<and> length (dh_association h) = 16 \<and> data_valid h \<and>
      length buf = 64 + unat (dh_body_len h) \<and> dh_association h = association \<and> dh_lane_id h = lane \<and>
      dh_lane_generation h = generation \<and> take 64 buf = ?b"
    by (auto simp: peer_sec_data_decode_def data.decode_all_iff PEER_SEC_VERSION_def)
  then show ?thesis using len by (auto simp: data_encode_eq split: if_splits)
qed

section \<open>Key contexts and session identifiers\<close>

text \<open>
  C33. The two ends of a TLS connection derive the same key for a binding and a direction, and the context
  given to the exporter determines both: two derivations that reach the exporter with the same context
  are for the same binding (cluster, nodes, keys, pods, registrations, session, association, epoch and
  SPIs) and the same direction. The exporter is replaced by the function that returns its context.
\<close>

theorem key_contexts_separate:
  assumes s: "binding_shape b" "binding_shape b'"
    and d: "peer_sec_derive lk pk Some b l dir = Some ctx" "peer_sec_derive lk' pk' Some b' l' dir' = Some ctx"
  shows "b = b' \<and> dir = dir' \<and> peer_sec_derive k0 k1 export b 0 dir = peer_sec_derive k1 k0 export b 1 dir"
proof -
  have c: "ctx = binding_bytes (2, 1, x) @ [of_nat n] \<and> n \<le> 1" if "peer_sec_derive a e Some x i n = Some ctx" for a e x i n
    using that by (auto simp: peer_sec_derive_def binding_encode_eq split: if_splits)
  have "(2, 1, b) = (2 :: u64, 1 :: u64, b') \<and> [of_nat dir] = [of_nat dir' :: u8]"
    by (rule binding.enc_prefix_free) (use s c [OF d(1)] c [OF d(2)] in auto)
  moreover have "dir \<le> 1" "dir' \<le> 1" using c [OF d(1)] c [OF d(2)] by auto
  ultimately have "b = b' \<and> dir = dir'" by (auto simp: le_Suc_eq)
  moreover have "peer_sec_derive k0 k1 export b 0 dir = peer_sec_derive k1 k0 export b 1 dir"
    by (auto simp: peer_sec_derive_def binding_endpoint_def)
  ultimately show ?thesis by blast
qed

lemma strcmp_swap: "strcmp xs ys = - strcmp ys xs"
  by (induction xs ys rule: strcmp.induct) auto

lemma binding_bytes_bound:
  assumes "binding_shape b"
  shows "length (binding_bytes (v, s, b)) \<le> 1165"
proof -
  have e: "length (endpoint_bytes e) \<le> 492" if "endpoint_shape e" for e
  proof -
    have "string_len (ep_node e) < 254" "string_len (ep_pod e) < 128"
      using that by (auto simp: endpoint_shape_def elim!: c_string_split)
    then show ?thesis using that by (simp add: endpoint_bytes_def endpoint_shape_def string_bytes_def)
  qed
  have "string_len (bind_cluster b) < 128" using assms by (auto simp: binding_shape_def elim!: c_string_split)
  then show ?thesis
    using assms e [of "bind_endpoint0 b"] e [of "bind_endpoint1 b"] by (simp add: binding_bytes_def binding_shape_def string_bytes_def)
qed

lemma hello_bytes_bound:
  assumes "hello_shape h"
  shows "length (hello_bytes (h, suite)) \<le> 452"
proof -
  have "string_len (hello_cluster h) < 128" "string_len (hello_node h) < 254"
    using assms by (auto simp: hello_shape_def elim!: c_string_split)
  then show ?thesis using assms by (simp add: hello_bytes_def hello_shape_def string_bytes_def)
qed

definition session_transcript :: "peer_sec_hello \<Rightarrow> peer_sec_hello \<Rightarrow> u8 list" where
  "session_transcript a b = session_domain @ hello_bytes (a, PEER_SEC_AES128_GCM) @ hello_bytes (b, PEER_SEC_AES128_GCM)"

definition session_of :: "u8 list option \<Rightarrow> u8 list option" where
  "session_of d = (case d of None \<Rightarrow> None | Some digest \<Rightarrow> if length digest \<noteq> 32 then None else Some (take 16 digest))"

lemma session_id_ordered:
  assumes "hello_shape a" "hello_shape b" "hello_valid a" "hello_valid b" "strcmp (hello_cluster a) (hello_cluster b) = 0"
    "strcmp (hello_node a) (hello_node b) < 0"
  shows "peer_sec_session_id H a b = session_of (H (session_transcript a b))"
    "peer_sec_session_id H b a = session_of (H (session_transcript a b))"
proof -
  have l: "length session_domain = 27" by (simp add: session_domain_def)
  have s: "strcmp (hello_cluster b) (hello_cluster a) = 0" "strcmp (hello_node b) (hello_node a) > 0"
    using assms(5,6) strcmp_swap [of "hello_cluster b"] strcmp_swap [of "hello_node b"] by auto
  have n: "length (hello_bytes (a, PEER_SEC_AES128_GCM)) \<le> 452" "length (hello_bytes (b, PEER_SEC_AES128_GCM)) \<le> 452"
    using assms hello_bytes_bound by blast+
  then have e: "peer_sec_hello_encode a (2048 - 27) = Some (hello_bytes (a, PEER_SEC_AES128_GCM))"
    "peer_sec_hello_encode b (2048 - 27 - length (hello_bytes (a, PEER_SEC_AES128_GCM))) = Some (hello_bytes (b, PEER_SEC_AES128_GCM))"
    using assms by (auto simp: hello_encode_eq)
  show "peer_sec_session_id H a b = session_of (H (session_transcript a b))"
    using assms e unfolding peer_sec_session_id_def l session_of_def session_transcript_def by simp
  show "peer_sec_session_id H b a = session_of (H (session_transcript a b))"
    using assms s e unfolding peer_sec_session_id_def l session_of_def session_transcript_def by simp
qed

lemma session_transcript_inj:
  assumes "hello_shape a" "hello_shape b" "hello_shape a'" "hello_shape b'" "session_transcript a b = session_transcript a' b'"
  shows "a = a' \<and> b = b'"
proof -
  have g: "take_bit 16 PEER_SEC_AES128_GCM = PEER_SEC_AES128_GCM" by (simp add: PEER_SEC_AES128_GCM_def)
  have "hello_bytes (a, PEER_SEC_AES128_GCM) @ hello_bytes (b, PEER_SEC_AES128_GCM) @ [] =
      hello_bytes (a', PEER_SEC_AES128_GCM) @ hello_bytes (b', PEER_SEC_AES128_GCM) @ []"
    using assms(5) by (simp add: session_transcript_def)
  then have a: "(a, PEER_SEC_AES128_GCM) = (a', PEER_SEC_AES128_GCM) \<and>
      hello_bytes (b, PEER_SEC_AES128_GCM) @ [] = hello_bytes (b', PEER_SEC_AES128_GCM) @ []"
    by (intro hello.enc_prefix_free) (use assms g in auto)
  then have "(b, PEER_SEC_AES128_GCM) = (b', PEER_SEC_AES128_GCM) \<and> ([] :: u8 list) = []"
    by (intro hello.enc_prefix_free) (use assms g in auto)
  with a show ?thesis by simp
qed

text \<open>
  C34. Two peers with valid hellos of one cluster and different nodes compute the same session identifier,
  whichever of them computes it; it never fails for want of buffer, and it is the truncated digest of
  a transcript that determines both hellos.
\<close>

theorem session_id_agrees:
  assumes "hello_shape a" "hello_shape b" "hello_shape a'" "hello_shape b'"
    and "hello_valid a" "hello_valid b" "strcmp (hello_cluster a) (hello_cluster b) = 0" "strcmp (hello_node a) (hello_node b) \<noteq> 0"
    and "hello_valid a'" "hello_valid b'" "strcmp (hello_cluster a') (hello_cluster b') = 0" "strcmp (hello_node a') (hello_node b') \<noteq> 0"
  shows "\<exists>t t'. (\<forall>H. peer_sec_session_id H a b = session_of (H t) \<and> peer_sec_session_id H b a = session_of (H t))
     \<and> (\<forall>H. peer_sec_session_id H a' b' = session_of (H t') \<and> peer_sec_session_id H b' a' = session_of (H t'))
     \<and> (t = t' \<longrightarrow> {a, b} = {a', b'})"
proof -
  have one: "\<exists>x y. {x, y} = {a, b} \<and> hello_shape x \<and> hello_shape y
      \<and> (\<forall>H. peer_sec_session_id H a b = session_of (H (session_transcript x y)) \<and> peer_sec_session_id H b a = session_of (H (session_transcript x y)))"
    if h: "hello_shape a" "hello_shape b" "hello_valid a" "hello_valid b" "strcmp (hello_cluster a) (hello_cluster b) = 0"
      "strcmp (hello_node a) (hello_node b) \<noteq> 0" for a b
  proof (cases "strcmp (hello_node a) (hello_node b) < 0")
    case True
    then show ?thesis using h session_id_ordered [of a b] by blast
  next
    case False
    then have "strcmp (hello_node b) (hello_node a) < 0" "strcmp (hello_cluster b) (hello_cluster a) = 0"
      using h strcmp_swap [of "hello_node b"] strcmp_swap [of "hello_cluster b"] by auto
    then show ?thesis using h session_id_ordered [of b a] by blast
  qed
  from one [of a b] assms obtain x y where x: "{x, y} = {a, b}" "hello_shape x" "hello_shape y"
    "\<forall>H. peer_sec_session_id H a b = session_of (H (session_transcript x y)) \<and> peer_sec_session_id H b a = session_of (H (session_transcript x y))" by blast
  from one [of a' b'] assms obtain u v where u: "{u, v} = {a', b'}" "hello_shape u" "hello_shape v"
    "\<forall>H. peer_sec_session_id H a' b' = session_of (H (session_transcript u v)) \<and> peer_sec_session_id H b' a' = session_of (H (session_transcript u v))" by blast
  have "session_transcript x y = session_transcript u v \<longrightarrow> {a, b} = {a', b'}"
    using session_transcript_inj [of x y u v] x u by auto
  with x(4) u(4) show ?thesis by blast
qed

section \<open>Examples\<close>

definition demo_text :: "nat \<Rightarrow> string \<Rightarrow> u8 list" where
  "demo_text cap s = ascii s @ replicate (cap - length s) 0"

lemma demo_text_ok:
  assumes "list_all printable (ascii s)" "s \<noteq> []" "length s < cap"
  shows "c_string cap (demo_text cap s)" "string_len (demo_text cap s) = length s"
  using string_len_pad [OF assms(1), of cap] assms by (simp_all add: c_string_def demo_text_def)

lemma printable_demo: "list_all printable (ascii ''a'')" "list_all printable (ascii ''b'')"
  by (simp_all add: ascii_def printable_def of_char_def)

lemmas demo_strings = demo_text_ok [OF printable_demo(1)] demo_text_ok [OF printable_demo(2)]

lemma demo_order: "strcmp (demo_text n ''a'') (demo_text n ''b'') = -1" "strcmp (demo_text n ''a'') (demo_text n ''a'') = 0"
proof -
  have "strcmp (replicate k 0) (replicate k 0) = 0" for k by (cases k) auto
  then show "strcmp (demo_text n ''a'') (demo_text n ''b'') = -1" "strcmp (demo_text n ''a'') (demo_text n ''a'') = 0"
    by (simp_all add: demo_text_def ascii_def of_char_def)
qed

definition demo_hello :: "string \<Rightarrow> peer_sec_hello" where
  "demo_hello node = \<lparr>hello_cluster = demo_text 128 ''a'', hello_node = demo_text 254 node, hello_public_key = replicate 32 1,
     hello_boot = replicate 16 2, hello_nonce = replicate 16 3, hello_workers = 4\<rparr>"

lemma demo_hello_ok: "hello_shape (demo_hello ''a'')" "hello_shape (demo_hello ''b'')" "hello_valid (demo_hello ''a'')" "hello_valid (demo_hello ''b'')"
  by (simp_all add: demo_hello_def hello_shape_def hello_valid_def demo_strings nonzero_iff)

theorem session_id_agrees_witness:
  "\<exists>t. peer_sec_session_id (\<lambda>_. Some (replicate 32 7)) (demo_hello ''a'') (demo_hello ''b'') = session_of (Some (replicate 32 7))
    \<and> (\<forall>H. peer_sec_session_id H (demo_hello ''a'') (demo_hello ''b'') = session_of (H t)
         \<and> peer_sec_session_id H (demo_hello ''b'') (demo_hello ''a'') = session_of (H t))"
proof -
  have n: "strcmp (hello_cluster (demo_hello ''a'')) (hello_cluster (demo_hello ''b'')) = 0"
    "strcmp (hello_node (demo_hello ''a'')) (hello_node (demo_hello ''b'')) \<noteq> 0" by (simp_all add: demo_hello_def demo_order)
  from session_id_agrees [OF demo_hello_ok(1,2,1,2,3,4) n demo_hello_ok(3,4) n] show ?thesis by blast
qed

definition demo_header :: peer_sec_header where
  "demo_header = \<lparr>hdr_type = PEER_SEC_PING, hdr_body_len = 16, hdr_session = replicate 16 1, hdr_operation = 1,
     hdr_association = replicate 16 0, hdr_epoch = 0\<rparr>"

theorem header_canonical_witness:
  "\<exists>bytes. peer_sec_header_encode demo_header = Some bytes \<and> peer_sec_header_decode (bytes @ [0, 0]) = Header demo_header"
proof -
  have v: "header_valid demo_header"
    by (simp add: header_valid_def demo_header_def PEER_SEC_PING_def PEER_SEC_HELLO_def PEER_SEC_PONG_def PEER_SEC_BODY_MAX_def nonzero_iff)
  have l: "length (hdr_session demo_header) = 16" "length (hdr_association demo_header) = 16" by (simp_all add: demo_header_def)
  let ?b = "header_bytes (ascii ''DMSC'', 2, 0, demo_header)"
  have "length ?b = 64" by (simp add: header_bytes_def demo_header_def)
  moreover have e: "peer_sec_header_encode demo_header = Some ?b" using v l by (simp add: header_encode_eq)
  ultimately show ?thesis using header_canonical [of "?b @ [0, 0]" demo_header] l by auto
qed

definition demo_data :: peer_sec_data_header where
  "demo_data = \<lparr>dh_type = PEER_SEC_DATA, dh_body_len = 2, dh_association = replicate 16 1, dh_lane_id = 5, dh_lane_generation = 3,
     dh_handle = 9, dh_stream_generation = 1, dh_sequence = 1\<rparr>"

theorem data_message_canonical_witness:
  "\<exists>bytes. peer_sec_data_encode demo_data = Some bytes
    \<and> peer_sec_data_decode (bytes @ [7, 8]) (replicate 16 1) 5 3 = Some demo_data
    \<and> peer_sec_data_decode (bytes @ [7, 8]) (replicate 16 1) 5 4 \<noteq> Some demo_data"
proof -
  have v: "data_valid demo_data"
    by (simp add: data_valid_def demo_data_def PEER_SEC_DATA_def PEER_SEC_STREAM_OPEN_def PEER_SEC_STREAM_FIN_def PEER_SEC_DATA_MAX_def nonzero_iff)
  have f: "length (dh_association demo_data) = 16" "dh_association demo_data = replicate 16 1" "dh_lane_id demo_data = 5"
    "dh_lane_generation demo_data = 3" "unat (dh_body_len demo_data) = 2" by (simp_all add: demo_data_def)
  let ?b = "data_bytes (ascii ''DMSD'', PEER_SEC_VERSION, demo_data)"
  have n: "length ?b = 64" by (simp add: data_bytes_def demo_data_def)
  have e: "peer_sec_data_encode demo_data = Some ?b" using v f by (simp add: data_encode_eq)
  show ?thesis
    using data_message_canonical [of "?b @ [7, 8]" "replicate 16 1" 5 3 demo_data]
      data_message_canonical [of "?b @ [7, 8]" "replicate 16 1" 5 4 demo_data] n e f by auto
qed

definition demo_endpoint :: "string \<Rightarrow> u8 \<Rightarrow> peer_sec_endpoint" where
  "demo_endpoint s k = \<lparr>ep_node = demo_text 254 s, ep_public_key = replicate 32 k, ep_boot = replicate 16 1, ep_pod = demo_text 128 s,
     ep_daemon = replicate 16 1, ep_channel_slot = 0, ep_channel_generation = 1, ep_registration_nonce = replicate 32 1\<rparr>"

definition demo_binding :: peer_sec_binding where
  "demo_binding = \<lparr>bind_cluster = demo_text 128 ''a'', bind_endpoint0 = demo_endpoint ''a'' 1, bind_endpoint1 = demo_endpoint ''b'' 2,
     bind_session = replicate 16 1, bind_association = replicate 16 2, bind_epoch = 1, bind_spi0 = 256, bind_spi1 = 257\<rparr>"

lemma demo_binding_ok: "binding_shape demo_binding" "peer_sec_binding_valid demo_binding"
  by (simp_all add: demo_binding_def demo_endpoint_def binding_shape_def endpoint_shape_def peer_sec_binding_valid_def endpoint_valid_def
      demo_strings demo_order nonzero_iff)

theorem key_contexts_separate_witness:
  "\<exists>ctx. peer_sec_derive (Some (replicate 32 1)) (Some (replicate 32 2)) Some demo_binding 0 1 = Some ctx
    \<and> peer_sec_derive (Some (replicate 32 2)) (Some (replicate 32 1)) Some demo_binding 1 1 = Some ctx"
proof -
  have k: "ep_public_key (binding_endpoint demo_binding 0) = replicate 32 1" "ep_public_key (binding_endpoint demo_binding (Suc 0)) = replicate 32 2"
    by (simp_all add: demo_binding_def binding_endpoint_def demo_endpoint_def)
  have d: "peer_sec_derive (Some (replicate 32 1)) (Some (replicate 32 2)) Some demo_binding 0 1 = Some (binding_bytes (2, 1, demo_binding) @ [1])"
    using demo_binding_ok binding_bytes_bound [OF demo_binding_ok(1), of 2 1] k by (simp add: peer_sec_derive_def binding_encode_eq)
  from key_contexts_separate [OF demo_binding_ok(1) demo_binding_ok(1) d d, of "Some (replicate 32 1)" "Some (replicate 32 2)" Some] d
  show ?thesis by auto
qed

end
