(* ===== verification/Negotiation_Wire.thy ===== *)
theory Negotiation_Wire
  imports Security_Wire
begin

text \<open>
  The bodies with which two DPUs negotiate the lanes of a pod pair, the second half of
  \<^verbatim>\<open>doca/peer_security_wire.c\<close>: registration, PROPOSE, the half lanes of ACCEPT and LANE_PARAMS, REKEY and ERROR. The
  lane array of a body keeps its 16 entries; the ones past the lane count are zero in what a decoder
  gives.
\<close>

definition mtu_valid :: "u16 \<Rightarrow> bool" where
  "mtu_valid mtu \<longleftrightarrow> mtu = 256 \<or> mtu = 512 \<or> mtu = 1024 \<or> mtu = 2048 \<or> mtu = 4096"

section \<open>Registration\<close>

record dmesh_peer_registration =
  reg_daemon :: "u8 list"
  reg_slot :: u32
  reg_generation :: u64
  reg_nonce :: "u8 list"

definition dmesh_peer_registration_valid :: "dmesh_peer_registration \<Rightarrow> bool" where
  "dmesh_peer_registration_valid r \<longleftrightarrow>
     reg_generation r \<noteq> 0 \<and> foldl (OR) 0 (reg_daemon r) \<noteq> 0 \<and> foldl (OR) 0 (reg_nonce r) \<noteq> 0"

definition dmesh_peer_registration_equal :: "dmesh_peer_registration \<Rightarrow> dmesh_peer_registration \<Rightarrow> bool" where
  "dmesh_peer_registration_equal a b \<longleftrightarrow>
     reg_slot a = reg_slot b \<and> reg_generation a = reg_generation b \<and> reg_daemon a = reg_daemon b \<and> reg_nonce a = reg_nonce b"

definition registration_put :: "dmesh_peer_registration \<Rightarrow> (put_cursor, unit) state" where
  "registration_put r = do {
     put (reg_daemon r); number (ucast (reg_slot r)) 4;
     number (reg_generation r) 8; put (reg_nonce r)
   }"

definition registration_get :: "(get_cursor, dmesh_peer_registration) state" where
  "registration_get = do {
     daemon \<leftarrow> get 16; slot \<leftarrow> take_number 4;
     generation \<leftarrow> take_number 8; nonce \<leftarrow> get 32;
     State_Monad.return \<lparr>reg_daemon = daemon, reg_slot = ucast slot, reg_generation = generation, reg_nonce = nonce\<rparr>
   }"

definition registration_bytes :: "dmesh_peer_registration \<Rightarrow> u8 list" where
  "registration_bytes r = reg_daemon r @ be_bytes 4 (ucast (reg_slot r)) @ be_bytes 8 (reg_generation r) @ reg_nonce r"

definition registration_shape :: "dmesh_peer_registration \<Rightarrow> bool" where
  "registration_shape r \<longleftrightarrow> length (reg_daemon r) = 16 \<and> length (reg_nonce r) = 32"

interpretation registration: codec registration_bytes registration_get registration_shape
proof (unfold_locales, goal_cases)
  case (1 x r)
  then show ?case by (simp add: registration_bytes_def registration_get_def registration_shape_def field_dec_enc)
next
  case (2 c x c')
  then show ?case
    by (auto simp: registration_bytes_def registration_get_def registration_shape_def bind_run return_run wide_narrow simp del: run_state_bind
        dest!: field_enc_dec)
qed

lemma writes_registration [codec_writes]: "writes (registration_put r) (registration_bytes r)"
  unfolding registration_put_def registration_bytes_def by (intro codec_writes)

lemma registration_equal_iff: "dmesh_peer_registration_equal a b \<longleftrightarrow> a = b"
  by (cases a; cases b) (auto simp: dmesh_peer_registration_equal_def)

section \<open>Proposal\<close>

record peer_sec_lane_map =
  map_id :: u64
  map_generation :: u64
  map_worker0 :: u16
  map_worker1 :: u16

record peer_sec_propose =
  prop_cluster :: "u8 list"
  prop_source_pod :: "u8 list"
  prop_target_pod :: "u8 list"
  prop_source :: dmesh_peer_registration
  prop_association :: "u8 list"
  prop_rx_spi :: u32
  prop_incarnation :: u32
  prop_service :: "u8 list"
  prop_port :: u16
  prop_mtu :: u16
  prop_lane_count :: u16
  prop_lane :: "peer_sec_lane_map list"

definition lane_ids_valid :: "nat \<Rightarrow> u64 list \<Rightarrow> u64 list \<Rightarrow> bool" where
  "lane_ids_valid count ids generations \<longleftrightarrow>
     count \<noteq> 0 \<and> count \<le> PEER_SEC_LANES_MAX \<and>
     list_all (\<lambda>i. ids ! i \<noteq> 0 \<and> generations ! i \<noteq> 0 \<and> (i = 0 \<or> ids ! (i - 1) < ids ! i)) [0..<count]"

definition propose_valid :: "peer_sec_propose \<Rightarrow> bool" where
  "propose_valid p \<longleftrightarrow>
     string_len (prop_cluster p) \<noteq> 0 \<and> string_len (prop_source_pod p) \<noteq> 0 \<and> string_len (prop_target_pod p) \<noteq> 0 \<and>
     strcmp (prop_source_pod p) (prop_target_pod p) \<noteq> 0 \<and> dmesh_peer_registration_valid (prop_source p) \<and>
     peer_sec_nonzero (prop_association p) \<and> prop_rx_spi p \<ge> 256 \<and> prop_incarnation p \<noteq> 0 \<and>
     string_len (prop_service p) \<noteq> 0 \<and> prop_port p \<noteq> 0 \<and> mtu_valid (prop_mtu p) \<and>
     prop_lane_count p \<noteq> 0 \<and> unat (prop_lane_count p) \<le> PEER_SEC_LANES_MAX \<and>
     list_all (\<lambda>i. map_worker0 (prop_lane p ! i) < 16 \<and> map_worker1 (prop_lane p ! i) < 16 \<and>
        list_all (\<lambda>j. map_worker0 (prop_lane p ! i) \<noteq> map_worker0 (prop_lane p ! j) \<and>
                      map_worker1 (prop_lane p ! i) \<noteq> map_worker1 (prop_lane p ! j)) [0..<i]) [0..<unat (prop_lane_count p)] \<and>
     lane_ids_valid (unat (prop_lane_count p)) (map map_id (prop_lane p)) (map map_generation (prop_lane p))"

definition lane_map_put :: "peer_sec_lane_map \<Rightarrow> (put_cursor, unit) state" where
  "lane_map_put l = do {
     number (map_id l) 8; number (map_generation l) 8;
     number (ucast (map_worker0 l)) 2; number (ucast (map_worker1 l)) 2
   }"

definition lane_map_get :: "(get_cursor, peer_sec_lane_map) state" where
  "lane_map_get = do {
     id \<leftarrow> take_number 8; generation \<leftarrow> take_number 8;
     worker0 \<leftarrow> take_number 2;
     worker1 \<leftarrow> take_number 2;
     State_Monad.return \<lparr>map_id = id, map_generation = generation, map_worker0 = ucast worker0, map_worker1 = ucast worker1\<rparr>
   }"

definition peer_sec_propose_encode :: "peer_sec_propose \<Rightarrow> nat \<Rightarrow> u8 list option" where
  "peer_sec_propose_encode p cap =
     (if \<not> propose_valid p then None
      else encode_with (do {
        number PEER_SEC_VERSION 2;
        string_put (prop_cluster p);
        string_put (prop_source_pod p);
        string_put (prop_target_pod p);
        registration_put (prop_source p);
        put (prop_association p); number (ucast (prop_rx_spi p)) 4; number (ucast (prop_incarnation p)) 4;
        string_put (prop_service p);
        number (ucast (prop_port p)) 2; number (ucast (prop_mtu p)) 2; number (ucast (prop_lane_count p)) 2;
        each lane_map_put (take (unat (prop_lane_count p)) (prop_lane p))
      }) cap)"

definition no_lane_map :: peer_sec_lane_map where
  "no_lane_map = \<lparr>map_id = 0, map_generation = 0, map_worker0 = 0, map_worker1 = 0\<rparr>"

text \<open>The lanes that were read, in an array of 16 that was zero before.\<close>

definition lane_array :: "'a \<Rightarrow> 'a list \<Rightarrow> 'a list" where
  "lane_array zero ls = ls @ replicate (PEER_SEC_LANES_MAX - length ls) zero"

definition propose_get :: "(get_cursor, u64 \<times> peer_sec_propose) state" where
  "propose_get = do {
     version \<leftarrow> take_number 2;
     cluster \<leftarrow> string_get 128;
     source_pod \<leftarrow> string_get 64;
     target_pod \<leftarrow> string_get 64;
     source \<leftarrow> registration_get;
     association \<leftarrow> get 16; rx_spi \<leftarrow> take_number 4;
     incarnation \<leftarrow> take_number 4;
     service \<leftarrow> string_get 128;
     port \<leftarrow> take_number 2; mtu \<leftarrow> take_number 2;
     count \<leftarrow> take_number 2;
     c \<leftarrow> State_Monad.get;
     let lane_count = (ucast count :: u16);
     let p = (\<lambda>ls. (version, \<lparr>prop_cluster = cluster, prop_source_pod = source_pod, prop_target_pod = target_pod,
       prop_source = source, prop_association = association, prop_rx_spi = ucast rx_spi, prop_incarnation = ucast incarnation,
       prop_service = service, prop_port = ucast port, prop_mtu = ucast mtu, prop_lane_count = lane_count,
       prop_lane = lane_array no_lane_map ls\<rparr>));
     if get_bad c \<or> unat lane_count > PEER_SEC_LANES_MAX then fail_get (p [])
     else do { ls \<leftarrow> several lane_map_get (unat lane_count); State_Monad.return (p ls) }
   }"

definition peer_sec_propose_decode :: "u8 list \<Rightarrow> peer_sec_propose option" where
  "peer_sec_propose_decode buf =
     map_option snd (decode_all propose_get (\<lambda>(version, p). version = PEER_SEC_VERSION \<and> propose_valid p) buf)"

definition lane_map_bytes :: "peer_sec_lane_map \<Rightarrow> u8 list" where
  "lane_map_bytes l =
     be_bytes 8 (map_id l) @ be_bytes 8 (map_generation l) @ be_bytes 2 (ucast (map_worker0 l)) @ be_bytes 2 (ucast (map_worker1 l))"

interpretation lane_map: codec lane_map_bytes lane_map_get "\<lambda>_. True"
proof (unfold_locales, goal_cases)
  case (1 x r)
  then show ?case by (simp add: lane_map_bytes_def lane_map_get_def field_dec_enc)
next
  case (2 c x c')
  then show ?case
    by (auto simp: lane_map_bytes_def lane_map_get_def bind_run return_run wide_narrow simp del: run_state_bind dest!: field_enc_dec)
qed

lemma writes_lane_map [codec_writes]: "writes (lane_map_put l) (lane_map_bytes l)"
  unfolding lane_map_put_def lane_map_bytes_def by (intro codec_writes)

definition propose_bytes :: "u64 \<times> peer_sec_propose \<Rightarrow> u8 list" where
  "propose_bytes = (\<lambda>(version, p).
     be_bytes 2 version @ string_bytes (prop_cluster p) @ string_bytes (prop_source_pod p) @ string_bytes (prop_target_pod p) @
     registration_bytes (prop_source p) @ prop_association p @ be_bytes 4 (ucast (prop_rx_spi p)) @
     be_bytes 4 (ucast (prop_incarnation p)) @ string_bytes (prop_service p) @ be_bytes 2 (ucast (prop_port p)) @
     be_bytes 2 (ucast (prop_mtu p)) @ be_bytes 2 (ucast (prop_lane_count p)) @
     concat (map lane_map_bytes (take (unat (prop_lane_count p)) (prop_lane p))))"

text \<open>An array with \<open>n\<close> entries in use.\<close>

definition lanes_shape :: "'a \<Rightarrow> u16 \<Rightarrow> 'a list \<Rightarrow> bool" where
  "lanes_shape zero n ls \<longleftrightarrow> unat n \<le> PEER_SEC_LANES_MAX \<and> ls = lane_array zero (take (unat n) ls) \<and> length ls = PEER_SEC_LANES_MAX"

lemma lane_array_take: "lanes_shape zero n ls \<Longrightarrow> lane_array zero (take (unat n) ls) = ls"
  by (simp add: lanes_shape_def)

lemma lanes_shape_take: "lanes_shape zero n ls \<Longrightarrow> length (take (unat n) ls) = unat n"
  by (simp add: lanes_shape_def)

lemma lanes_shape_array: "length ls = unat n \<Longrightarrow> unat n \<le> PEER_SEC_LANES_MAX \<Longrightarrow> lanes_shape zero n (lane_array zero ls)"
  by (simp add: lanes_shape_def lane_array_def)

lemma take_lane_array: "length ls = unat n \<Longrightarrow> take (unat n) (lane_array zero ls) = ls"
  by (simp add: lane_array_def)

definition propose_shape :: "peer_sec_propose \<Rightarrow> bool" where
  "propose_shape p \<longleftrightarrow>
     c_string 128 (prop_cluster p) \<and> c_string 64 (prop_source_pod p) \<and> c_string 64 (prop_target_pod p) \<and>
     registration_shape (prop_source p) \<and> length (prop_association p) = 16 \<and> c_string 128 (prop_service p) \<and>
     lanes_shape no_lane_map (prop_lane_count p) (prop_lane p)"

lemma several_take:
  assumes "lanes_shape zero n ls" "codec enc dec ok" "list_all ok (take (unat n) ls)"
  shows "run_state (several dec (unat n)) (rd (concat (map enc (take (unat n) ls)) @ r)) = (take (unat n) ls, rd r)"
  using codec.several_enc [OF assms(2,3), of r] lanes_shape_take [OF assms(1)] by simp

interpretation propose: codec propose_bytes propose_get "\<lambda>(version, p). take_bit 16 version = version \<and> propose_shape p"
proof (unfold_locales, goal_cases)
  case (1 x r)
  then obtain v p where x: "x = (v, p)" "take_bit 16 v = v" "propose_shape p" by (cases x) auto
  then have l: "lanes_shape no_lane_map (prop_lane_count p) (prop_lane p)" by (simp add: propose_shape_def)
  have n: "unat (prop_lane_count p) \<le> PEER_SEC_LANES_MAX" using l by (simp add: lanes_shape_def)
  have lanes: "run_state (several lane_map_get (unat (prop_lane_count p)))
      (rd (concat (map lane_map_bytes (take (unat (prop_lane_count p)) (prop_lane p))) @ r)) = (take (unat (prop_lane_count p)) (prop_lane p), rd r)"
    by (rule several_take [OF l lane_map.codec_axioms]) (simp add: list_all_iff)
  show ?case
    using x n lanes lane_array_take [OF l]
    by (simp add: propose_bytes_def propose_get_def propose_shape_def field_dec_enc registration.dec_enc Let_def)
next
  case (2 c x c')
  from 2(1) obtain version cluster source_pod target_pod source association rx_spi incarnation service port mtu count ls
    c1 c2 c3 c4 c5 c6 c7 c8 c9 c10 c11 c12 where
    r: "run_state (take_number 2) c = (version, c1)" "run_state (string_get 128) c1 = (cluster, c2)"
      "run_state (string_get 64) c2 = (source_pod, c3)" "run_state (string_get 64) c3 = (target_pod, c4)"
      "run_state registration_get c4 = (source, c5)" "run_state (get 16) c5 = (association, c6)"
      "run_state (take_number 4) c6 = (rx_spi, c7)" "run_state (take_number 4) c7 = (incarnation, c8)"
      "run_state (string_get 128) c8 = (service, c9)" "run_state (take_number 2) c9 = (port, c10)"
      "run_state (take_number 2) c10 = (mtu, c11)" "run_state (take_number 2) c11 = (count, c12)"
    and l: "run_state (several lane_map_get (unat (ucast count :: u16))) c12 = (ls, c')" "unat (ucast count :: u16) \<le> PEER_SEC_LANES_MAX"
    and x: "x = (version, \<lparr>prop_cluster = cluster, prop_source_pod = source_pod, prop_target_pod = target_pod,
       prop_source = source, prop_association = association, prop_rx_spi = ucast rx_spi, prop_incarnation = ucast incarnation,
       prop_service = service, prop_port = ucast port, prop_mtu = ucast mtu, prop_lane_count = ucast count,
       prop_lane = lane_array no_lane_map ls\<rparr>)"
    unfolding propose_get_def Let_def bind_run get_run
    by - (elim exE conjE, hypsubst, drule if_fail_run [OF _ 2(2)], unfold bind_run return_run, elim exE conjE, rule that, (assumption | simp)+)
  note b12 = lane_map.several_dec [OF l(1) 2(2)]
  note b11 = n2.enc_dec [OF r(12) b12 [THEN conjunct1]]
  note b10 = n2.enc_dec [OF r(11) b11 [THEN conjunct1]]
  note b9 = n2.enc_dec [OF r(10) b10 [THEN conjunct1]]
  note b8 = s128.enc_dec [OF r(9) b9 [THEN conjunct1]]
  note b7 = n4.enc_dec [OF r(8) b8 [THEN conjunct1]]
  note b6 = n4.enc_dec [OF r(7) b7 [THEN conjunct1]]
  note b5 = bytes.enc_dec [OF r(6) b6 [THEN conjunct1]]
  note b4 = registration.enc_dec [OF r(5) b5 [THEN conjunct1]]
  note b3 = s64.enc_dec [OF r(4) b4 [THEN conjunct1]]
  note b2 = s64.enc_dec [OF r(3) b3 [THEN conjunct1]]
  note b1 = s128.enc_dec [OF r(2) b2 [THEN conjunct1]]
  note b0 = n2.enc_dec [OF r(1) b1 [THEN conjunct1]]
  show ?case
    using b0 b1 b2 b3 b4 b5 b6 b7 b8 b9 b10 b11 b12 l(2) unfolding x
    by (simp add: propose_bytes_def propose_shape_def wide_narrow lanes_shape_array take_lane_array)
qed

lemma propose_encode_eq:
  "peer_sec_propose_encode p cap =
    (if propose_valid p \<and> length (propose_bytes (PEER_SEC_VERSION, p)) \<le> cap then Some (propose_bytes (PEER_SEC_VERSION, p)) else None)"
proof (cases "propose_valid p")
  case True
  then have s: "string_len (prop_cluster p) \<noteq> 0" "string_len (prop_source_pod p) \<noteq> 0" "string_len (prop_target_pod p) \<noteq> 0"
    "string_len (prop_service p) \<noteq> 0" by (simp_all add: propose_valid_def)
  show ?thesis
    using True s unfolding peer_sec_propose_encode_def
    by (subst encode_with_eq [where bs = "propose_bytes (PEER_SEC_VERSION, p)"]) (auto simp: propose_bytes_def intro!: codec_writes)
qed (simp add: peer_sec_propose_encode_def)

section \<open>Lane parameters\<close>

record peer_sec_half_lane =
  half_id :: u64
  half_generation :: u64
  half_qpn :: u32
  half_psn :: u32
  half_gid :: "u8 list"

record peer_sec_lane_params =
  lp_association :: "u8 list"
  lp_rx_spi :: u32
  lp_registration :: dmesh_peer_registration
  lp_mtu :: u16
  lp_lane_count :: u16
  lp_lane :: "peer_sec_half_lane list"

definition lane_params_valid :: "peer_sec_lane_params \<Rightarrow> bool \<Rightarrow> bool" where
  "lane_params_valid p accept \<longleftrightarrow>
     peer_sec_nonzero (lp_association p) \<and> mtu_valid (lp_mtu p) \<and>
     (if accept then lp_rx_spi p \<ge> 256 \<and> dmesh_peer_registration_valid (lp_registration p)
      else lp_rx_spi p = 0 \<and>
        \<not> (peer_sec_nonzero (reg_daemon (lp_registration p)) \<or> reg_slot (lp_registration p) \<noteq> 0 \<or>
           reg_generation (lp_registration p) \<noteq> 0 \<or> peer_sec_nonzero (reg_nonce (lp_registration p)))) \<and>
     list_all (\<lambda>i. let l = lp_lane p ! i
        in half_qpn l \<noteq> 0 \<and> half_qpn l \<le> 0xffffff \<and> half_psn l \<le> 0xffffff \<and> peer_sec_nonzero (half_gid l))
       [0..<min (unat (lp_lane_count p)) PEER_SEC_LANES_MAX] \<and>
     lane_ids_valid (unat (lp_lane_count p)) (map half_id (lp_lane p)) (map half_generation (lp_lane p))"

definition half_lane_put :: "peer_sec_half_lane \<Rightarrow> (put_cursor, unit) state" where
  "half_lane_put l = do {
     number (half_id l) 8; number (half_generation l) 8;
     number (ucast (half_qpn l)) 3; number (ucast (half_psn l)) 3; put (half_gid l)
   }"

definition half_lane_get :: "(get_cursor, peer_sec_half_lane) state" where
  "half_lane_get = do {
     id \<leftarrow> take_number 8; generation \<leftarrow> take_number 8;
     qpn \<leftarrow> take_number 3; psn \<leftarrow> take_number 3; gid \<leftarrow> get 16;
     State_Monad.return \<lparr>half_id = id, half_generation = generation, half_qpn = ucast qpn, half_psn = ucast psn, half_gid = gid\<rparr>
   }"

definition accept_put :: "bool \<Rightarrow> u32 \<Rightarrow> dmesh_peer_registration \<Rightarrow> (put_cursor, unit) state" where
  "accept_put accept rx_spi r =
     (if accept then do { number (ucast rx_spi) 4; registration_put r } else State_Monad.return ())"

definition no_registration :: dmesh_peer_registration where
  "no_registration = \<lparr>reg_daemon = replicate 16 0, reg_slot = 0, reg_generation = 0, reg_nonce = replicate 32 0\<rparr>"

definition accept_get :: "bool \<Rightarrow> (get_cursor, u32 \<times> dmesh_peer_registration) state" where
  "accept_get accept =
     (if accept then do { rx_spi \<leftarrow> take_number 4; r \<leftarrow> registration_get; State_Monad.return (ucast rx_spi, r) }
      else State_Monad.return (0, no_registration))"

definition peer_sec_lane_params_encode :: "peer_sec_lane_params \<Rightarrow> bool \<Rightarrow> nat \<Rightarrow> u8 list option" where
  "peer_sec_lane_params_encode p accept cap =
     (if \<not> lane_params_valid p accept then None
      else encode_with (do {
        number PEER_SEC_VERSION 2; number (if accept then 1 else 0) 2;
        put (lp_association p);
        accept_put accept (lp_rx_spi p) (lp_registration p);
        number (ucast (lp_mtu p)) 2; number (ucast (lp_lane_count p)) 2;
        each half_lane_put (take (unat (lp_lane_count p)) (lp_lane p))
      }) cap)"

definition no_half_lane :: peer_sec_half_lane where
  "no_half_lane = \<lparr>half_id = 0, half_generation = 0, half_qpn = 0, half_psn = 0, half_gid = replicate 16 0\<rparr>"

definition lane_params_get :: "bool \<Rightarrow> (get_cursor, u64 \<times> u64 \<times> peer_sec_lane_params) state" where
  "lane_params_get accept = do {
     version \<leftarrow> take_number 2; kind \<leftarrow> take_number 2;
     association \<leftarrow> get 16;
     a \<leftarrow> accept_get accept;
     mtu \<leftarrow> take_number 2; count \<leftarrow> take_number 2;
     c \<leftarrow> State_Monad.get;
     let lane_count = (ucast count :: u16);
     let p = (\<lambda>ls. (version, kind, \<lparr>lp_association = association, lp_rx_spi = fst a, lp_registration = snd a,
       lp_mtu = ucast mtu, lp_lane_count = lane_count, lp_lane = lane_array no_half_lane ls\<rparr>));
     if get_bad c \<or> unat lane_count > PEER_SEC_LANES_MAX then fail_get (p [])
     else do { ls \<leftarrow> several half_lane_get (unat lane_count); State_Monad.return (p ls) }
   }"

definition peer_sec_lane_params_decode :: "u8 list \<Rightarrow> bool \<Rightarrow> peer_sec_lane_params option" where
  "peer_sec_lane_params_decode buf accept =
     map_option (\<lambda>(_, _, p). p)
       (decode_all (lane_params_get accept)
         (\<lambda>(version, kind, p). version = PEER_SEC_VERSION \<and> kind = (if accept then 1 else 0) \<and> lane_params_valid p accept) buf)"

definition half_lane_bytes :: "peer_sec_half_lane \<Rightarrow> u8 list" where
  "half_lane_bytes l =
     be_bytes 8 (half_id l) @ be_bytes 8 (half_generation l) @ be_bytes 3 (ucast (half_qpn l)) @ be_bytes 3 (ucast (half_psn l)) @ half_gid l"

definition half_lane_shape :: "peer_sec_half_lane \<Rightarrow> bool" where
  "half_lane_shape l \<longleftrightarrow> fits24 (half_qpn l) \<and> fits24 (half_psn l) \<and> length (half_gid l) = 16"

interpretation half_lane: codec half_lane_bytes half_lane_get half_lane_shape
proof (unfold_locales, goal_cases)
  case (1 x r)
  then show ?case by (simp add: half_lane_bytes_def half_lane_get_def half_lane_shape_def fits24_def field_dec_enc)
next
  case (2 c x c')
  then show ?case
    by (auto simp: half_lane_bytes_def half_lane_get_def half_lane_shape_def fits24_def bind_run return_run wide_narrow24 simp del: run_state_bind
        dest!: field_enc_dec)
qed

definition accept_bytes :: "bool \<Rightarrow> u32 \<times> dmesh_peer_registration \<Rightarrow> u8 list" where
  "accept_bytes accept = (\<lambda>(rx_spi, r). if accept then be_bytes 4 (ucast rx_spi) @ registration_bytes r else [])"

interpretation accept_part: codec "accept_bytes accept" "accept_get accept"
  "\<lambda>(rx_spi, r). if accept then registration_shape r else rx_spi = 0 \<and> r = no_registration" for accept
proof (unfold_locales, goal_cases)
  case (1 x r)
  then show ?case by (auto simp: accept_bytes_def accept_get_def field_dec_enc registration.dec_enc)
next
  case (2 c x c')
  then show ?case
    by (auto simp: accept_bytes_def accept_get_def bind_run return_run wide_narrow simp del: run_state_bind
        dest!: field_enc_dec registration.enc_dec split: if_splits)
qed

definition lane_params_bytes :: "bool \<Rightarrow> u64 \<times> u64 \<times> peer_sec_lane_params \<Rightarrow> u8 list" where
  "lane_params_bytes accept = (\<lambda>(version, kind, p).
     be_bytes 2 version @ be_bytes 2 kind @ lp_association p @ accept_bytes accept (lp_rx_spi p, lp_registration p) @
     be_bytes 2 (ucast (lp_mtu p)) @ be_bytes 2 (ucast (lp_lane_count p)) @
     concat (map half_lane_bytes (take (unat (lp_lane_count p)) (lp_lane p))))"

definition lane_params_ok :: "bool \<Rightarrow> peer_sec_lane_params \<Rightarrow> bool" where
  "lane_params_ok accept p \<longleftrightarrow>
     length (lp_association p) = 16 \<and>
     (if accept then registration_shape (lp_registration p) else lp_rx_spi p = 0 \<and> lp_registration p = no_registration) \<and>
     lanes_shape no_half_lane (lp_lane_count p) (lp_lane p) \<and>
     list_all half_lane_shape (take (unat (lp_lane_count p)) (lp_lane p))"

interpretation lane_params: codec "lane_params_bytes accept" "lane_params_get accept"
  "\<lambda>(version, kind, p). take_bit 16 version = version \<and> take_bit 16 kind = kind \<and> lane_params_ok accept p" for accept
proof (unfold_locales, goal_cases)
  case (1 x r)
  then obtain v k p where x: "x = (v, k, p)" "take_bit 16 v = v" "take_bit 16 k = k" "lane_params_ok accept p" by (cases x) auto
  then have l: "lanes_shape no_half_lane (lp_lane_count p) (lp_lane p)" "list_all half_lane_shape (take (unat (lp_lane_count p)) (lp_lane p))"
    and a: "run_state (accept_get accept) (rd (accept_bytes accept (lp_rx_spi p, lp_registration p) @ s)) = ((lp_rx_spi p, lp_registration p), rd s)"
    for s by (auto simp: lane_params_ok_def accept_part.dec_enc)
  have n: "unat (lp_lane_count p) \<le> PEER_SEC_LANES_MAX" using l by (simp add: lanes_shape_def)
  show ?case
    using x n several_take [OF l(1) half_lane.codec_axioms l(2), of r] lane_array_take [OF l(1)] a
    by (simp add: lane_params_bytes_def lane_params_get_def lane_params_ok_def field_dec_enc Let_def)
next
  case (2 c x c')
  from 2(1) obtain version kind association a mtu count ls c1 c2 c3 c4 c5 c6 where
    r: "run_state (take_number 2) c = (version, c1)" "run_state (take_number 2) c1 = (kind, c2)"
      "run_state (get 16) c2 = (association, c3)" "run_state (accept_get accept) c3 = (a, c4)"
      "run_state (take_number 2) c4 = (mtu, c5)" "run_state (take_number 2) c5 = (count, c6)"
    and l: "run_state (several half_lane_get (unat (ucast count :: u16))) c6 = (ls, c')" "unat (ucast count :: u16) \<le> PEER_SEC_LANES_MAX"
    and x: "x = (version, kind, \<lparr>lp_association = association, lp_rx_spi = fst a, lp_registration = snd a,
       lp_mtu = ucast mtu, lp_lane_count = ucast count, lp_lane = lane_array no_half_lane ls\<rparr>)"
    unfolding lane_params_get_def Let_def bind_run get_run
    by - (elim exE conjE, hypsubst, drule if_fail_run [OF _ 2(2)], unfold bind_run return_run, elim exE conjE, rule that, (assumption | simp)+)
  note b6 = half_lane.several_dec [OF l(1) 2(2)]
  note b5 = n2.enc_dec [OF r(6) b6 [THEN conjunct1]]
  note b4 = n2.enc_dec [OF r(5) b5 [THEN conjunct1]]
  note b3 = accept_part.enc_dec [OF r(4) b4 [THEN conjunct1]]
  note b2 = bytes.enc_dec [OF r(3) b3 [THEN conjunct1]]
  note b1 = n2.enc_dec [OF r(2) b2 [THEN conjunct1]]
  note b0 = n2.enc_dec [OF r(1) b1 [THEN conjunct1]]
  show ?case
    using b0 b1 b2 b3 b4 b5 b6 l(2) unfolding x
    by (cases a) (simp add: lane_params_bytes_def lane_params_ok_def wide_narrow lanes_shape_array take_lane_array)
qed

lemma writes_half_lane [codec_writes]: "writes (half_lane_put l) (half_lane_bytes l)"
  unfolding half_lane_put_def half_lane_bytes_def by (intro codec_writes)

lemma writes_accept [codec_writes]: "writes (accept_put a s r) (accept_bytes a (s, r))"
  by (auto simp: accept_put_def accept_bytes_def intro!: codec_writes)

lemma lane_params_encode_eq:
  fixes p accept
  defines "bs \<equiv> lane_params_bytes accept (PEER_SEC_VERSION, if accept then 1 else 0, p)"
  shows "peer_sec_lane_params_encode p accept cap = (if lane_params_valid p accept \<and> length bs \<le> cap then Some bs else None)"
  unfolding peer_sec_lane_params_encode_def
  by (subst encode_with_eq [where bs = bs]) (auto simp: bs_def lane_params_bytes_def intro!: codec_writes)

section \<open>Rekey and error\<close>

definition peer_sec_rekey_encode :: "u32 \<Rightarrow> u32 \<Rightarrow> u8 list option" where
  "peer_sec_rekey_encode spi0 spi1 =
     (if spi0 \<noteq> 0 \<and> spi0 < 256 \<or> spi1 \<noteq> 0 \<and> spi1 < 256 \<or> spi0 = 0 \<and> spi1 = 0 then None
      else encode_exact (do { number PEER_SEC_VERSION 2; number (ucast spi0) 4; number (ucast spi1) 4 }) 10)"

definition rekey_get :: "(get_cursor, u64 \<times> u32 \<times> u32) state" where
  "rekey_get = do {
     version \<leftarrow> take_number 2; a \<leftarrow> take_number 4; b \<leftarrow> take_number 4;
     State_Monad.return (version, ucast a, ucast b)
   }"

definition peer_sec_rekey_decode :: "u8 list \<Rightarrow> (u32 \<times> u32) option" where
  "peer_sec_rekey_decode buf =
     (if length buf \<noteq> 10 then None
      else map_option snd (decode_all rekey_get
        (\<lambda>(version, a, b). version = PEER_SEC_VERSION \<and> \<not> (a \<noteq> 0 \<and> a < 256) \<and> \<not> (b \<noteq> 0 \<and> b < 256) \<and> \<not> (a = 0 \<and> b = 0)) buf))"

definition peer_sec_error_encode :: "u16 \<Rightarrow> u8 list option" where
  "peer_sec_error_encode code =
     (if code < 1 \<or> code > 6 then None
      else encode_exact (do { number PEER_SEC_VERSION 2; number (ucast code) 2 }) 4)"

definition error_get :: "(get_cursor, u64 \<times> u64) state" where
  "error_get = do { version \<leftarrow> take_number 2; value \<leftarrow> take_number 2; State_Monad.return (version, value) }"

definition peer_sec_error_decode :: "u8 list \<Rightarrow> u16 option" where
  "peer_sec_error_decode buf =
     (if length buf \<noteq> 4 then None
      else map_option (\<lambda>(_, value). ucast value) (decode_all error_get
        (\<lambda>(version, value). version = PEER_SEC_VERSION \<and> \<not> value < 1 \<and> \<not> value > 6) buf))"

interpretation rekey: codec "\<lambda>(version, a, b). be_bytes 2 version @ be_bytes 4 (ucast a) @ be_bytes 4 (ucast b)" rekey_get
  "\<lambda>(version, a, b). take_bit 16 version = version"
proof (unfold_locales, goal_cases)
  case (1 x r)
  then show ?case by (auto simp: rekey_get_def field_dec_enc)
next
  case (2 c x c')
  then show ?case by (auto simp: rekey_get_def bind_run return_run wide_narrow simp del: run_state_bind dest!: field_enc_dec)
qed

lemma rekey_canonical: "peer_sec_rekey_decode buf = Some (a, b) \<longleftrightarrow> peer_sec_rekey_encode a b = Some buf"
proof -
  have "peer_sec_rekey_encode a b =
    (if a \<noteq> 0 \<and> a < 256 \<or> b \<noteq> 0 \<and> b < 256 \<or> a = 0 \<and> b = 0 then None else Some (be_bytes 2 PEER_SEC_VERSION @ be_bytes 4 (ucast a) @ be_bytes 4 (ucast b)))"
    unfolding peer_sec_rekey_encode_def
    by (subst encode_exact_eq [where bs = "be_bytes 2 PEER_SEC_VERSION @ be_bytes 4 (ucast a) @ be_bytes 4 (ucast b)"]) (auto intro!: codec_writes)
  then show ?thesis by (auto simp: peer_sec_rekey_decode_def rekey.decode_all_iff PEER_SEC_VERSION_def)
qed

section \<open>Bodies have one form\<close>

text \<open>
  C35. A proposal is accepted exactly when its bytes are what the encoder writes for it, with its lane array
  zero past the lane count: a proposal has one form on the wire.
\<close>

theorem propose_canonical:
  "peer_sec_propose_decode buf = Some p \<longleftrightarrow> propose_shape p \<and> peer_sec_propose_encode p (length buf) = Some buf"
  by (auto simp: peer_sec_propose_decode_def propose.decode_all_iff propose_encode_eq PEER_SEC_VERSION_def)

lemma lanes_shape_all:
  assumes "lanes_shape zero n ls" "P zero"
  shows "list_all P (take (unat n) ls) \<longleftrightarrow> list_all P ls"
proof -
  have "ls = take (unat n) ls @ replicate (PEER_SEC_LANES_MAX - length (take (unat n) ls)) zero"
    using lane_array_take [OF assms(1)] unfolding lane_array_def by (rule sym)
  then have "list_all P ls \<longleftrightarrow> list_all P (take (unat n) ls) \<and> list_all P (replicate (PEER_SEC_LANES_MAX - length (take (unat n) ls)) zero)"
    by (metis list_all_append)
  then show ?thesis using assms(2) by (simp add: list_all_iff)
qed

lemma lane_params_ok_iff:
  assumes v: "lane_params_valid p accept"
  shows "lane_params_ok accept p \<longleftrightarrow>
    length (lp_association p) = 16 \<and> registration_shape (lp_registration p) \<and>
    lanes_shape no_half_lane (lp_lane_count p) (lp_lane p) \<and> list_all (\<lambda>l. length (half_gid l) = 16) (lp_lane p)"
proof -
  let ?n = "unat (lp_lane_count p)" and ?r = "lp_registration p"
  have r: "registration_shape ?r \<longleftrightarrow> (if accept then registration_shape ?r else lp_rx_spi p = 0 \<and> ?r = no_registration)"
  proof (cases accept)
    case False
    then have z: "lp_rx_spi p = 0" "\<not> peer_sec_nonzero (reg_daemon ?r)" "reg_slot ?r = 0" "reg_generation ?r = 0"
      "\<not> peer_sec_nonzero (reg_nonce ?r)" using v by (auto simp: lane_params_valid_def)
    have "registration_shape ?r \<Longrightarrow> ?r = no_registration"
      using zero_bytes [OF z(2)] zero_bytes [OF z(5)] z by (cases ?r) (simp add: registration_shape_def no_registration_def)
    moreover have "?r = no_registration \<Longrightarrow> registration_shape ?r" by (simp add: registration_shape_def no_registration_def)
    ultimately show ?thesis using False z(1) by auto
  qed simp
  have l: "list_all half_lane_shape (take ?n (lp_lane p)) \<longleftrightarrow> list_all (\<lambda>l. length (half_gid l) = 16) (lp_lane p)"
    if s: "lanes_shape no_half_lane (lp_lane_count p) (lp_lane p)"
  proof -
    have n: "?n \<le> PEER_SEC_LANES_MAX" "length (lp_lane p) = PEER_SEC_LANES_MAX" using s by (simp_all add: lanes_shape_def)
    have "half_qpn (lp_lane p ! i) \<le> 0xffffff \<and> half_psn (lp_lane p ! i) \<le> 0xffffff" if "i < ?n" for i
      using v that n by (auto simp: lane_params_valid_def list_all_iff Let_def)
    then have "list_all half_lane_shape (take ?n (lp_lane p)) \<longleftrightarrow> list_all (\<lambda>l. length (half_gid l) = 16) (take ?n (lp_lane p))"
      using n by (auto simp: list_all_length half_lane_shape_def fits24_def wide24)
    then show ?thesis using lanes_shape_all [OF s, of "\<lambda>l. length (half_gid l) = 16"] by (simp add: no_half_lane_def)
  qed
  show ?thesis unfolding lane_params_ok_def using r l by auto
qed

text \<open>
  C36. The half lanes of an ACCEPT or of a LANE_PARAMS message are accepted exactly when the bytes are what the
  encoder writes for them in the same role. Only an ACCEPT carries a registration and a receive SPI.
\<close>

theorem lane_params_canonical:
  "peer_sec_lane_params_decode buf accept = Some p \<longleftrightarrow>
    length (lp_association p) = 16 \<and> registration_shape (lp_registration p) \<and>
    lanes_shape no_half_lane (lp_lane_count p) (lp_lane p) \<and> list_all (\<lambda>l. length (half_gid l) = 16) (lp_lane p) \<and>
    peer_sec_lane_params_encode p accept (length buf) = Some buf" (is "?l \<longleftrightarrow> ?s1 \<and> ?s2 \<and> ?s3 \<and> ?s4 \<and> ?e")
proof (cases "lane_params_valid p accept")
  case True
  define bs where "bs = lane_params_bytes accept (PEER_SEC_VERSION, if accept then 1 else 0, p)"
  have "?l \<longleftrightarrow> lane_params_ok accept p \<and> buf = bs"
    using True by (cases accept) (auto simp: peer_sec_lane_params_decode_def lane_params.decode_all_iff PEER_SEC_VERSION_def bs_def)
  moreover have "?e \<longleftrightarrow> buf = bs"
    using True by (auto simp: lane_params_encode_eq bs_def [symmetric])
  ultimately show ?thesis using lane_params_ok_iff [OF True] by auto
next
  case False
  then show ?thesis by (auto simp: peer_sec_lane_params_decode_def lane_params.decode_all_iff lane_params_encode_eq)
qed

lemma lane_ids_sorted:
  assumes "lane_ids_valid n ids gens" "n \<le> length ids"
  shows "sorted_wrt (<) (take n ids)"
proof -
  have "ids ! i < ids ! Suc i" if "Suc i < n" for i
    using assms that by (auto simp: lane_ids_valid_def list_all_iff dest: bspec [of _ _ "Suc i"])
  then show ?thesis using assms(2) by (auto simp: sorted_wrt_iff_nth_Suc_transp)
qed

lemma distinct_before: "(\<And>i j. i < n \<Longrightarrow> j < i \<Longrightarrow> f (ls ! i) \<noteq> f (ls ! j)) \<Longrightarrow> n \<le> length ls \<Longrightarrow> distinct (map f (take n ls))"
  by (auto simp: distinct_conv_nth) (metis linorder_neqE_nat)

text \<open>
  C37. An accepted proposal names between one and 16 lanes in strictly ascending order of identifiers, and no two
  of its lanes share a worker on either side.
\<close>

theorem accepted_proposal_lanes_distinct:
  assumes "peer_sec_propose_decode buf = Some p"
  defines "ls \<equiv> take (unat (prop_lane_count p)) (prop_lane p)"
  shows "1 \<le> length ls \<and> length ls \<le> 16 \<and> sorted_wrt (<) (map map_id ls) \<and> distinct (map map_worker0 ls) \<and> distinct (map map_worker1 ls)
     \<and> list_all (\<lambda>l. map_id l \<noteq> 0 \<and> map_generation l \<noteq> 0 \<and> map_worker0 l < 16 \<and> map_worker1 l < 16) ls"
proof -
  let ?n = "unat (prop_lane_count p)"
  from assms(1) have v: "propose_valid p" "propose_shape p"
    by (auto simp: peer_sec_propose_decode_def propose.decode_all_iff)
  then have n: "?n \<le> PEER_SEC_LANES_MAX" "length (prop_lane p) = PEER_SEC_LANES_MAX" by (simp_all add: propose_shape_def lanes_shape_def)
  have n1: "1 \<le> ?n" using v by (auto simp: propose_valid_def Suc_le_eq unat_gt_0)
  have ids: "lane_ids_valid ?n (map map_id (prop_lane p)) (map map_generation (prop_lane p))" using v by (simp add: propose_valid_def)
  have w: "map_worker0 (prop_lane p ! i) < 16 \<and> map_worker1 (prop_lane p ! i) < 16 \<and>
      (\<forall>j < i. map_worker0 (prop_lane p ! i) \<noteq> map_worker0 (prop_lane p ! j) \<and> map_worker1 (prop_lane p ! i) \<noteq> map_worker1 (prop_lane p ! j))"
    if "i < ?n" for i using v that by (auto simp: propose_valid_def list_all_iff)
  have "sorted_wrt (<) (map map_id ls)" using lane_ids_sorted [OF ids] n by (simp add: ls_def take_map)
  moreover have "distinct (map map_worker0 ls)" "distinct (map map_worker1 ls)"
    unfolding ls_def using w n by (auto intro!: distinct_before)
  moreover have "list_all (\<lambda>l. map_id l \<noteq> 0 \<and> map_generation l \<noteq> 0 \<and> map_worker0 l < 16 \<and> map_worker1 l < 16) ls"
    using w ids n by (auto simp: ls_def list_all_length lane_ids_valid_def list_all_iff)
  ultimately show ?thesis using n n1 by (simp add: ls_def PEER_SEC_LANES_MAX_def)
qed

section \<open>Examples\<close>

definition demo_registration :: dmesh_peer_registration where
  "demo_registration = \<lparr>reg_daemon = replicate 16 1, reg_slot = 2, reg_generation = 1, reg_nonce = replicate 32 1\<rparr>"

definition demo_propose :: peer_sec_propose where
  "demo_propose = \<lparr>prop_cluster = demo_text 128 ''a'', prop_source_pod = demo_text 64 ''a'', prop_target_pod = demo_text 64 ''b'',
     prop_source = demo_registration, prop_association = replicate 16 1, prop_rx_spi = 256, prop_incarnation = 1,
     prop_service = demo_text 128 ''a'', prop_port = 80, prop_mtu = 1024, prop_lane_count = 2,
     prop_lane = lane_array no_lane_map [\<lparr>map_id = 3, map_generation = 1, map_worker0 = 0, map_worker1 = 1\<rparr>,
       \<lparr>map_id = 4, map_generation = 1, map_worker0 = 1, map_worker1 = 0\<rparr>]\<rparr>"

lemma demo_propose_ok: "propose_shape demo_propose" "propose_valid demo_propose"
proof -
  show "propose_shape demo_propose"
    by (simp add: propose_shape_def demo_propose_def demo_strings registration_shape_def demo_registration_def lanes_shape_array PEER_SEC_LANES_MAX_def)
  have u: "[0..<2] = [0, 1 :: nat]" by (simp add: upt_conv_Cons)
  show "propose_valid demo_propose"
    by (simp add: propose_valid_def demo_propose_def demo_strings demo_order dmesh_peer_registration_valid_def demo_registration_def
        peer_sec_nonzero_def [symmetric] nonzero_iff mtu_valid_def lane_ids_valid_def PEER_SEC_LANES_MAX_def u lane_array_def nth_append)
qed

theorem propose_canonical_witness:
  "\<exists>bytes. peer_sec_propose_encode demo_propose (length bytes) = Some bytes \<and> peer_sec_propose_decode bytes = Some demo_propose"
proof -
  let ?b = "propose_bytes (PEER_SEC_VERSION, demo_propose)"
  have "peer_sec_propose_encode demo_propose (length ?b) = Some ?b" using demo_propose_ok by (simp add: propose_encode_eq)
  with propose_canonical [of ?b demo_propose] demo_propose_ok show ?thesis by auto
qed

theorem accepted_proposal_lanes_distinct_witness:
  "\<exists>bytes. peer_sec_propose_decode bytes = Some demo_propose \<and> unat (prop_lane_count demo_propose) = 2
    \<and> sorted_wrt (<) (map map_id (take 2 (prop_lane demo_propose))) \<and> distinct (map map_worker0 (take 2 (prop_lane demo_propose)))"
proof -
  have n: "unat (prop_lane_count demo_propose) = 2" by (simp add: demo_propose_def)
  have d: "peer_sec_propose_decode (propose_bytes (PEER_SEC_VERSION, demo_propose)) = Some demo_propose"
    using demo_propose_ok by (auto simp: peer_sec_propose_decode_def propose.decode_all_iff PEER_SEC_VERSION_def)
  from accepted_proposal_lanes_distinct [OF d] n d show ?thesis by auto
qed

definition demo_params :: peer_sec_lane_params where
  "demo_params = \<lparr>lp_association = replicate 16 1, lp_rx_spi = 256, lp_registration = demo_registration, lp_mtu = 1024, lp_lane_count = 1,
     lp_lane = lane_array no_half_lane [\<lparr>half_id = 3, half_generation = 1, half_qpn = 17, half_psn = 0, half_gid = replicate 16 1\<rparr>]\<rparr>"

theorem lane_params_canonical_witness:
  "\<exists>bytes. peer_sec_lane_params_encode demo_params True (length bytes) = Some bytes \<and> peer_sec_lane_params_decode bytes True = Some demo_params
    \<and> peer_sec_lane_params_encode demo_params False (length bytes) = None"
proof -
  let ?b = "lane_params_bytes True (PEER_SEC_VERSION, 1, demo_params)"
  have v: "lane_params_valid demo_params True" "\<not> lane_params_valid demo_params False"
    by (simp_all add: lane_params_valid_def demo_params_def dmesh_peer_registration_valid_def demo_registration_def
        peer_sec_nonzero_def [symmetric] nonzero_iff mtu_valid_def lane_ids_valid_def PEER_SEC_LANES_MAX_def lane_array_def)
  have e: "peer_sec_lane_params_encode demo_params True (length ?b) = Some ?b"
    "peer_sec_lane_params_encode demo_params False (length ?b) = None" using v by (simp_all add: lane_params_encode_eq)
  have s: "length (lp_association demo_params) = 16" "registration_shape (lp_registration demo_params)"
    "lanes_shape no_half_lane (lp_lane_count demo_params) (lp_lane demo_params)" "list_all (\<lambda>l. length (half_gid l) = 16) (lp_lane demo_params)"
    by (simp_all add: demo_params_def registration_shape_def demo_registration_def lanes_shape_array PEER_SEC_LANES_MAX_def)
      (simp add: lane_array_def no_half_lane_def list_all_iff)
  from lane_params_canonical [of ?b True demo_params] s e show ?thesis by auto
qed

end
